(* ===== verification/Prelude.thy ===== *)
theory Prelude
  imports Main "HOL-Library.Monad_Syntax" "HOL-Library.Sublist"
begin

text \<open>
  Shared vocabulary of the development: the types that stand for Rust's \<open>Result\<close> and
  for code that may panic, the collections of simplification rules the component
  theories fill, and generic facts on lists that several components use.

  A Rust \<open>Result<T, E>\<close> is the sum \<open>'e + 'a\<close> with \<open>Inl\<close> for \<open>Err\<close> and \<open>Inr\<close> for
  \<open>Ok\<close>. A computation that may panic has type \<open>'a option\<close>; \<open>None\<close> is the panic.
\<close>

type_synonym ('e, 'a) result = "'e + 'a"
type_synonym 'a panicky = "'a option"
type_synonym bytes = string

named_theorems rust_std \<open>characterisations of the modelled standard-library operations\<close>
named_theorems metrics_simps \<open>effect of the metric recording operations\<close>
named_theorems frame_simps \<open>fields an operation leaves unchanged\<close>

definition is_ok :: "('e, 'a) result \<Rightarrow> bool" where
  "is_ok r = (case r of Inl _ \<Rightarrow> False | Inr _ \<Rightarrow> True)"

definition map_err :: "('e \<Rightarrow> 'f) \<Rightarrow> ('e, 'a) result \<Rightarrow> ('f, 'a) result" where
  "map_err f r = (case r of Inl e \<Rightarrow> Inl (f e) | Inr a \<Rightarrow> Inr a)"

definition and_then :: "('e, 'a) result \<Rightarrow> ('a \<Rightarrow> ('e, 'b) result) \<Rightarrow> ('e, 'b) result" where
  "and_then r k = (case r of Inl e \<Rightarrow> Inl e | Inr a \<Rightarrow> k a)"

definition ok_or :: "'e \<Rightarrow> 'a option \<Rightarrow> ('e, 'a) result" where
  "ok_or e x = (case x of None \<Rightarrow> Inl e | Some a \<Rightarrow> Inr a)"

definition result_ok :: "('e, 'a) result \<Rightarrow> 'a option" where
  "result_ok r = (case r of Inl _ \<Rightarrow> None | Inr a \<Rightarrow> Some a)"

definition unwrap :: "('e, 'a) result \<Rightarrow> 'a panicky" where
  "unwrap r = (case r of Inl _ \<Rightarrow> None | Inr a \<Rightarrow> Some a)"

lemma unwrap_simps [simp]: "unwrap (Inl e) = None" "unwrap (Inr a) = Some a"
  by (simp_all add: unwrap_def)

lemma unwrap_Some_iff [simp]: "unwrap r = Some a \<longleftrightarrow> r = Inr a"
  by (cases r) simp_all

lemma is_ok_simps [simp]: "is_ok (Inr a)" "\<not> is_ok (Inl e)"
  by (simp_all add: is_ok_def)

lemma is_ok_iff: "is_ok r \<longleftrightarrow> (\<exists>a. r = Inr a)"
  by (cases r) simp_all

lemma map_err_simps [simp]:
  "map_err f (Inl e) = Inl (f e)" "map_err f (Inr a) = Inr a"
  by (simp_all add: map_err_def)

lemma and_then_simps [simp]:
  "and_then (Inl e) k = Inl e" "and_then (Inr a) k = k a"
  by (simp_all add: and_then_def)

lemma and_then_Inr_iff: "and_then r k = Inr b \<longleftrightarrow> (\<exists>a. r = Inr a \<and> k a = Inr b)"
  by (cases r) auto

lemma map_err_Inr_iff [simp]: "map_err f r = Inr a \<longleftrightarrow> r = Inr a"
  by (cases r) auto

lemma ok_or_simps [simp]: "ok_or e None = Inl e" "ok_or e (Some a) = Inr a"
  by (simp_all add: ok_or_def)

lemma result_ok_simps [simp]: "result_ok (Inl e) = None" "result_ok (Inr a) = Some a"
  by (simp_all add: result_ok_def)

subsection \<open>Lists\<close>

lemma take_append_length [simp]: "take (length xs) (xs @ ys) = xs"
  by simp

lemma find_Some_split:
  "List.find P xs = Some x \<longleftrightarrow>
     (\<exists>as bs. xs = as @ x # bs \<and> P x \<and> (\<forall>a \<in> set as. \<not> P a))"
proof (induction xs)
  case Nil
  then show ?case by simp
next
  case (Cons y ys)
  show ?case
  proof (cases "P y")
    case True
    have "y = x \<longleftrightarrow> (\<exists>as bs. y # ys = as @ x # bs \<and> P x \<and> (\<forall>a \<in> set as. \<not> P a))"
      (is "_ \<longleftrightarrow> ?R")
    proof
      assume "y = x"
      then show ?R using True by (intro exI [of _ "[]"] exI [of _ ys]) simp
    next
      assume ?R
      then obtain as bs where "y # ys = as @ x # bs" "\<forall>a \<in> set as. \<not> P a" by blast
      with True show "y = x" by (cases as) auto
    qed
    with True show ?thesis by simp
  next
    case False
    have "(\<exists>as bs. y # ys = as @ x # bs \<and> P x \<and> (\<forall>a \<in> set as. \<not> P a)) \<longleftrightarrow>
          (\<exists>as bs. ys = as @ x # bs \<and> P x \<and> (\<forall>a \<in> set as. \<not> P a))"
      (is "?L \<longleftrightarrow> ?R")
    proof
      assume ?L
      then obtain as bs where "y # ys = as @ x # bs" "P x" "\<forall>a \<in> set as. \<not> P a" by blast
      with False show ?R by (cases as) auto
    next
      assume ?R
      then obtain as bs where "ys = as @ x # bs" "P x" "\<forall>a \<in> set as. \<not> P a" by blast
      with False show ?L by (intro exI [of _ "y # as"] exI [of _ bs]) auto
    qed
    with False Cons.IH show ?thesis by simp
  qed
qed

lemma find_append:
  "List.find P (xs @ ys) = (case List.find P xs of Some x \<Rightarrow> Some x | None \<Rightarrow> List.find P ys)"
  by (induction xs) simp_all

lemma find_skip: "\<forall>a \<in> set as. \<not> P a \<Longrightarrow> List.find P (as @ bs) = List.find P bs"
  by (induction as) simp_all

lemma find_first: "\<forall>a \<in> set as. \<not> P a \<Longrightarrow> P x \<Longrightarrow> List.find P (as @ x # bs) = Some x"
  by (simp add: find_skip)

text \<open>The first value a partial function gives on the elements of a list.\<close>

fun first_some :: "('a \<Rightarrow> 'b option) \<Rightarrow> 'a list \<Rightarrow> 'b option" where
  "first_some f [] = None"
| "first_some f (x # xs) = (case f x of Some y \<Rightarrow> Some y | None \<Rightarrow> first_some f xs)"

lemma first_some_append:
  "first_some f (xs @ ys) = (case first_some f xs of Some y \<Rightarrow> Some y | None \<Rightarrow> first_some f ys)"
  by (induction xs) (simp_all split: option.split)

lemma first_some_SomeD: "first_some f xs = Some y \<Longrightarrow> \<exists>x \<in> set xs. f x = Some y"
  by (induction xs) (auto split: option.splits)

lemma first_some_None_iff: "first_some f xs = None \<longleftrightarrow> (\<forall>x \<in> set xs. f x = None)"
  by (induction xs) (auto split: option.splits)

lemma first_some_Some_split:
  "first_some f xs = Some y \<Longrightarrow> \<exists>as x bs. xs = as @ x # bs \<and> f x = Some y \<and> (\<forall>a \<in> set as. f a = None)"
proof (induction xs)
  case (Cons x xs)
  show ?case
  proof (cases "f x")
    case None
    with Cons obtain as x' bs where "xs = as @ x' # bs" "f x' = Some y" "\<forall>a \<in> set as. f a = None"
      by auto
    with None show ?thesis by (intro exI [of _ "x # as"] exI [of _ x'] exI [of _ bs]) simp
  next
    case (Some z)
    with Cons.prems show ?thesis by (intro exI [of _ "[]"] exI [of _ x] exI [of _ xs]) simp
  qed
qed simp

subsection \<open>Counting tasks\<close>

text \<open>How many of the tasks of a system are at a program point that satisfies a predicate.\<close>

definition count_tasks :: "('p \<Rightarrow> bool) \<Rightarrow> (nat \<rightharpoonup> 'p) \<Rightarrow> nat" where
  "count_tasks P f = card {t. \<exists>p. f t = Some p \<and> P p}"

lemma count_tasks_finite: "finite (dom f) \<Longrightarrow> finite {t. \<exists>p. f t = Some p \<and> P p}"
  by (rule finite_subset [of _ "dom f"]) auto

lemma count_tasks_empty [simp]: "count_tasks P Map.empty = 0"
  by (simp add: count_tasks_def)

lemma count_tasks_move:
  assumes "finite (dom f)" and "f t = Some p"
  shows "count_tasks P (f(t \<mapsto> q)) + (if P p then 1 else 0) = count_tasks P f + (if P q then 1 else 0)"
proof -
  let ?S = "{u. \<exists>p. f u = Some p \<and> P p}" and ?S' = "{u. \<exists>p. (f(t \<mapsto> q)) u = Some p \<and> P p}"
  have fin: "finite (?S - {t})" using count_tasks_finite [OF assms(1), of P] by simp
  have "?S = (if P p then insert t (?S - {t}) else ?S - {t})" using assms(2) by auto
  then have S: "card ?S = card (?S - {t}) + (if P p then 1 else 0)"
    using card_insert_disjoint [OF fin, of t] by (cases "P p") auto
  have "?S' = (if P q then insert t (?S - {t}) else ?S - {t})" by auto
  then have "card ?S' = card (?S - {t}) + (if P q then 1 else 0)"
    using card_insert_disjoint [OF fin, of t] by (cases "P q") auto
  with S show ?thesis unfolding count_tasks_def by linarith
qed

lemma count_tasks_new:
  assumes "finite (dom f)" and "f t = None"
  shows "count_tasks P (f(t \<mapsto> q)) = count_tasks P f + (if P q then 1 else 0)"
proof -
  let ?S = "{u. \<exists>p. f u = Some p \<and> P p}"
  have "{u. \<exists>p. (f(t \<mapsto> q)) u = Some p \<and> P p} = (if P q then insert t ?S else ?S)" "t \<notin> ?S"
    using assms(2) by auto
  then show ?thesis using count_tasks_finite [OF assms(1), of P] by (simp add: count_tasks_def)
qed

lemma count_tasks_pos: "finite (dom f) \<Longrightarrow> f t = Some p \<Longrightarrow> P p \<Longrightarrow> 0 < count_tasks P f"
  using count_tasks_finite [of f P] by (auto simp: count_tasks_def card_gt_0_iff)

lemma count_tasks_zero: "(\<And>t p. f t = Some p \<Longrightarrow> \<not> P p) \<Longrightarrow> count_tasks P f = 0"
proof -
  assume "\<And>t p. f t = Some p \<Longrightarrow> \<not> P p"
  then have "{t. \<exists>p. f t = Some p \<and> P p} = {}" by blast
  then show ?thesis unfolding count_tasks_def by (simp only: card.empty)
qed

lemma count_tasks_unique:
  assumes "finite (dom f)" and "count_tasks P f \<le> 1" and "f t = Some p" and "P p" and "f u = Some q" and "P q"
  shows "t = u"
proof -
  let ?S = "{t. \<exists>p. f t = Some p \<and> P p}"
  have "card ?S \<le> Suc 0" using assms(2) by (simp add: count_tasks_def)
  then have "\<forall>a \<in> ?S. \<forall>b \<in> ?S. a = b"
    by (simp only: card_le_Suc0_iff_eq [OF count_tasks_finite [OF assms(1)]])
  moreover have "t \<in> ?S" "u \<in> ?S" using assms(3-6) by auto
  ultimately show ?thesis by blast
qed

end
