(* ===== verification/Rust_Str.thy ===== *)
theory Rust_Str
  imports Prelude "HOL-Library.Word"
begin

text \<open>
  The parts of Rust's \<open>str\<close>, byte-slice and integer-parsing library the program uses.
  A \<open>string\<close> is the sequence of the UTF-8 bytes of a Rust string; lengths and offsets are
  byte lengths and byte offsets, as in Rust. Slicing a \<open>str\<close> panics out of range and off
  a character boundary, so \<open>str_slice\<close> returns \<open>None\<close> there. \<open>valid_utf8\<close> is the
  invariant of Rust's \<open>str\<close> type.
\<close>

subsection \<open>Bytes\<close>

definition byte :: "char \<Rightarrow> nat" where
  "byte c = of_char c"

definition is_ascii_uppercase :: "char \<Rightarrow> bool" where
  "is_ascii_uppercase c = (65 \<le> byte c \<and> byte c \<le> 90)"

definition is_ascii_digit :: "char \<Rightarrow> bool" where
  "is_ascii_digit c = (48 \<le> byte c \<and> byte c \<le> 57)"

definition is_ascii_control :: "char \<Rightarrow> bool" where
  "is_ascii_control c = (byte c < 32 \<or> byte c = 127)"

definition is_ascii_whitespace :: "char \<Rightarrow> bool" where
  "is_ascii_whitespace c = (byte c \<in> {9, 10, 12, 13, 32})"

definition byte_lower :: "char \<Rightarrow> char" where
  "byte_lower c = (if is_ascii_uppercase c then char_of (byte c + 32) else c)"

definition to_ascii_lowercase :: "string \<Rightarrow> string" where
  "to_ascii_lowercase s = map byte_lower s"

definition eq_ignore_ascii_case :: "string \<Rightarrow> string \<Rightarrow> bool" where
  "eq_ignore_ascii_case s t = (to_ascii_lowercase s = to_ascii_lowercase t)"

subsection \<open>UTF-8 and slicing\<close>

definition is_cont :: "char \<Rightarrow> bool" where
  "is_cont c = (128 \<le> byte c \<and> byte c < 192)"

definition utf8_width :: "char \<Rightarrow> nat" where
  "utf8_width c =
     (if byte c < 128 then 1
      else if 194 \<le> byte c \<and> byte c \<le> 223 then 2
      else if 224 \<le> byte c \<and> byte c \<le> 239 then 3
      else if 240 \<le> byte c \<and> byte c \<le> 244 then 4
      else 0)"

definition utf8_second_ok :: "char \<Rightarrow> char \<Rightarrow> bool" where
  "utf8_second_ok c d =
     (if byte c = 224 then 160 \<le> byte d
      else if byte c = 237 then byte d < 160
      else if byte c = 240 then 144 \<le> byte d
      else if byte c = 244 then byte d < 144
      else True)"

function valid_utf8 :: "string \<Rightarrow> bool" where
  "valid_utf8 [] = True"
| "valid_utf8 (c # cs) =
     (let n = utf8_width c in
        1 \<le> n \<and> n - 1 \<le> length cs \<and> (\<forall>d \<in> set (take (n - 1) cs). is_cont d)
        \<and> (2 \<le> n \<longrightarrow> utf8_second_ok c (hd cs))
        \<and> valid_utf8 (drop (n - 1) cs))"
  by pat_completeness auto
termination
  by (relation "measure length") auto

definition is_char_boundary :: "string \<Rightarrow> nat \<Rightarrow> bool" where
  "is_char_boundary s i =
     (i = 0 \<or> i = length s \<or> (i < length s \<and> \<not> is_cont (s ! i)))"

definition str_slice :: "string \<Rightarrow> nat \<Rightarrow> nat \<Rightarrow> string panicky" where
  "str_slice s a b =
     (if a \<le> b \<and> is_char_boundary s a \<and> is_char_boundary s b
      then Some (take (b - a) (drop a s)) else None)"

subsection \<open>Lossy decoding\<close>

text \<open>
  How many bytes after the lead byte \<open>c\<close> continue a character. If they complete it, it is kept;
  otherwise the lead byte and these bytes become one replacement character.
\<close>

definition good_conts :: "char \<Rightarrow> string \<Rightarrow> nat" where
  "good_conts c cs =
     (if utf8_width c < 2 then 0
      else case cs of
        [] \<Rightarrow> 0
      | d # ds \<Rightarrow> if is_cont d \<and> utf8_second_ok c d
                  then Suc (length (takeWhile is_cont (take (utf8_width c - 2) ds))) else 0)"

definition replacement_char :: string where
  "replacement_char = [CHR 0xEF, CHR 0xBF, CHR 0xBD]"

function from_utf8_lossy :: "bytes \<Rightarrow> string" where
  "from_utf8_lossy [] = []"
| "from_utf8_lossy (c # cs) =
     (let k = good_conts c cs in
      (if utf8_width c = Suc k then c # take k cs else replacement_char) @ from_utf8_lossy (drop k cs))"
  by pat_completeness auto
termination
  by (relation "measure length") auto

declare from_utf8_lossy.simps(2) [simp del]

subsection \<open>Searching and splitting\<close>

definition starts_with :: "string \<Rightarrow> string \<Rightarrow> bool" where
  "starts_with s p = (take (length p) s = p)"

definition ends_with :: "string \<Rightarrow> string \<Rightarrow> bool" where
  "ends_with s p = (length p \<le> length s \<and> drop (length s - length p) s = p)"

definition strip_prefix :: "string \<Rightarrow> string \<Rightarrow> string option" where
  "strip_prefix s p = (if starts_with s p then Some (drop (length p) s) else None)"

definition strip_suffix :: "string \<Rightarrow> string \<Rightarrow> string option" where
  "strip_suffix s p = (if ends_with s p then Some (take (length s - length p) s) else None)"

fun position :: "(char \<Rightarrow> bool) \<Rightarrow> string \<Rightarrow> nat option" where
  "position P [] = None"
| "position P (c # cs) = (if P c then Some 0 else map_option Suc (position P cs))"

fun find_str :: "string \<Rightarrow> string \<Rightarrow> nat option" where
  "find_str [] p = (if p = [] then Some 0 else None)"
| "find_str (c # cs) p =
     (if starts_with (c # cs) p then Some 0 else map_option Suc (find_str cs p))"

definition contains_str :: "string \<Rightarrow> string \<Rightarrow> bool" where
  "contains_str s p = (find_str s p \<noteq> None)"

fun match_indices :: "nat \<Rightarrow> char \<Rightarrow> string \<Rightarrow> nat list" where
  "match_indices i c [] = []"
| "match_indices i c (x # xs) =
     (if x = c then i # match_indices (Suc i) c xs else match_indices (Suc i) c xs)"

text \<open>
  \<open>split_once sep\<close>: the text before and after the first occurrence of the separator;
  \<open>rsplit_once\<close> on one byte: around its last occurrence; \<open>split\<close> on a byte class: the
  fields between separators, always at least one field; \<open>splitn\<close>: at most \<open>n\<close> fields, the
  last one unsplit.
\<close>

definition split_once :: "string \<Rightarrow> string \<Rightarrow> (string \<times> string) option" where
  "split_once s sep =
     (case find_str s sep of None \<Rightarrow> None
      | Some i \<Rightarrow> Some (take i s, drop (i + length sep) s))"

definition rsplit_once :: "string \<Rightarrow> char \<Rightarrow> (string \<times> string) option" where
  "rsplit_once s c =
     (case position (\<lambda>x. x = c) (rev s) of None \<Rightarrow> None
      | Some i \<Rightarrow> Some (take (length s - Suc i) s, drop (length s - i) s))"

fun split_on :: "(char \<Rightarrow> bool) \<Rightarrow> string \<Rightarrow> string list" where
  "split_on P [] = [[]]"
| "split_on P (c # cs) =
     (if P c then [] # split_on P cs
      else (case split_on P cs of [] \<Rightarrow> [[c]] | f # fs \<Rightarrow> (c # f) # fs))"

fun splitn :: "nat \<Rightarrow> (char \<Rightarrow> bool) \<Rightarrow> string \<Rightarrow> string list" where
  "splitn 0 P s = []"
| "splitn (Suc 0) P s = [s]"
| "splitn (Suc (Suc n)) P s =
     (case position P s of None \<Rightarrow> [s]
      | Some i \<Rightarrow> take i s # splitn (Suc n) P (drop (Suc i) s))"

subsection \<open>Integer parsing\<close>

datatype parse_int_error = IntEmpty | InvalidDigit | PosOverflow

fun parse_int_text :: "parse_int_error \<Rightarrow> string" where
  "parse_int_text IntEmpty = ''cannot parse integer from empty string''"
| "parse_int_text InvalidDigit = ''invalid digit found in string''"
| "parse_int_text PosOverflow = ''number too large to fit in target type''"

fun parse_digits :: "nat \<Rightarrow> nat \<Rightarrow> string \<Rightarrow> (parse_int_error, nat) result" where
  "parse_digits limit acc [] = Inr acc"
| "parse_digits limit acc (c # cs) =
     (if \<not> is_ascii_digit c then Inl InvalidDigit
      else if limit \<le> acc * 10 + (byte c - 48) then Inl PosOverflow
      else parse_digits limit (acc * 10 + (byte c - 48)) cs)"

text \<open>
  \<open>str::parse\<close> for an unsigned type with \<open>limit\<close> values: a single leading \<open>+\<close> is allowed,
  a sign alone is an invalid digit, and the empty string has an error of its own. (On an
  over-long numeral with a bad digit after the point of overflow, Rust reports whichever
  error it meets first from the left, as here.)
\<close>

definition parse_unsigned :: "nat \<Rightarrow> string \<Rightarrow> (parse_int_error, nat) result" where
  "parse_unsigned limit s =
     (case s of [] \<Rightarrow> Inl IntEmpty
      | c # cs \<Rightarrow>
          if cs = [] \<and> (c = CHR ''+'' \<or> c = CHR ''-'') then Inl InvalidDigit
          else if c = CHR ''+'' then parse_digits limit 0 cs
          else parse_digits limit 0 s)"

definition parse_u16 :: "string \<Rightarrow> (parse_int_error, 16 word) result" where
  "parse_u16 s = (case parse_unsigned 65536 s of Inl e \<Rightarrow> Inl e | Inr n \<Rightarrow> Inr (of_nat n))"

definition parse_usize :: "string \<Rightarrow> (parse_int_error, 64 word) result" where
  "parse_usize s = (case parse_unsigned (2 ^ 64) s of Inl e \<Rightarrow> Inl e | Inr n \<Rightarrow> Inr (of_nat n))"

fun show_nat :: "nat \<Rightarrow> string" where
  "show_nat n = (if n < 10 then [char_of (48 + n)]
                 else show_nat (n div 10) @ [char_of (48 + n mod 10)])"

declare show_nat.simps [simp del]

subsection \<open>Facts about searching\<close>

lemma starts_with_iff [rust_std]: "starts_with s p \<longleftrightarrow> (\<exists>r. s = p @ r)"
  unfolding starts_with_def by (metis append_eq_conv_conj append_take_drop_id)

lemma starts_with_append [simp]: "starts_with (p @ r) p"
  by (simp add: starts_with_def)

lemma ends_with_iff [rust_std]: "ends_with s p \<longleftrightarrow> (\<exists>r. s = r @ p)"
proof
  assume "ends_with s p"
  then have "s = take (length s - length p) s @ p"
    unfolding ends_with_def by (metis append_take_drop_id)
  then show "\<exists>r. s = r @ p" ..
qed (auto simp: ends_with_def)

lemma ends_with_append [simp]: "ends_with (r @ p) p"
  by (auto simp: ends_with_iff)

lemma strip_prefix_Some_iff [rust_std]: "strip_prefix s p = Some r \<longleftrightarrow> s = p @ r"
  by (auto simp: strip_prefix_def starts_with_iff)

lemma strip_prefix_append [simp]: "strip_prefix (p @ r) p = Some r"
  by (simp add: strip_prefix_def)

lemma strip_prefix_None_iff [rust_std]: "strip_prefix s p = None \<longleftrightarrow> (\<nexists>r. s = p @ r)"
  by (auto simp: strip_prefix_def starts_with_iff)

lemma position_Some_iff [rust_std]:
  "position P s = Some i \<longleftrightarrow>
     i < length s \<and> P (s ! i) \<and> (\<forall>c \<in> set (take i s). \<not> P c)"
proof (induction s arbitrary: i)
  case Nil
  then show ?case by simp
next
  case (Cons c cs)
  then show ?case by (cases i) auto
qed

lemma position_None_iff [rust_std]: "position P s = None \<longleftrightarrow> (\<forall>c \<in> set s. \<not> P c)"
  by (induction s) auto

lemma position_append_found [simp]:
  "\<forall>c \<in> set xs. \<not> P c \<Longrightarrow> P y \<Longrightarrow> position P (xs @ y # ys) = Some (length xs)"
  by (induction xs) auto

lemma position_Some_split:
  "position P s = Some i \<Longrightarrow>
     \<exists>xs y ys. s = xs @ y # ys \<and> length xs = i \<and> P y \<and> (\<forall>c \<in> set xs. \<not> P c)"
  by (metis position_Some_iff id_take_nth_drop length_take min.absorb4)

lemma position_Some_take:
  "position P s = Some i \<Longrightarrow>
     s = take i s @ s ! i # drop (Suc i) s \<and> P (s ! i) \<and> (\<forall>c \<in> set (take i s). \<not> P c)"
  using id_take_nth_drop [of i s] by (simp only: position_Some_iff) blast

lemma find_str_Some:
  "find_str s p = Some i \<Longrightarrow> s = take i s @ p @ drop (i + length p) s \<and> i + length p \<le> length s"
proof (induction s arbitrary: i)
  case Nil
  then show ?case by (simp split: if_splits)
next
  case (Cons c cs)
  show ?case
  proof (cases "starts_with (c # cs) p")
    case True
    then obtain r where r: "c # cs = p @ r" by (auto simp: starts_with_iff)
    from True Cons.prems have "i = 0" by simp
    with r show ?thesis by (metis append_Nil append_eq_conv_conj add_0 le_add1 length_append take0)
  next
    case False
    with Cons.prems obtain j where j: "find_str cs p = Some j" "i = Suc j" by auto
    with Cons.IH show ?thesis by auto
  qed
qed

lemma find_str_None_iff: "find_str s p = None \<longleftrightarrow> (\<nexists>x y. s = x @ p @ y)"
proof (induction s)
  case Nil
  then show ?case by simp
next
  case (Cons c cs)
  show ?case
  proof (cases "starts_with (c # cs) p")
    case True
    then obtain r where "c # cs = [] @ p @ r" by (auto simp: starts_with_iff)
    moreover from True have "find_str (c # cs) p \<noteq> None" by simp
    ultimately show ?thesis by blast
  next
    case False
    have "(\<exists>x y. c # cs = x @ p @ y) \<longleftrightarrow> (\<exists>x y. cs = x @ p @ y)" (is "?L \<longleftrightarrow> ?R")
    proof
      assume ?L
      then obtain x y where xy: "c # cs = x @ p @ y" by blast
      with False have "x \<noteq> []" by (auto simp: starts_with_iff)
      with xy show ?R by (cases x) auto
    next
      assume ?R
      then show ?L by (metis append_Cons)
    qed
    with False Cons.IH show ?thesis by auto
  qed
qed

lemma find_str_least: "find_str s p = Some i \<Longrightarrow> s = x @ p @ y \<Longrightarrow> i \<le> length x"
proof (induction s arbitrary: i x)
  case Nil
  then show ?case by (simp split: if_splits)
next
  case (Cons c cs)
  show ?case
  proof (cases "starts_with (c # cs) p")
    case True
    with Cons.prems(1) have "i = 0" by simp
    then show ?thesis by simp
  next
    case False
    with Cons.prems(1) obtain j where j: "find_str cs p = Some j" "i = Suc j" by auto
    from False Cons.prems(2) obtain x' where "x = c # x'" "cs = x' @ p @ y"
      by (cases x) (auto simp: starts_with_iff)
    with j Cons.IH show ?thesis by auto
  qed
qed

lemma contains_str_iff [rust_std]: "contains_str s p \<longleftrightarrow> (\<exists>x y. s = x @ p @ y)"
  using find_str_None_iff by (auto simp: contains_str_def)

text \<open>
  The first occurrence is as good as any when what follows only has to be long enough on
  the left: the step that makes a greedy left-to-right search complete.
\<close>

lemma find_str_greedy:
  assumes mono: "\<And>x y. Q y \<Longrightarrow> Q (x @ y)"
  shows "(\<exists>x y. s = x @ p @ y \<and> Q y) \<longleftrightarrow>
    (case find_str s p of None \<Rightarrow> False | Some i \<Rightarrow> Q (drop (i + length p) s))"
proof (cases "find_str s p")
  case None
  then have "\<nexists>x y. s = x @ p @ y" using find_str_None_iff by blast
  with None show ?thesis by auto
next
  case (Some i)
  have "Q (drop (i + length p) s)" if "s = x @ p @ y" "Q y" for x y
  proof -
    from Some that(1) have "i \<le> length x" by (rule find_str_least)
    with that(1) have "drop (i + length p) s = drop (i + length p) (x @ p) @ y" by simp
    with mono that(2) show ?thesis by simp
  qed
  moreover have "s = take i s @ p @ drop (i + length p) s"
    using find_str_Some [OF Some] by blast
  ultimately have "(\<exists>x y. s = x @ p @ y \<and> Q y) \<longleftrightarrow> Q (drop (i + length p) s)" by blast
  with Some show ?thesis by simp
qed

subsection \<open>Facts about UTF-8\<close>

declare valid_utf8.simps(2) [simp del]

lemma valid_utf8_append_cancel: "valid_utf8 a \<Longrightarrow> valid_utf8 (a @ b) = valid_utf8 b"
proof (induction a rule: valid_utf8.induct)
  case 1
  then show ?case by simp
next
  case (2 c cs)
  let ?n = "utf8_width c"
  from 2 have v: "1 \<le> ?n" "?n - 1 \<le> length cs" "\<forall>d \<in> set (take (?n - 1) cs). is_cont d"
    "2 \<le> ?n \<longrightarrow> utf8_second_ok c (hd cs)" "valid_utf8 (drop (?n - 1) cs)"
    by (simp_all add: valid_utf8.simps(2) Let_def)
  then have "valid_utf8 (drop (?n - 1) cs @ b) = valid_utf8 b"
    using 2 by simp
  moreover have "2 \<le> ?n \<longrightarrow> hd (cs @ b) = hd cs"
    using v(2) by (cases cs) auto
  ultimately show ?case
    using v by (auto simp: valid_utf8.simps(2) Let_def)
qed

lemma valid_utf8_not_cont: "valid_utf8 (c # cs) \<Longrightarrow> \<not> is_cont c"
  by (auto simp: valid_utf8.simps(2) Let_def utf8_width_def is_cont_def split: if_splits)

lemma valid_utf8_split:
  "valid_utf8 s \<Longrightarrow> is_char_boundary s i \<Longrightarrow> valid_utf8 (take i s) \<and> valid_utf8 (drop i s)"
proof (induction s arbitrary: i rule: valid_utf8.induct)
  case 1
  then show ?case by simp
next
  case (2 c cs)
  let ?n = "utf8_width c"
  from 2 have v: "1 \<le> ?n" "?n - 1 \<le> length cs" "\<forall>d \<in> set (take (?n - 1) cs). is_cont d"
    "2 \<le> ?n \<longrightarrow> utf8_second_ok c (hd cs)" "valid_utf8 (drop (?n - 1) cs)"
    by (simp_all add: valid_utf8.simps(2) Let_def)
  show ?case
  proof (cases "i = 0")
    case True
    with 2 show ?thesis by simp
  next
    case False
    have ge: "?n \<le> i"
    proof (rule ccontr)
      assume "\<not> ?n \<le> i"
      with False v(2) have i: "0 < i" "i - 1 < ?n - 1" "i - 1 < length cs" by auto
      then have "cs ! (i - 1) \<in> set (take (?n - 1) cs)"
        by (metis in_set_conv_nth length_take min_less_iff_conj nth_take)
      with v(3) have "is_cont ((c # cs) ! i)" using i by (simp add: nth_Cons')
      with 2(3) i show False by (auto simp: is_char_boundary_def)
    qed
    have "is_char_boundary (drop (?n - 1) cs) (i - ?n)"
      using 2(3) ge False v(1,2) by (auto simp: is_char_boundary_def nth_Cons')
    with 2(1) v have IH: "valid_utf8 (take (i - ?n) (drop (?n - 1) cs))"
      "valid_utf8 (drop (i - ?n) (drop (?n - 1) cs))" by simp_all
    have t: "take i (c # cs) = c # take (i - 1) cs" using False by (cases i) auto
    have e1: "drop (?n - 1) (take (i - 1) cs) = take (i - ?n) (drop (?n - 1) cs)"
      using ge v(1) by (simp add: drop_take)
    have e2: "take (?n - 1) (take (i - 1) cs) = take (?n - 1) cs"
      using ge v(1) by (simp add: min_def)
    have e3: "2 \<le> ?n \<longrightarrow> hd (take (i - 1) cs) = hd cs"
      using ge by (cases cs) (auto simp: take_Cons')
    have "valid_utf8 (take i (c # cs))"
      unfolding t valid_utf8.simps(2) Let_def e1 e2 using v IH(1) e3 ge by auto
    moreover have "drop i (c # cs) = drop (i - ?n) (drop (?n - 1) cs)"
      using ge v(1) False by (cases i) auto
    ultimately show ?thesis using IH(2) by simp
  qed
qed

lemma valid_utf8_takeD: "valid_utf8 s \<Longrightarrow> is_char_boundary s i \<Longrightarrow> valid_utf8 (take i s)"
  and valid_utf8_dropD: "valid_utf8 s \<Longrightarrow> is_char_boundary s i \<Longrightarrow> valid_utf8 (drop i s)"
  by (simp_all add: valid_utf8_split)

lemma boundary_0 [simp]: "is_char_boundary s 0"
  and boundary_length [simp]: "is_char_boundary s (length s)"
  by (simp_all add: is_char_boundary_def)

lemma boundary_le: "is_char_boundary s i \<Longrightarrow> i \<le> length s"
  by (auto simp: is_char_boundary_def)

lemma boundary_append_valid [simp]: "valid_utf8 b \<Longrightarrow> is_char_boundary (a @ b) (length a)"
  by (cases b) (auto simp: is_char_boundary_def dest: valid_utf8_not_cont)

lemma boundary_append_left [simp]: "b \<noteq> [] \<Longrightarrow> valid_utf8 b \<Longrightarrow> is_char_boundary (a @ b @ c) (length a)"
  by (cases b) (auto simp: is_char_boundary_def dest: valid_utf8_not_cont)

lemma str_slice_Some_iff [rust_std]:
  "str_slice s a b = Some t \<longleftrightarrow>
     a \<le> b \<and> is_char_boundary s a \<and> is_char_boundary s b \<and> t = take (b - a) (drop a s)"
  by (auto simp: str_slice_def)

lemma ascii_not_cont: "byte c < 128 \<Longrightarrow> \<not> is_cont c"
  by (simp add: is_cont_def)

lemma valid_utf8_ascii_Cons: "byte c < 128 \<Longrightarrow> valid_utf8 (c # s) = valid_utf8 s"
  by (simp add: valid_utf8.simps(2) utf8_width_def)

lemma boundary_ascii: "byte c < 128 \<Longrightarrow> is_char_boundary (a @ c # b) (length a)"
  by (simp add: is_char_boundary_def ascii_not_cont)

lemma valid_utf8_ascii_mid:
  assumes "byte c < 128"
  shows "valid_utf8 (a @ c # b) \<longleftrightarrow> valid_utf8 a \<and> valid_utf8 b"
proof -
  have "valid_utf8 (a @ c # b) \<Longrightarrow> valid_utf8 a"
    using valid_utf8_takeD boundary_ascii [OF assms] by fastforce
  with valid_utf8_ascii_Cons [OF assms] valid_utf8_append_cancel show ?thesis by metis
qed

lemma str_slice_prefix_ascii [simp]:
  "byte c < 128 \<Longrightarrow> str_slice (a @ c # b) 0 (length a) = Some a"
  by (simp add: str_slice_def boundary_ascii)

lemma str_slice_suffix: "valid_utf8 b \<Longrightarrow> str_slice (a @ b) (length a) (length a + length b) = Some b"
  using boundary_length [of "a @ b"] by (simp add: str_slice_def del: boundary_length)

lemma str_slice_suffix_ascii:
  assumes "byte c < 128" and "valid_utf8 (a @ c # b)"
  shows "str_slice (a @ c # b) (Suc (length a)) (length (a @ c # b)) = Some b"
  using str_slice_suffix [of b "a @ [c]"] assms by (simp add: valid_utf8_ascii_mid)

lemma valid_utf8_all_ascii: "\<forall>c \<in> set a. byte c < 128 \<Longrightarrow> valid_utf8 a"
  by (induction a) (auto simp: valid_utf8_ascii_Cons)

lemma good_conts_valid:
  assumes "valid_utf8 (c # cs)"
  shows "utf8_width c = Suc (good_conts c cs)" and "valid_utf8 (drop (good_conts c cs) cs)"
proof -
  have v: "1 \<le> utf8_width c" "utf8_width c - 1 \<le> length cs" "\<forall>d \<in> set (take (utf8_width c - 1) cs). is_cont d"
    "2 \<le> utf8_width c \<longrightarrow> utf8_second_ok c (hd cs)" "valid_utf8 (drop (utf8_width c - 1) cs)"
    using assms by (simp_all add: valid_utf8.simps(2) Let_def)
  have "good_conts c cs = utf8_width c - 1"
  proof (cases "utf8_width c < 2")
    case False
    then obtain d ds where cs: "cs = d # ds" using v(2) by (cases cs) auto
    then have "is_cont d" "takeWhile is_cont (take (utf8_width c - 2) ds) = take (utf8_width c - 2) ds"
      using v(3) False by (auto simp: take_Cons' takeWhile_eq_all_conv numeral_2_eq_2)
    then have "length (takeWhile is_cont (take (utf8_width c - 2) ds)) = utf8_width c - 2"
      using v(2) cs by (simp only: length_take) simp
    then show ?thesis using \<open>is_cont d\<close> False v(4) cs by (simp add: good_conts_def)
  qed (use v(1) in \<open>simp add: good_conts_def\<close>)
  then show "utf8_width c = Suc (good_conts c cs)" "valid_utf8 (drop (good_conts c cs) cs)" using v(1,5) by simp_all
qed

lemma from_utf8_lossy_valid: "valid_utf8 s \<Longrightarrow> from_utf8_lossy s = s"
proof (induction s rule: from_utf8_lossy.induct)
  case (2 c cs)
  then show ?case using good_conts_valid [OF 2(2)] by (simp add: from_utf8_lossy.simps(2) Let_def)
qed simp

subsection \<open>Facts about ASCII case\<close>

lemma byte_lt [simp]: "byte c < 256"
  by (simp add: byte_def)

lemma byte_char_of: "n < 256 \<Longrightarrow> byte (char_of n) = n"
  by (simp add: byte_def)

lemma byte_inject [simp]: "byte c = byte d \<longleftrightarrow> c = d"
  by (simp add: byte_def)

lemma byte_byte_lower: "byte (byte_lower c) = (if is_ascii_uppercase c then byte c + 32 else byte c)"
  by (auto simp: byte_lower_def byte_char_of is_ascii_uppercase_def)

lemma byte_lower_idem [simp]: "byte_lower (byte_lower c) = byte_lower c"
proof -
  have "\<not> is_ascii_uppercase (byte_lower c)"
    by (auto simp: is_ascii_uppercase_def byte_byte_lower)
  then show ?thesis by (simp add: byte_lower_def [of "byte_lower c"])
qed

lemma to_ascii_lowercase_idem [simp]:
  "to_ascii_lowercase (to_ascii_lowercase s) = to_ascii_lowercase s"
  by (simp add: to_ascii_lowercase_def)

lemma to_ascii_lowercase_append [simp]:
  "to_ascii_lowercase (s @ t) = to_ascii_lowercase s @ to_ascii_lowercase t"
  by (simp add: to_ascii_lowercase_def)

lemma length_to_ascii_lowercase [simp]: "length (to_ascii_lowercase s) = length s"
  by (simp add: to_ascii_lowercase_def)

lemma to_ascii_lowercase_Nil_iff [simp]: "to_ascii_lowercase s = [] \<longleftrightarrow> s = []"
  by (simp add: to_ascii_lowercase_def)

lemma byte_lower_non_ascii: "128 \<le> byte c \<Longrightarrow> byte_lower c = c"
  by (simp add: byte_lower_def is_ascii_uppercase_def)

lemma utf8_width_byte_lower [simp]: "utf8_width (byte_lower c) = utf8_width c"
  by (auto simp: utf8_width_def byte_byte_lower is_ascii_uppercase_def)

lemma is_cont_byte_lower [simp]: "is_cont (byte_lower c) = is_cont c"
  by (auto simp: is_cont_def byte_byte_lower is_ascii_uppercase_def)

lemma utf8_wide_non_ascii: "2 \<le> utf8_width c \<Longrightarrow> 128 \<le> byte c"
  by (auto simp: utf8_width_def split: if_splits)

lemma valid_utf8_lower: "valid_utf8 s \<Longrightarrow> valid_utf8 (to_ascii_lowercase s)"
proof (induction s rule: valid_utf8.induct)
  case 1
  then show ?case by (simp add: to_ascii_lowercase_def)
next
  case (2 c cs)
  let ?n = "utf8_width c"
  from 2 have v: "1 \<le> ?n" "?n - 1 \<le> length cs" "\<forall>d \<in> set (take (?n - 1) cs). is_cont d"
    "2 \<le> ?n \<longrightarrow> utf8_second_ok c (hd cs)" "valid_utf8 (drop (?n - 1) cs)"
    by (simp_all add: valid_utf8.simps(2) Let_def)
  have sec: "2 \<le> ?n \<longrightarrow> utf8_second_ok (byte_lower c) (hd (map byte_lower cs))"
  proof
    assume n: "2 \<le> ?n"
    with v(2) obtain d ds where d: "cs = d # ds" by (cases cs) auto
    with n v(3) have "is_cont d" by (auto simp: take_Cons')
    then have "byte_lower d = d" by (intro byte_lower_non_ascii) (simp add: is_cont_def)
    moreover have "byte_lower c = c" using n by (intro byte_lower_non_ascii utf8_wide_non_ascii)
    ultimately show "utf8_second_ok (byte_lower c) (hd (map byte_lower cs))" using v(4) n d by simp
  qed
  show ?case
    using 2(1) v sec
    by (auto simp: to_ascii_lowercase_def valid_utf8.simps(2) Let_def take_map drop_map)
qed

subsection \<open>Facts about numerals\<close>

text \<open>\<open>dec_value\<close> is the number a digit string denotes, on top of an accumulator.\<close>

fun dec_value :: "nat \<Rightarrow> string \<Rightarrow> nat" where
  "dec_value acc [] = acc"
| "dec_value acc (c # cs) = dec_value (acc * 10 + (byte c - 48)) cs"

lemma dec_value_ge: "acc \<le> dec_value acc s"
proof (induction acc s rule: dec_value.induct)
  case (2 acc c cs)
  have "acc \<le> acc * 10 + (byte c - 48)" by simp
  also have "\<dots> \<le> dec_value (acc * 10 + (byte c - 48)) cs" by (rule "2.IH")
  finally show ?case by simp
qed simp

lemma dec_value_append [simp]: "dec_value acc (s @ t) = dec_value (dec_value acc s) t"
  by (induction acc s rule: dec_value.induct) simp_all

lemma parse_digits_Inr_iff:
  "acc < limit \<Longrightarrow> parse_digits limit acc s = Inr n \<longleftrightarrow>
     list_all is_ascii_digit s \<and> n = dec_value acc s \<and> n < limit"
proof (induction limit acc s arbitrary: n rule: parse_digits.induct)
  case (1 limit acc)
  then show ?case by auto
next
  case (2 limit acc c cs)
  let ?v = "acc * 10 + (byte c - 48)"
  have "?v \<le> dec_value ?v cs" by (rule dec_value_ge)
  with 2 show ?case by (auto simp: not_le)
qed

definition unsigned_text :: "string \<Rightarrow> string" where
  "unsigned_text s = (case s of c # d # cs \<Rightarrow> if c = CHR ''+'' then d # cs else s | _ \<Rightarrow> s)"

lemma sign_not_digit [simp]: "\<not> is_ascii_digit (CHR ''+'')" "\<not> is_ascii_digit (CHR ''-'')"
  by (simp_all add: is_ascii_digit_def byte_def)

lemma parse_unsigned_Inr_iff:
  assumes "0 < limit"
  shows "parse_unsigned limit s = Inr n \<longleftrightarrow>
    s \<noteq> [] \<and> list_all is_ascii_digit (unsigned_text s) \<and> n = dec_value 0 (unsigned_text s) \<and> n < limit"
proof -
  consider "s = []" | c where "s = [c]" | c d cs where "s = c # d # cs" by (metis list.exhaust)
  then show ?thesis
  proof cases
    case 1
    then show ?thesis by (simp add: parse_unsigned_def)
  next
    case (2 c)
    then have "parse_unsigned limit s =
        (if c = CHR ''+'' \<or> c = CHR ''-'' then Inl InvalidDigit else parse_digits limit 0 s)"
      and t: "unsigned_text s = s" by (auto simp: parse_unsigned_def unsigned_text_def)
    then show ?thesis unfolding t using parse_digits_Inr_iff [OF assms, of s n] 2 by auto
  next
    case (3 c d cs)
    then have "parse_unsigned limit s = parse_digits limit 0 (unsigned_text s)"
      by (simp only: parse_unsigned_def unsigned_text_def list.case) simp
    with 3 show ?thesis using parse_digits_Inr_iff [OF assms] by auto
  qed
qed

lemma show_nat_digits: "list_all is_ascii_digit (show_nat n)"
proof (induction n rule: show_nat.induct)
  case (1 n)
  show ?case
  proof (cases "n < 10")
    case True
    then show ?thesis by (subst show_nat.simps) (simp add: is_ascii_digit_def byte_char_of)
  next
    case False
    have "n mod 10 \<le> 9" by simp
    then have "is_ascii_digit (char_of (48 + n mod 10))" by (simp add: is_ascii_digit_def byte_char_of)
    with 1 False show ?thesis by (subst show_nat.simps) simp
  qed
qed

lemma dec_value_show_nat [simp]: "dec_value 0 (show_nat n) = n"
proof (induction n rule: show_nat.induct)
  case (1 n)
  show ?case
  proof (cases "n < 10")
    case True
    then show ?thesis by (subst show_nat.simps) (simp add: byte_char_of)
  next
    case False
    with 1 show ?thesis by (subst show_nat.simps) (simp add: byte_char_of)
  qed
qed

lemma show_nat_nonempty [simp]: "show_nat n \<noteq> []"
  by (subst show_nat.simps) simp

lemma unsigned_text_digits: "list_all is_ascii_digit s \<Longrightarrow> unsigned_text s = s"
  by (auto simp: unsigned_text_def split: list.split)

lemma parse_unsigned_show_nat: "n < limit \<Longrightarrow> parse_unsigned limit (show_nat n) = Inr n"
  by (simp add: parse_unsigned_Inr_iff unsigned_text_digits show_nat_digits)

lemma unat_u16_less [simp]: "unat (p :: 16 word) < 65536"
  using unsigned_less [of p, where ?'a = nat] by simp

lemma parse_u16_show_nat: "parse_u16 (show_nat (unat p)) = Inr p"
  by (simp add: parse_u16_def parse_unsigned_show_nat)

lemma parse_u16_Inr_iff:
  "parse_u16 s = Inr p \<longleftrightarrow> s \<noteq> [] \<and> list_all is_ascii_digit (unsigned_text s)
     \<and> dec_value 0 (unsigned_text s) = unat p" (is "_ \<longleftrightarrow> ?R")
proof -
  have "parse_u16 s = Inr p \<longleftrightarrow> parse_unsigned 65536 s = Inr (unat p)"
  proof
    assume "parse_u16 s = Inr p"
    then obtain n where n: "parse_unsigned 65536 s = Inr n" "p = of_nat n"
      by (auto simp: parse_u16_def split: sum.splits)
    then have "n < 65536" by (simp add: parse_unsigned_Inr_iff)
    with n show "parse_unsigned 65536 s = Inr (unat p)" by (simp add: unat_of_nat take_bit_nat_eq_self)
  qed (simp add: parse_u16_def)
  then show ?thesis by (auto simp: parse_unsigned_Inr_iff)
qed

text \<open>A decimal number as \<open>FromStr\<close> of an unsigned integer accepts it, and the number it stands for.\<close>

definition reads_number :: "string \<Rightarrow> nat \<Rightarrow> bool" where
  "reads_number s n = (s \<noteq> [] \<and> list_all is_ascii_digit (unsigned_text s) \<and> dec_value 0 (unsigned_text s) = n)"

lemma parse_u16_reads: "parse_u16 s = Inr p \<longleftrightarrow> reads_number s (unat p)"
  by (simp add: parse_u16_Inr_iff reads_number_def)

lemma parse_usize_reads: "parse_usize s = Inr p \<longleftrightarrow> reads_number s (unat p)"
proof -
  have "parse_usize s = Inr p \<longleftrightarrow> parse_unsigned (2 ^ 64) s = Inr (unat p)"
  proof
    assume "parse_usize s = Inr p"
    then obtain n where n: "parse_unsigned (2 ^ 64) s = Inr n" "p = of_nat n"
      by (auto simp: parse_usize_def split: sum.splits)
    then have "n < 2 ^ 64" by (simp add: parse_unsigned_Inr_iff)
    with n show "parse_unsigned (2 ^ 64) s = Inr (unat p)" by (simp add: unat_of_nat take_bit_nat_eq_self)
  qed (simp add: parse_usize_def)
  moreover have "unat p < 2 ^ 64" using unsigned_less [of p, where ?'a = nat] by simp
  ultimately show ?thesis by (auto simp: parse_unsigned_Inr_iff reads_number_def)
qed

end
