(* ===== verification/Net_Addr.thy ===== *)
theory Net_Addr
  imports Rust_Str
begin

text \<open>
  The part of Rust's \<open>std::net\<close> the proxies use: socket addresses, their parser and their
  rendering. An IPv6 address is the list of its eight segments. The parser follows the
  library's reader combinators: a reader returns what it read and the rest of the text, and
  \<open>None\<close> leaves the input where it was.
\<close>

datatype IpAddr = V4 "8 word" "8 word" "8 word" "8 word" | V6 "16 word list"

record SocketAddr =
  addr_ip :: IpAddr
  addr_port :: "16 word"
  addr_scope :: "32 word"

definition SocketAddr_new :: "IpAddr \<Rightarrow> 16 word \<Rightarrow> SocketAddr" where
  "SocketAddr_new ip port = \<lparr>addr_ip = ip, addr_port = port, addr_scope = 0\<rparr>"

definition is_ipv6 :: "SocketAddr \<Rightarrow> bool" where
  "is_ipv6 a = (case addr_ip a of V4 _ _ _ _ \<Rightarrow> False | V6 _ \<Rightarrow> True)"

subsection \<open>The parser\<close>

definition to_digit :: "nat \<Rightarrow> char \<Rightarrow> nat option" where
  "to_digit radix c =
     (let d = (if is_ascii_digit c then Some (byte c - 48)
               else if 97 \<le> byte c \<and> byte c \<le> 122 then Some (byte c - 87)
               else if 65 \<le> byte c \<and> byte c \<le> 90 then Some (byte c - 55)
               else None) in
      case d of None \<Rightarrow> None | Some n \<Rightarrow> if n < radix then Some n else None)"

fun span_digits :: "nat \<Rightarrow> string \<Rightarrow> nat list \<times> string" where
  "span_digits radix [] = ([], [])"
| "span_digits radix (c # cs) =
     (case to_digit radix c of
        None \<Rightarrow> ([], c # cs)
      | Some d \<Rightarrow> (case span_digits radix cs of (ds, rest) \<Rightarrow> (d # ds, rest)))"

definition digits_value :: "nat \<Rightarrow> nat list \<Rightarrow> int" where
  "digits_value radix ds = foldl (\<lambda>a d. a * int radix + int d) 0 ds"

definition read_number ::
  "nat \<Rightarrow> nat option \<Rightarrow> int \<Rightarrow> bool \<Rightarrow> string \<Rightarrow> (int \<times> string) option" where
  "read_number radix max_digits limit allow_zero_prefix s =
     (case span_digits radix s of (ds, rest) \<Rightarrow>
        if (case max_digits of None \<Rightarrow> False | Some k \<Rightarrow> k < length ds) then None
        else if limit \<le> digits_value radix ds then None
        else if ds = [] then None
        else if \<not> allow_zero_prefix \<and> hd ds = 0 \<and> 1 < length ds then None
        else Some (digits_value radix ds, rest))"

definition read_given_char :: "char \<Rightarrow> string \<Rightarrow> string option" where
  "read_given_char c s = (case s of [] \<Rightarrow> None | d # ds \<Rightarrow> if d = c then Some ds else None)"

definition read_separator ::
  "char \<Rightarrow> nat \<Rightarrow> (string \<Rightarrow> ('a \<times> string) option) \<Rightarrow> string \<Rightarrow> ('a \<times> string) option" where
  "read_separator sep index inner s =
     do { s \<leftarrow> (if 0 < index then read_given_char sep s else Some s); inner s }"

definition read_octet :: "nat \<Rightarrow> string \<Rightarrow> (8 word \<times> string) option" where
  "read_octet i s =
     do { (n, s) \<leftarrow> read_separator (CHR ''.'') i (read_number 10 (Some 3) 256 False) s;
          Some (of_int n, s) }"

definition read_ipv4_addr :: "string \<Rightarrow> (IpAddr \<times> string) option" where
  "read_ipv4_addr s =
     do {
       (a, s) \<leftarrow> read_octet 0 s;
       (b, s) \<leftarrow> read_octet 1 s;
       (c, s) \<leftarrow> read_octet 2 s;
       (d, s) \<leftarrow> read_octet 3 s;
       Some (V4 a b c d, s)
     }"

definition be_pair :: "8 word \<Rightarrow> 8 word \<Rightarrow> 16 word" where
  "be_pair hi lo = of_int (uint hi * 256 + uint lo)"

definition v4_segments :: "IpAddr \<Rightarrow> 16 word list" where
  "v4_segments a = (case a of V4 a b c d \<Rightarrow> [be_pair a b, be_pair c d] | V6 gs \<Rightarrow> gs)"

text \<open>\<open>read_groups k i s\<close>: the inner loop at slot \<open>i\<close> with \<open>k\<close> slots left.\<close>

fun read_groups :: "nat \<Rightarrow> nat \<Rightarrow> string \<Rightarrow> 16 word list \<times> bool \<times> string" where
  "read_groups 0 i s = ([], False, s)"
| "read_groups (Suc k) i s =
     (case (if 0 < k then read_separator (CHR '':'') i read_ipv4_addr s else None) of
        Some (v4, s) \<Rightarrow> (v4_segments v4, True, s)
      | None \<Rightarrow>
          (case read_separator (CHR '':'') i (read_number 16 (Some 4) 65536 True) s of
             None \<Rightarrow> ([], False, s)
           | Some (g, s) \<Rightarrow>
               (case read_groups k (Suc i) s of (gs, v4, s) \<Rightarrow> (of_int g # gs, v4, s))))"

definition read_ipv6_addr :: "string \<Rightarrow> (IpAddr \<times> string) option" where
  "read_ipv6_addr s =
     (case read_groups 8 0 s of (front, front_v4, s) \<Rightarrow>
        if length front = 8 then Some (V6 front, s)
        else if front_v4 then None
        else do {
          s \<leftarrow> read_given_char (CHR '':'') s;
          s \<leftarrow> read_given_char (CHR '':'') s;
          (case read_groups (8 - (length front + 1)) 0 s of (back, _, s) \<Rightarrow>
             Some (V6 (front @ replicate (8 - length front - length back) 0 @ back), s))
        })"

definition read_port :: "string \<Rightarrow> (16 word \<times> string) option" where
  "read_port s =
     do { s \<leftarrow> read_given_char (CHR '':'') s;
          (n, s) \<leftarrow> read_number 10 None 65536 True s;
          Some (of_int n, s) }"

definition read_scope_id :: "string \<Rightarrow> 32 word \<times> string" where
  "read_scope_id s =
     (case do { s \<leftarrow> read_given_char (CHR ''%'') s; read_number 10 None (2 ^ 32) True s } of
        None \<Rightarrow> (0, s) | Some (n, s) \<Rightarrow> (of_int n, s))"

definition read_socket_addr_v4 :: "string \<Rightarrow> (SocketAddr \<times> string) option" where
  "read_socket_addr_v4 s =
     do { (ip, s) \<leftarrow> read_ipv4_addr s; (port, s) \<leftarrow> read_port s; Some (SocketAddr_new ip port, s) }"

definition read_socket_addr_v6 :: "string \<Rightarrow> (SocketAddr \<times> string) option" where
  "read_socket_addr_v6 s =
     do {
       s \<leftarrow> read_given_char (CHR ''['') s;
       (ip, s) \<leftarrow> read_ipv6_addr s;
       (case read_scope_id s of (scope, s) \<Rightarrow> do {
          s \<leftarrow> read_given_char (CHR '']'') s;
          (port, s) \<leftarrow> read_port s;
          Some (\<lparr>addr_ip = ip, addr_port = port, addr_scope = scope\<rparr>, s)
        })
     }"

definition parse_socket_addr :: "string \<Rightarrow> SocketAddr option" where
  "parse_socket_addr s =
     (case (case read_socket_addr_v4 s of Some r \<Rightarrow> Some r | None \<Rightarrow> read_socket_addr_v6 s) of
        None \<Rightarrow> None
      | Some (a, rest) \<Rightarrow> if rest = [] then Some a else None)"

subsection \<open>Rendering\<close>

definition hex_digit :: "nat \<Rightarrow> char" where
  "hex_digit n = (if n < 10 then char_of (48 + n) else char_of (87 + n))"

fun show_hex :: "nat \<Rightarrow> string" where
  "show_hex n = (if n < 16 then [hex_digit n] else show_hex (n div 16) @ [hex_digit (n mod 16)])"

declare show_hex.simps [simp del]

fun join_with :: "string \<Rightarrow> string list \<Rightarrow> string" where
  "join_with sep [] = []"
| "join_with sep [x] = x"
| "join_with sep (x # y # xs) = x @ sep @ join_with sep (y # xs)"

definition show_groups :: "16 word list \<Rightarrow> string" where
  "show_groups gs = join_with '':'' (map (\<lambda>g. show_hex (unat g)) gs)"

text \<open>
  \<open>zero_run\<close> finds the first longest run of zero segments: position, current run (start and
  length), longest run so far.
\<close>

fun zero_run :: "nat \<Rightarrow> nat \<times> nat \<Rightarrow> nat \<times> nat \<Rightarrow> 16 word list \<Rightarrow> nat \<times> nat" where
  "zero_run i cur best [] = best"
| "zero_run i (start, len) best (g # gs) =
     (if g = 0
      then (let cur = (if len = 0 then i else start, Suc len) in
            zero_run (Suc i) cur (if snd best < snd cur then cur else best) gs)
      else zero_run (Suc i) (0, 0) best gs)"

definition show_octets :: "8 word \<Rightarrow> 8 word \<Rightarrow> 8 word \<Rightarrow> 8 word \<Rightarrow> string" where
  "show_octets a b c d = show_nat (unat a) @ ''.'' @ show_nat (unat b) @ ''.''
     @ show_nat (unat c) @ ''.'' @ show_nat (unat d)"

definition hi_byte :: "16 word \<Rightarrow> 8 word" where "hi_byte w = of_int (uint w div 256)"
definition lo_byte :: "16 word \<Rightarrow> 8 word" where "lo_byte w = of_int (uint w mod 256)"

definition show_ip :: "IpAddr \<Rightarrow> string" where
  "show_ip a =
     (case a of
        V4 a b c d \<Rightarrow> show_octets a b c d
      | V6 gs \<Rightarrow>
          if length gs = 8 \<and> take 6 gs = [0, 0, 0, 0, 0, 0xFFFF]
          then ''::ffff:'' @ show_octets (hi_byte (gs ! 6)) (lo_byte (gs ! 6)) (hi_byte (gs ! 7)) (lo_byte (gs ! 7))
          else (case zero_run 0 (0, 0) (0, 0) gs of (start, len) \<Rightarrow>
                  if 1 < len then show_groups (take start gs) @ ''::'' @ show_groups (drop (start + len) gs)
                  else show_groups gs))"

definition show_socket_addr :: "SocketAddr \<Rightarrow> string" where
  "show_socket_addr a =
     (case addr_ip a of
        V4 _ _ _ _ \<Rightarrow> show_ip (addr_ip a) @ '':'' @ show_nat (unat (addr_port a))
      | V6 _ \<Rightarrow> ''['' @ show_ip (addr_ip a)
          @ (if addr_scope a = 0 then [] else ''%'' @ show_nat (unat (addr_scope a)))
          @ '']:'' @ show_nat (unat (addr_port a)))"

subsection \<open>An IPv4 socket address reads back as written\<close>

lemma to_digit_decimal: "is_ascii_digit c \<Longrightarrow> to_digit 10 c = Some (byte c - 48)"
  by (auto simp: to_digit_def is_ascii_digit_def)

lemma span_digits_decimal:
  "list_all is_ascii_digit s \<Longrightarrow> rest = [] \<or> to_digit 10 (hd rest) = None \<Longrightarrow>
     span_digits 10 (s @ rest) = (map (\<lambda>c. byte c - 48) s, rest)"
proof (induction s)
  case Nil
  then show ?case by (cases rest) simp_all
qed (simp add: to_digit_decimal)

lemma digits_value_decimal: "digits_value 10 (map (\<lambda>c. byte c - 48) s) = int (dec_value 0 s)"
proof -
  have "foldl (\<lambda>a d. a * 10 + int d) (int acc) (map (\<lambda>c. byte c - 48) s) = int (dec_value acc s)" for acc
  proof (induction s arbitrary: acc)
    case (Cons c s)
    have "int acc * 10 + int (byte c - 48) = int (acc * 10 + (byte c - 48))" by simp
    then show ?case by (simp only: foldl_Cons list.map Cons.IH dec_value.simps)
  qed simp
  from this [of 0] show ?thesis by (simp add: digits_value_def)
qed

lemma length_show_nat: "n < 10 ^ k \<Longrightarrow> 0 < k \<Longrightarrow> length (show_nat n) \<le> k"
proof (induction k arbitrary: n)
  case (Suc k)
  show ?case
  proof (cases "n < 10")
    case True
    then show ?thesis by (subst show_nat.simps) simp
  next
    case False
    with Suc.prems have "n div 10 < 10 ^ k" "0 < k" by (auto intro: gr0I)
    then have "length (show_nat (n div 10)) \<le> k" by (rule Suc.IH)
    with False show ?thesis by (subst show_nat.simps) simp
  qed
qed simp

lemma hd_show_nat: "0 < n \<Longrightarrow> byte (hd (show_nat n)) \<noteq> 48"
proof (induction n rule: show_nat.induct)
  case (1 n)
  show ?case
  proof (cases "n < 10")
    case True
    with 1 show ?thesis by (subst show_nat.simps) (simp add: byte_char_of)
  next
    case False
    with 1 show ?thesis by (subst show_nat.simps) (simp add: hd_append)
  qed
qed

lemma show_nat_0: "show_nat 0 = ''0''"
  by (subst show_nat.simps) (simp add: char_of_def bit_Suc bit_0)

lemma read_number_show_nat:
  assumes "int n < limit" and "rest = [] \<or> to_digit 10 (hd rest) = None"
    and "\<forall>k. max_digits = Some k \<longrightarrow> length (show_nat n) \<le> k"
  shows "read_number 10 max_digits limit allow_zero (show_nat n @ rest) = Some (int n, rest)"
proof -
  let ?ds = "map (\<lambda>c. byte c - 48) (show_nat n)"
  have "span_digits 10 (show_nat n @ rest) = (?ds, rest)"
    using assms(2) by (intro span_digits_decimal show_nat_digits)
  moreover have "digits_value 10 ?ds = int n" by (simp add: digits_value_decimal)
  moreover have "\<not> (hd ?ds = 0 \<and> 1 < length ?ds)"
  proof (cases "n = 0")
    case False
    have "is_ascii_digit (hd (show_nat n))"
      using show_nat_digits [of n] by (auto simp: list_all_iff intro: hd_in_set)
    with False hd_show_nat [of n] show ?thesis by (simp add: hd_map is_ascii_digit_def)
  qed (simp add: show_nat_0)
  ultimately show ?thesis using assms(1,3) by (auto simp: read_number_def split: option.split)
qed

lemma unat_u8_less [simp]: "unat (o1 :: 8 word) < 256"
  using unsigned_less [of o1, where ?'a = nat] by simp

lemma read_octet_show:
  assumes "rest = [] \<or> to_digit 10 (hd rest) = None"
  shows "read_octet i ((if 0 < i then ''.'' else []) @ show_nat (unat b) @ rest) = Some (b, rest)"
proof -
  have "unat b < 256" by simp
  then have "unat b < 10 ^ 3" by (simp only: power3_eq_cube)
  then have l: "length (show_nat (unat b)) \<le> 3" by (intro length_show_nat) simp_all
  have "read_number 10 (Some 3) 256 False (show_nat (unat b) @ rest) = Some (int (unat b), rest)"
  proof (rule read_number_show_nat)
    show "int (unat b) < 256" using unat_u8_less [of b] by linarith
  qed (use assms l in auto)
  then show ?thesis by (simp add: read_octet_def read_separator_def read_given_char_def)
qed

lemma to_digit_dot [simp]: "to_digit 10 (CHR ''.'') = None" "to_digit 10 (CHR '':'') = None"
  by (simp_all add: to_digit_def is_ascii_digit_def byte_def)

lemma read_ipv4_show:
  assumes "rest = [] \<or> to_digit 10 (hd rest) = None"
  shows "read_ipv4_addr (show_octets a b c d @ rest) = Some (V4 a b c d, rest)"
proof -
  note r = read_octet_show [where i = 0, simplified] read_octet_show [where i = 1, simplified]
    read_octet_show [where i = 2, simplified] read_octet_show [where i = 3, simplified]
  show ?thesis using assms by (simp add: read_ipv4_addr_def show_octets_def r)
qed

lemma read_port_show:
  "rest = [] \<or> to_digit 10 (hd rest) = None \<Longrightarrow>
     read_port (CHR '':'' # show_nat (unat p) @ rest) = Some (p, rest)"
proof -
  assume "rest = [] \<or> to_digit 10 (hd rest) = None"
  moreover have "int (unat p) < 65536" using unat_u16_less [of p] by linarith
  ultimately have "read_number 10 None 65536 True (show_nat (unat p) @ rest) = Some (int (unat p), rest)"
    by (intro read_number_show_nat) simp_all
  then show ?thesis by (simp add: read_port_def read_given_char_def)
qed

lemma parse_show_socket_v4:
  "parse_socket_addr (show_socket_addr (SocketAddr_new (V4 a b c d) p)) = Some (SocketAddr_new (V4 a b c d) p)"
proof -
  have "read_socket_addr_v4 (show_octets a b c d @ CHR '':'' # show_nat (unat p)) =
      Some (SocketAddr_new (V4 a b c d) p, [])"
    using read_ipv4_show [of "CHR '':'' # show_nat (unat p)"] read_port_show [of "[]" p]
    by (simp add: read_socket_addr_v4_def)
  then show ?thesis by (simp add: parse_socket_addr_def show_socket_addr_def SocketAddr_new_def show_ip_def)
qed

end
