(* ===== verification/Segment_Glob.thy ===== *)
theory Segment_Glob
  imports Rust_Str
begin

text \<open>
  \<open>SegmentGlob\<close> of \<open>src/common/identity.rs\<close>: a wildcard pattern for one SPIFFE path
  segment, compiled once into one of seven shapes. \<open>SegmentGlob_new\<close> is the compiler,
  \<open>SegmentGlob_matches\<close> the matcher; a slice of the pattern or of the value that would
  panic in Rust is \<open>None\<close> here. \<open>glob_match\<close> is the reference meaning of a pattern, and
  the theory shows that compiling and matching agree with it and never panic.
\<close>

datatype SegmentGlobKind =
    Any
  | Exact
  | Prefix nat
  | Suffix nat
  | Contains nat nat
  | PrefixSuffix nat nat
  | Multi "(nat \<times> nat) list" bool bool

record SegmentGlob =
  pattern :: string
  kind :: SegmentGlobKind

abbreviation star :: char where
  "star \<equiv> CHR ''*''"

fun collect_parts ::
  "nat list \<Rightarrow> nat \<Rightarrow> (nat \<times> nat) list \<Rightarrow> nat \<times> (nat \<times> nat) list" where
  "collect_parts [] start parts = (start, parts)"
| "collect_parts (index # rest) start parts =
     collect_parts rest (index + 1) (if start \<noteq> index then parts @ [(start, index)] else parts)"

fun close_parts :: "nat \<Rightarrow> nat \<times> (nat \<times> nat) list \<Rightarrow> (nat \<times> nat) list" where
  "close_parts len (start, parts) = (if start \<noteq> len then parts @ [(start, len)] else parts)"

definition glob_parts :: "string \<Rightarrow> (nat \<times> nat) list" where
  "glob_parts p = close_parts (length p) (collect_parts (match_indices 0 star p) 0 [])"

definition SegmentGlob_new :: "string \<Rightarrow> SegmentGlob" where
  "SegmentGlob_new p =
     (let wildcard_count = length (filter (\<lambda>b. b = star) p) in
      if wildcard_count = 0 then \<lparr>pattern = p, kind = Exact\<rparr>
      else
        let parts = glob_parts p;
            anchored_start = (\<not> starts_with p [star]);
            anchored_end = (\<not> ends_with p [star])
        in \<lparr>pattern = p,
            kind =
              (case parts of
                 [] \<Rightarrow> Any
               | [(start, end)] \<Rightarrow>
                   if anchored_start then Prefix end
                   else if anchored_end then Suffix start
                   else Contains start end
               | [(_, prefix_end), (suffix_start, _)] \<Rightarrow>
                   if anchored_start \<and> anchored_end then PrefixSuffix prefix_end suffix_start
                   else Multi parts anchored_start anchored_end
               | _ \<Rightarrow> Multi parts anchored_start anchored_end)\<rparr>)"

fun multi_search ::
  "string \<Rightarrow> string \<Rightarrow> nat \<Rightarrow> nat \<Rightarrow> (nat \<times> nat) list \<Rightarrow> bool panicky" where
  "multi_search pat value search_start search_end [] = Some True"
| "multi_search pat value search_start search_end ((start, end) # rest) =
     do {
       literal \<leftarrow> str_slice pat start end;
       window \<leftarrow> str_slice value search_start search_end;
       (case find_str window literal of
          None \<Rightarrow> Some False
        | Some offset \<Rightarrow>
            multi_search pat value (search_start + offset + length literal) search_end rest)
     }"

text \<open>
  \<open>parts[0]\<close> and \<open>parts[last - 1]\<close> panic when out of range, as does \<open>last - 1\<close> at zero
  (subtraction overflow in a debug build, an out-of-range index otherwise); \<open>parts[first..last]\<close>
  panics when \<open>last < first\<close>. An early \<open>return false\<close> is \<open>Some (Inl False)\<close>.
\<close>

definition matches_multi ::
  "SegmentGlob \<Rightarrow> string \<Rightarrow> (nat \<times> nat) list \<Rightarrow> bool \<Rightarrow> bool \<Rightarrow> bool panicky" where
  "matches_multi self value parts anchored_start anchored_end =
     do {
       head \<leftarrow>
         (if anchored_start
          then (case parts of [] \<Rightarrow> None
                | (start, end) # _ \<Rightarrow>
                    do {
                      prefix \<leftarrow> str_slice (pattern self) start end;
                      Some (if starts_with value prefix then Inr (length prefix, 1) else Inl False)
                    })
          else Some (Inr (0, 0)));
       (case head of Inl r \<Rightarrow> Some r
        | Inr (search_start, first) \<Rightarrow>
            do {
              tail \<leftarrow>
                (if anchored_end
                 then (if parts = [] then None
                       else (case last parts of (start, end) \<Rightarrow>
                         do {
                           suffix \<leftarrow> str_slice (pattern self) start end;
                           Some (if ends_with value suffix
                                 then Inr (length value - length suffix, length parts - 1)
                                 else Inl False)
                         }))
                 else Some (Inr (length value, length parts)));
              (case tail of Inl r \<Rightarrow> Some r
               | Inr (search_end, last_ix) \<Rightarrow>
                   if search_end < search_start then Some False
                   else if last_ix < first then None
                   else multi_search (pattern self) value search_start search_end
                          (take (last_ix - first) (drop first parts)))
            })
     }"

definition SegmentGlob_matches :: "SegmentGlob \<Rightarrow> string \<Rightarrow> bool panicky" where
  "SegmentGlob_matches self value =
     (case kind self of
        Any \<Rightarrow> Some True
      | Exact \<Rightarrow> Some (value = pattern self)
      | Prefix end \<Rightarrow>
          do { p \<leftarrow> str_slice (pattern self) 0 end; Some (starts_with value p) }
      | Suffix start \<Rightarrow>
          do { s \<leftarrow> str_slice (pattern self) start (length (pattern self)); Some (ends_with value s) }
      | Contains start end \<Rightarrow>
          do { l \<leftarrow> str_slice (pattern self) start end; Some (contains_str value l) }
      | PrefixSuffix prefix_end suffix_start \<Rightarrow>
          do {
            prefix \<leftarrow> str_slice (pattern self) 0 prefix_end;
            suffix \<leftarrow> str_slice (pattern self) suffix_start (length (pattern self));
            Some (length prefix + length suffix \<le> length value
                  \<and> starts_with value prefix \<and> ends_with value suffix)
          }
      | Multi parts anchored_start anchored_end \<Rightarrow>
          matches_multi self value parts anchored_start anchored_end)"

text \<open>The reference meaning: \<open>*\<close> stands for any byte sequence, every other byte for itself.\<close>

fun glob_match :: "string \<Rightarrow> string \<Rightarrow> bool" where
  "glob_match [] v = (v = [])"
| "glob_match (c # p) [] = (c = star \<and> glob_match p [])"
| "glob_match (c # p) (d # v) =
     (if c = star then glob_match p (d # v) \<or> glob_match (c # p) v
      else c = d \<and> glob_match p v)"

subsection \<open>The pattern as literals between stars\<close>

abbreviation lits :: "string \<Rightarrow> string list" where
  "lits \<equiv> split_on (\<lambda>b. b = star)"

fun join_lits :: "string list \<Rightarrow> string" where
  "join_lits [] = []"
| "join_lits [l] = l"
| "join_lits (l # m # ls) = l @ star # join_lits (m # ls)"

fun lit_parts :: "nat \<Rightarrow> string list \<Rightarrow> (nat \<times> nat) list" where
  "lit_parts off [] = []"
| "lit_parts off (l # ls) =
     (if l \<noteq> [] then [(off, off + length l)] else []) @ lit_parts (off + length l + 1) ls"

fun in_order :: "string list \<Rightarrow> string \<Rightarrow> bool" where
  "in_order [] u = True"
| "in_order (l # ls) u = (\<exists>x y. u = x @ l @ y \<and> in_order ls y)"

definition framed :: "string \<Rightarrow> string list \<Rightarrow> string \<Rightarrow> string \<Rightarrow> bool" where
  "framed l0 ms ln v = (\<exists>u. v = l0 @ u @ ln \<and> in_order ms u)"

lemma lits_nonempty [simp]: "lits p \<noteq> []"
  by (induction p) (auto split: list.splits)

lemma lits_cases: obtains l ls where "lits p = l # ls"
  using lits_nonempty by (cases "lits p") auto

lemma lits_no_star: "l \<in> set (lits p) \<Longrightarrow> star \<notin> set l"
  by (induction p arbitrary: l) (auto split: list.splits if_splits)

lemma join_lits_Cons: "ls \<noteq> [] \<Longrightarrow> join_lits (l # ls) = l @ star # join_lits ls"
  by (cases ls) auto

lemma join_lits_char: "join_lits ((c # f) # fs) = c # join_lits (f # fs)"
  by (cases fs) auto

lemma join_lits_lits [simp]: "join_lits (lits p) = p"
proof (induction p)
  case Nil
  then show ?case by simp
next
  case (Cons c p)
  obtain f fs where "lits p = f # fs" by (rule lits_cases)
  with Cons show ?case by (auto simp: join_lits_Cons join_lits_char simp del: join_lits.simps(3))
qed

lemma lits_single_iff: "length (lits p) = 1 \<longleftrightarrow> star \<notin> set p"
proof (induction p)
  case Nil
  then show ?case by simp
next
  case (Cons c p)
  obtain f fs where "lits p = f # fs" by (rule lits_cases)
  with Cons show ?case by auto
qed

lemma lits_single: "star \<notin> set p \<Longrightarrow> lits p = [p]"
  by (induction p) auto

lemma lits_ends:
  assumes "star \<in> set p"
  obtains l0 ms ln where "lits p = l0 # ms @ [ln]"
proof -
  obtain f fs where f: "lits p = f # fs" by (rule lits_cases)
  with assms lits_single_iff [of p] have "fs \<noteq> []" by auto
  with f that show ?thesis by (metis append_butlast_last_id)
qed

lemma join_lits_snoc: "ls \<noteq> [] \<Longrightarrow> join_lits (ls @ [l]) = join_lits ls @ star # l"
  by (induction ls rule: join_lits.induct) auto

lemma starts_with_star_iff:
  assumes "lits p = l0 # ls" and "ls \<noteq> []"
  shows "starts_with p [star] \<longleftrightarrow> l0 = []"
proof -
  have p: "p = l0 @ star # join_lits ls"
    using assms join_lits_Cons join_lits_lits by metis
  from assms(1) have "star \<notin> set l0" using lits_no_star [of l0 p] by simp
  with p show ?thesis by (cases l0) (auto simp: starts_with_def)
qed

lemma ends_with_star_iff:
  assumes "lits p = ls @ [ln]" and "ls \<noteq> []"
  shows "ends_with p [star] \<longleftrightarrow> ln = []"
proof -
  have p: "p = join_lits ls @ star # ln"
    using assms join_lits_snoc join_lits_lits by metis
  from assms(1) have "star \<notin> set ln" using lits_no_star [of ln p] by simp
  with p show ?thesis
    by (cases ln rule: rev_cases) (auto simp: ends_with_iff)
qed

subsection \<open>The reference meaning in terms of the literals\<close>

lemma in_order_extend: "in_order ls y \<Longrightarrow> in_order ls (x @ y)"
  by (cases ls) (auto, metis append_assoc)

lemma in_order_filter: "in_order (filter (\<lambda>l. l \<noteq> []) ls) u = in_order ls u"
proof (induction ls arbitrary: u)
  case Nil
  then show ?case by simp
next
  case (Cons l ls)
  have "in_order ls u \<longleftrightarrow> (\<exists>x y. u = x @ y \<and> in_order ls y)"
    using in_order_extend by (metis append_Nil)
  with Cons show ?case by auto
qed

lemma glob_match_star: "glob_match (star # p) v \<longleftrightarrow> (\<exists>x y. v = x @ y \<and> glob_match p y)"
proof (induction v)
  case Nil
  then show ?case by auto
next
  case (Cons d v)
  have "(\<exists>x y. d # v = x @ y \<and> glob_match p y) \<longleftrightarrow>
        glob_match p (d # v) \<or> (\<exists>x y. v = x @ y \<and> glob_match p y)" (is "?L \<longleftrightarrow> ?R")
  proof
    assume ?L
    then obtain x y where "d # v = x @ y" "glob_match p y" by blast
    then show ?R by (cases x) auto
  next
    assume ?R
    then show ?L by (metis append_Cons append_Nil)
  qed
  with Cons show ?case by simp
qed

fun star_seq :: "string list \<Rightarrow> string \<Rightarrow> bool" where
  "star_seq [] v = (v = [])"
| "star_seq [l] v = (\<exists>x. v = x @ l)"
| "star_seq (l # m # ls) v = (\<exists>x y. v = x @ l @ y \<and> star_seq (m # ls) y)"

lemma star_seq_snoc: "star_seq (ms @ [ln]) v \<longleftrightarrow> (\<exists>u. v = u @ ln \<and> in_order ms u)"
proof (induction ms arbitrary: v)
  case Nil
  then show ?case by simp
next
  case (Cons m ms)
  obtain m' ms' where ne: "ms @ [ln] = m' # ms'" by (cases ms) auto
  have "star_seq ((m # ms) @ [ln]) v \<longleftrightarrow> (\<exists>x y. v = x @ m @ y \<and> star_seq (ms @ [ln]) y)"
    by (simp add: ne)
  also have "\<dots> \<longleftrightarrow> (\<exists>x u. v = (x @ m @ u) @ ln \<and> in_order ms u)"
    using Cons.IH by auto
  also have "\<dots> \<longleftrightarrow> (\<exists>u. v = u @ ln \<and> in_order (m # ms) u)"
    by (simp only: in_order.simps) (metis append_assoc)
  finally show ?case .
qed

lemma glob_match_lits:
  "glob_match p v \<longleftrightarrow>
     (case lits p of [] \<Rightarrow> False | [l] \<Rightarrow> v = l | l # ls \<Rightarrow> \<exists>y. v = l @ y \<and> star_seq ls y)"
proof (induction p arbitrary: v)
  case Nil
  then show ?case by simp
next
  case (Cons c p)
  obtain f fs where f: "lits p = f # fs" by (rule lits_cases)
  show ?case
  proof (cases "c = star")
    case True
    have "glob_match (c # p) v \<longleftrightarrow> (\<exists>x y. v = x @ y \<and> glob_match p y)"
      using True glob_match_star by simp
    also have "\<dots> \<longleftrightarrow> star_seq (f # fs) v"
      using Cons.IH f by (cases fs) auto
    finally show ?thesis using True f by simp
  next
    case False
    then show ?thesis
      using Cons.IH f by (cases v) (auto split: list.splits)
  qed
qed

lemma glob_match_framed:
  assumes "lits p = l0 # ms @ [ln]"
  shows "glob_match p v = framed l0 (filter (\<lambda>l. l \<noteq> []) ms) ln v"
proof -
  have "glob_match p v \<longleftrightarrow> (\<exists>y. v = l0 @ y \<and> star_seq (ms @ [ln]) y)"
    using assms by (cases "ms @ [ln]") (auto simp: glob_match_lits)
  then show ?thesis
    by (auto simp: star_seq_snoc framed_def in_order_filter)
qed

subsection \<open>The compiled parts\<close>

lemma collect_parts_lits:
  assumes "start \<le> i" and "lits suf = f # fs"
  shows "close_parts (i + length suf) (collect_parts (match_indices i star suf) start parts) =
         parts @ (if i - start + length f \<noteq> 0 then [(start, i + length f)] else [])
               @ lit_parts (i + length f + 1) fs"
  using assms
proof (induction suf arbitrary: i start parts f fs)
  case Nil
  then show ?case by auto
next
  case (Cons c suf)
  obtain g gs where g: "lits suf = g # gs" by (rule lits_cases)
  show ?case
  proof (cases "c = star")
    case True
    with Cons.prems g have "f = []" "fs = g # gs" by auto
    with Cons.IH [OF _ g, of "Suc i" "Suc i"] Cons.prems(1) True show ?thesis
      by (cases "g = []") auto
  next
    case False
    with Cons.prems g have "f = c # g" "fs = gs" by auto
    with Cons.IH [OF _ g, of start "Suc i"] Cons.prems(1) False show ?thesis
      by (cases "g = []") auto
  qed
qed

lemma glob_parts_lits: "glob_parts p = lit_parts 0 (lits p)"
proof -
  obtain f fs where f: "lits p = f # fs" by (rule lits_cases)
  show ?thesis
    using collect_parts_lits [of 0 0 p f fs "[]"] f
    by (cases "f = []") (simp_all add: glob_parts_def)
qed

text \<open>A part and the literal it stands for: the slice exists and is a non-empty string.\<close>

definition part_lit :: "string \<Rightarrow> nat \<times> nat \<Rightarrow> string \<Rightarrow> bool" where
  "part_lit p ab l = (str_slice p (fst ab) (snd ab) = Some l \<and> l \<noteq> [] \<and> valid_utf8 l)"

lemma star_not_cont [simp]: "\<not> is_cont star"
  by (simp add: is_cont_def byte_def)

lemma valid_utf8_star: "valid_utf8 (a @ star # b) \<longleftrightarrow> valid_utf8 a \<and> valid_utf8 b"
  by (rule valid_utf8_ascii_mid) (simp add: byte_def)

lemma valid_join_lits: "valid_utf8 (join_lits ls) = (\<forall>l \<in> set ls. valid_utf8 l)"
  by (induction ls rule: join_lits.induct) (auto simp: valid_utf8_star)

lemma valid_lits: "valid_utf8 p \<Longrightarrow> l \<in> set (lits p) \<Longrightarrow> valid_utf8 l"
  using valid_join_lits [of "lits p"] by simp

lemma str_slice_mid:
  assumes "l \<noteq> []" and "valid_utf8 l" and "post = [] \<or> \<not> is_cont (hd post)"
  shows "str_slice (pre @ l @ post) (length pre) (length pre + length l) = Some l"
proof -
  have "is_char_boundary (pre @ l @ post) (length pre + length l)"
    using assms(3) by (cases post) (auto simp: is_char_boundary_def nth_append)
  with assms show ?thesis by (simp add: str_slice_def)
qed

lemma lit_parts_part_lit:
  assumes "ls \<noteq> []" and "\<forall>l \<in> set ls. valid_utf8 l"
  shows "list_all2 (part_lit (pre @ join_lits ls)) (lit_parts (length pre) ls)
           (filter (\<lambda>l. l \<noteq> []) ls)"
  using assms
proof (induction ls arbitrary: pre)
  case Nil
  then show ?case by simp
next
  case (Cons l ls)
  have head: "l \<noteq> [] \<Longrightarrow> part_lit (pre @ join_lits (l # ls)) (length pre, length pre + length l) l"
  proof -
    assume l: "l \<noteq> []"
    obtain post where post: "join_lits (l # ls) = l @ post" "post = [] \<or> \<not> is_cont (hd post)"
      by (cases ls) auto
    with Cons.prems l str_slice_mid [of l post pre] show ?thesis by (simp add: part_lit_def)
  qed
  show ?case
  proof (cases "ls = []")
    case True
    with head show ?thesis by simp
  next
    case False
    then have "list_all2 (part_lit ((pre @ l @ [star]) @ join_lits ls))
        (lit_parts (length (pre @ l @ [star])) ls) (filter (\<lambda>l. l \<noteq> []) ls)"
      using Cons.IH [of "pre @ l @ [star]"] Cons.prems(2) by simp
    with head False show ?thesis by (cases "l = []") (simp_all add: join_lits_Cons)
  qed
qed

lemma glob_parts_part_lit:
  "valid_utf8 p \<Longrightarrow>
     list_all2 (part_lit p) (glob_parts p) (filter (\<lambda>l. l \<noteq> []) (lits p))"
  using lit_parts_part_lit [of "lits p" "[]"] valid_lits [of p]
  by (simp add: glob_parts_lits)

lemma lit_parts_append:
  "lit_parts off (ls @ ms) = lit_parts off ls @ lit_parts (off + length (concat ls) + length ls) ms"
  by (induction ls arbitrary: off) (auto simp: algebra_simps)

lemma length_join_lits: "ls \<noteq> [] \<Longrightarrow> length (join_lits ls) = length (concat ls) + length ls - 1"
  by (induction ls rule: join_lits.induct) auto

lemma glob_parts_shape:
  assumes "lits p = l0 # ms @ [ln]"
  shows "glob_parts p =
     (if l0 \<noteq> [] then [(0, length l0)] else []) @ lit_parts (length l0 + 1) ms
     @ (if ln \<noteq> [] then [(length p - length ln, length p)] else [])"
proof -
  have "length p = length (concat (lits p)) + length (lits p) - 1"
    using length_join_lits [of "lits p"] by simp
  with assms have "length p = length l0 + length (concat ms) + length ln + length ms + 1" by simp
  with assms show ?thesis by (simp add: glob_parts_lits lit_parts_append algebra_simps)
qed

subsection \<open>The matcher\<close>

lemma multi_search_in_order:
  assumes "list_all2 (part_lit p) parts ts" and "valid_utf8 v"
    and "is_char_boundary v a" and "is_char_boundary v b" and "a \<le> b"
  shows "multi_search p v a b parts = Some (in_order ts (take (b - a) (drop a v)))"
  using assms
proof (induction parts ts arbitrary: a rule: list_all2_induct)
  case Nil
  then show ?case by simp
next
  case (Cons ab parts t ts)
  obtain s e where ab: "ab = (s, e)" by (cases ab)
  let ?w = "take (b - a) (drop a v)"
  from Cons.hyps(1) ab have t: "str_slice p s e = Some t" "t \<noteq> []" "valid_utf8 t"
    by (simp_all add: part_lit_def)
  from Cons.prems have w: "str_slice v a b = Some ?w" by (simp add: str_slice_def)
  have ble: "b \<le> length v" using Cons.prems boundary_le by blast
  show ?case
  proof (cases "find_str ?w t")
    case None
    then have "\<not> in_order (t # ts) ?w" using find_str_None_iff by auto
    with None t w ab show ?thesis by simp
  next
    case (Some i)
    then have split: "?w = take i ?w @ t @ drop (i + length t) ?w"
      and len: "i + length t \<le> length ?w"
      using find_str_Some by blast+
    let ?a = "a + i + length t"
    have a_le: "?a \<le> b" using len ble Cons.prems(4) by auto
    have rest: "drop (i + length t) ?w = take (b - ?a) (drop ?a v)"
      using a_le by (simp add: drop_take add.commute add.left_commute)
    have v_split: "v = (take a v @ take i ?w) @ t @ drop ?a v"
    proof -
      have "drop a v = ?w @ drop b v"
        using Cons.prems(4) by (metis append_take_drop_id drop_drop le_add_diff_inverse2)
      also have "\<dots> = take i ?w @ t @ drop (i + length t) ?w @ drop b v"
        using split by simp
      finally have "drop a v = take i ?w @ t @ drop (i + length t) ?w @ drop b v" .
      moreover have "drop (i + length t) ?w @ drop b v = drop ?a v"
        using rest a_le by (metis append_take_drop_id drop_drop le_add_diff_inverse2)
      ultimately show ?thesis by (metis append_assoc append_take_drop_id)
    qed
    have l1: "length (take a v @ take i ?w) = a + i"
      using len ble Cons.prems(4) by auto
    have bnd: "is_char_boundary v (a + i)"
      using v_split l1 t boundary_append_left by metis
    then have "valid_utf8 (drop (a + i) v)"
      using Cons.prems(1) by (rule valid_utf8_dropD [rotated])
    moreover have "drop (a + i) v = t @ drop ?a v"
      using v_split l1 by (metis append_eq_conv_conj)
    ultimately have vd: "valid_utf8 (drop ?a v)"
      using t(3) valid_utf8_append_cancel by metis
    have "length (take ?a v) = ?a" using a_le ble by simp
    with vd have "is_char_boundary v ?a"
      using boundary_append_valid [of "drop ?a v" "take ?a v"] by simp
    with Cons.IH [OF Cons.prems(1) _ Cons.prems(3) a_le]
    have "multi_search p v ?a b parts = Some (in_order ts (drop (i + length t) ?w))"
      using rest by simp
    moreover have "in_order (t # ts) ?w = in_order ts (drop (i + length t) ?w)"
      using find_str_greedy [of "in_order ts" ?w t] in_order_extend Some by simp
    ultimately show ?thesis using Some t w ab by (simp add: add.assoc)
  qed
qed

lemma framed_iff:
  "framed l0 ms ln v \<longleftrightarrow>
     starts_with v l0 \<and> ends_with v ln \<and> length l0 \<le> length v - length ln
     \<and> length ln \<le> length v
     \<and> in_order ms (take (length v - length ln - length l0) (drop (length l0) v))" (is "?L \<longleftrightarrow> ?R")
proof
  assume ?L
  then show ?R by (auto simp: framed_def ends_with_iff)
next
  assume R: ?R
  let ?u = "take (length v - length ln - length l0) (drop (length l0) v)"
  from R have "v = l0 @ drop (length l0) v"
    by (metis starts_with_def append_take_drop_id)
  moreover have "drop (length l0) v = ?u @ ln"
  proof -
    have "drop (length l0) v = ?u @ drop (length v - length ln - length l0) (drop (length l0) v)"
      by (rule append_take_drop_id [symmetric])
    also have "drop (length v - length ln - length l0) (drop (length l0) v) = ln"
    proof -
      have "length v - length ln - length l0 + length l0 = length v - length ln"
        using R by linarith
      then show ?thesis using R unfolding ends_with_def drop_drop by (simp only:)
    qed
    finally show ?thesis .
  qed
  ultimately show ?L using R unfolding framed_def by metis
qed

lemma length_lit_parts: "length (lit_parts off ls) = length (filter (\<lambda>l. l \<noteq> []) ls)"
  by (induction off ls rule: lit_parts.induct) auto

lemma glob_slices:
  assumes p: "valid_utf8 p" and ls: "lits p = l0 # ms @ [ln]"
  shows glob_slice_head: "l0 \<noteq> [] \<Longrightarrow> str_slice p 0 (length l0) = Some l0"
    and glob_slice_last: "ln \<noteq> [] \<Longrightarrow> str_slice p (length p - length ln) (length p) = Some ln"
    and glob_slice_mid:
      "list_all2 (part_lit p) (lit_parts (length l0 + 1) ms) (filter (\<lambda>l. l \<noteq> []) ms)"
proof -
  have all: "list_all2 (part_lit p)
      ((if l0 \<noteq> [] then [(0, length l0)] else []) @ lit_parts (length l0 + 1) ms
        @ (if ln \<noteq> [] then [(length p - length ln, length p)] else []))
      ((if l0 \<noteq> [] then [l0] else []) @ filter (\<lambda>l. l \<noteq> []) ms @ (if ln \<noteq> [] then [ln] else []))"
    using glob_parts_part_lit [OF p] ls glob_parts_shape [OF ls]
    by (cases "l0 = []"; cases "ln = []") simp_all
  show "l0 \<noteq> [] \<Longrightarrow> str_slice p 0 (length l0) = Some l0"
    using all by (auto simp: part_lit_def)
  from all show
    "list_all2 (part_lit p) (lit_parts (length l0 + 1) ms) (filter (\<lambda>l. l \<noteq> []) ms)"
    and "ln \<noteq> [] \<Longrightarrow> str_slice p (length p - length ln) (length p) = Some ln"
    by (auto simp: list_all2_append length_lit_parts part_lit_def split: if_splits)
qed

lemma framed_search:
  assumes "valid_utf8 p" and v: "valid_utf8 v" and "lits p = l0 # ms @ [ln]"
    and st: "starts_with v l0" and en: "ends_with v ln" and le: "length l0 \<le> length v - length ln"
  shows "multi_search p v (length l0) (length v - length ln) (lit_parts (length l0 + 1) ms) =
    Some (in_order (filter (\<lambda>l. l \<noteq> []) ms)
            (take (length v - length ln - length l0) (drop (length l0) v)))"
proof (rule multi_search_in_order [OF glob_slice_mid [OF assms(1,3)] v _ _ le])
  have v0: "valid_utf8 l0" "valid_utf8 ln" using valid_lits [OF assms(1)] assms(3) by auto
  from st obtain r where r: "v = l0 @ r" by (auto simp: starts_with_iff)
  with v v0 have "valid_utf8 r" using valid_utf8_append_cancel by blast
  with r show "is_char_boundary v (length l0)" by simp
  from en obtain q where "v = q @ ln" by (auto simp: ends_with_iff)
  with v0 show "is_char_boundary v (length v - length ln)" by simp
qed

lemma matches_multi_framed:
  assumes p: "valid_utf8 p" and v: "valid_utf8 v" and ls: "lits p = l0 # ms @ [ln]"
  shows "matches_multi \<lparr>pattern = p, kind = k\<rparr> v (glob_parts p) (l0 \<noteq> []) (ln \<noteq> []) =
         Some (framed l0 (filter (\<lambda>l. l \<noteq> []) ms) ln v)"
  unfolding framed_iff glob_parts_shape [OF ls] matches_multi_def
  using framed_search [OF p v ls] glob_slice_head [OF p ls] glob_slice_last [OF p ls]
  by (cases "l0 = []"; cases "ln = []") (auto simp: starts_with_def ends_with_def not_less)

lemma framed_no_mid:
  "framed l0 [] ln v \<longleftrightarrow>
     length l0 + length ln \<le> length v \<and> starts_with v l0 \<and> ends_with v ln"
  by (auto simp: framed_iff)

lemma framed_only_mid: "framed [] [m] [] v \<longleftrightarrow> contains_str v m"
  by (auto simp: framed_def contains_str_iff)

lemma SegmentGlob_new_kind:
  assumes ls: "lits p = l0 # ms @ [ln]"
  shows "SegmentGlob_new p = \<lparr>pattern = p, kind =
    (case lit_parts (length l0 + 1) ms of
       [] \<Rightarrow> (if l0 = [] \<and> ln = [] then Any
              else if ln = [] then Prefix (length l0)
              else if l0 = [] then Suffix (length p - length ln)
              else PrefixSuffix (length l0) (length p - length ln))
     | [(a, b)] \<Rightarrow> (if l0 = [] \<and> ln = [] then Contains a b
                   else Multi (glob_parts p) (l0 \<noteq> []) (ln \<noteq> []))
     | _ \<Rightarrow> Multi (glob_parts p) (l0 \<noteq> []) (ln \<noteq> []))\<rparr>"
proof -
  have "star \<in> set p" using ls lits_single_iff [of p] by auto
  then have wc: "filter (\<lambda>b. b = star) p \<noteq> []" by (auto simp: filter_empty_conv)
  have as: "starts_with p [star] \<longleftrightarrow> l0 = []" using starts_with_star_iff [OF ls] by simp
  have ae: "ends_with p [star] \<longleftrightarrow> ln = []"
    using ends_with_star_iff [of p "l0 # ms" ln] ls by simp
  show ?thesis
    unfolding SegmentGlob_new_def Let_def as ae
    using wc glob_parts_shape [OF ls]
    by (cases "l0 = []"; cases "ln = []") (auto split: list.splits)
qed

text \<open>
  Every string without a star is its own only match; every other pattern is matched by the
  shape it was compiled to. No slice of the pattern or of the value panics.
\<close>

lemma SegmentGlob_matches_correct:
  assumes p: "valid_utf8 p" and v: "valid_utf8 v"
  shows "SegmentGlob_matches (SegmentGlob_new p) v = Some (glob_match p v)"
proof (cases "star \<in> set p")
  case False
  then have "filter (\<lambda>b. b = star) p = []" by (auto simp: filter_empty_conv)
  moreover have "glob_match p v \<longleftrightarrow> v = p" using lits_single [OF False] by (simp add: glob_match_lits)
  ultimately show ?thesis by (simp add: SegmentGlob_new_def SegmentGlob_matches_def)
next
  case True
  then obtain l0 ms ln where ls: "lits p = l0 # ms @ [ln]" by (rule lits_ends)
  let ?M = "lit_parts (length l0 + 1) ms" and ?ts = "filter (\<lambda>l. l \<noteq> []) ms"
  note gm = glob_match_framed [OF ls, of v] and new = SegmentGlob_new_kind [OF ls]
    and mid = glob_slice_mid [OF p ls] and multi = matches_multi_framed [OF p v ls]
    and slices = glob_slice_head [OF p ls] glob_slice_last [OF p ls]
  consider "?M = []" | a b where "?M = [(a, b)]" | x y zs where "?M = x # y # zs"
    by (metis list.exhaust surj_pair)
  then show ?thesis
  proof cases
    case 1
    with mid have "?ts = []" by simp
    with 1 slices show ?thesis
      by (cases "l0 = []"; cases "ln = []")
         (auto simp: SegmentGlob_matches_def new gm framed_no_mid starts_with_iff ends_with_iff)
  next
    case 2
    with mid obtain m where m: "?ts = [m]" "part_lit p (a, b) m"
      by (auto simp: list_all2_Cons1)
    with 2 multi show ?thesis
      by (cases "l0 = [] \<and> ln = []")
         (auto simp: SegmentGlob_matches_def new gm framed_only_mid part_lit_def)
  next
    case 3
    with multi show ?thesis
      by (cases x; cases y) (simp add: SegmentGlob_matches_def new gm)
  qed
qed

subsection \<open>Properties\<close>

text \<open>
  C7. The compiled glob of \<open>SegmentGlob::new\<close>, with its prefix, suffix and greedy multi-part
  search, agrees on every pair of strings with the textbook meaning of a pattern in which a star
  stands for any text, and no slice it takes can panic.
\<close>

theorem segment_glob_equivalence:
  assumes "valid_utf8 p" and "valid_utf8 v"
  shows "SegmentGlob_matches (SegmentGlob_new p) v = Some (glob_match p v)"
  using assms by (rule SegmentGlob_matches_correct)

theorem segment_glob_equivalence_witness:
  "SegmentGlob_matches (SegmentGlob_new ''pay*v*-x'') ''payments-v2-x'' = Some True
   \<and> SegmentGlob_matches (SegmentGlob_new ''pay*v*-x'') ''payments-x'' = Some False"
proof -
  have v: "valid_utf8 ''pay*v*-x''" "valid_utf8 ''payments-v2-x''" "valid_utf8 ''payments-x''"
    by (simp_all add: valid_utf8_all_ascii byte_def)
  have g: "glob_match ''pay*v*-x'' ''payments-v2-x'' = True" "glob_match ''pay*v*-x'' ''payments-x'' = False"
    by simp_all
  show ?thesis
    using segment_glob_equivalence [OF v(1,2)] segment_glob_equivalence [OF v(1,3)] unfolding g by blast
qed

end
