(* ===== verification/Common_Error.thy ===== *)
theory Common_Error
  imports Rust_Str
begin

text \<open>
  \<open>src/common/error.rs\<close> and \<open>src/common/constants.rs\<close>: the error type every component
  returns, its rendering, and the crate's constants. \<open>rustls::Error\<close> belongs to a
  third-party crate: beside its \<open>General\<close> constructor, which the program builds itself, its
  variants are told apart by a tag only. Durations are in seconds.
\<close>

datatype TlsError = General string | RustlsOther string

datatype io_kind = InvalidData | BrokenPipe | IoOther | OsKind nat

record IoError =
  io_kind :: io_kind
  io_text :: string

datatype InterlinkError =
    Tls TlsError
  | Io IoError
  | Protocol string
  | Identity string
  | PolicyViolation string
  | DnsResolution string
  | ConfigError string

text \<open>
  The \<open>Display\<close> rendering generated from the \<open>#[error(...)]\<close> attributes; \<open>show_tls\<close> is the
  rendering of \<open>rustls::Error\<close>.
\<close>

fun display_error :: "(TlsError \<Rightarrow> string) \<Rightarrow> InterlinkError \<Rightarrow> string" where
  "display_error show_tls (Tls e) = ''TLS error: '' @ show_tls e"
| "display_error show_tls (Io e) = ''I/O error: '' @ io_text e"
| "display_error show_tls (Protocol m) = ''Protocol error: '' @ m"
| "display_error show_tls (Identity m) = ''Identity error: '' @ m"
| "display_error show_tls (PolicyViolation m) = ''Policy violation: '' @ m"
| "display_error show_tls (DnsResolution m) = ''DNS resolution failed: '' @ m"
| "display_error show_tls (ConfigError m) = ''Configuration error: '' @ m"

subsection \<open>Constants\<close>

definition INBOUND_PROXY :: "16 word" where "INBOUND_PROXY = 4143"
definition OUTBOUND_PROXY :: "16 word" where "OUTBOUND_PROXY = 4140"
definition METRICS_PORT :: "16 word" where "METRICS_PORT = 4190"
definition IDENTITY_GRPC :: "16 word" where "IDENTITY_GRPC = 4191"
definition ADMIN_PORT :: "16 word" where "ADMIN_PORT = 4192"

definition TLS_HANDSHAKE :: nat where "TLS_HANDSHAKE = 10"
definition TCP_IDLE :: nat where "TCP_IDLE = 300"
definition DNS_RESOLVE :: nat where "DNS_RESOLVE = 5"
definition SHUTDOWN_GRACE :: nat where "SHUTDOWN_GRACE = 30"
definition LEAF_TTL :: nat where "LEAF_TTL = 86400"
definition ROOT_CA_TTL :: nat where "ROOT_CA_TTL = 365 * 86400"
definition CLOCK_SKEW_TOLERANCE :: nat where "CLOCK_SKEW_TOLERANCE = 3600"

definition PROTOCOL_DETECT :: nat where "PROTOCOL_DETECT = 32"
definition SOCKET_READ :: nat where "SOCKET_READ = 16384"
definition MAX_FRAME_SIZE :: "32 word" where "MAX_FRAME_SIZE = 16777215"

end
