(* ===== verification/Spiffe_Id.thy ===== *)
theory Spiffe_Id
  imports Segment_Glob Common_Error
begin

text \<open>
  The SPIFFE identity half of \<open>src/common/identity.rs\<close>: the URI parser, identities,
  compiled policy patterns and trust domains. Slices that could panic are kept as such, and
  the theory shows that none does on a Rust string.
\<close>

record SpiffeUriParts =
  uri_trust_domain :: string
  uri_namespace :: string
  uri_service_account :: string

record CompiledPattern =
  pat_trust_domain :: string
  pat_namespace :: SegmentGlob
  pat_service_account :: SegmentGlob

record SpiffeId =
  trust_domain :: string
  namespace :: string
  service_account :: string

record TrustDomain =
  td_name :: string
  ca_certs :: "bytes list"

subsection \<open>The URI parser\<close>

definition spiffe_prefix :: string where
  "spiffe_prefix = ''spiffe://''"

definition authority_forbidden :: "char \<Rightarrow> bool" where
  "authority_forbidden b =
     (is_ascii_control b \<or> is_ascii_whitespace b \<or>
      b \<in> {CHR ''@'', CHR '':'', CHR ''['', CHR '']'', CHR 0x5C, CHR ''?'', CHR ''#''})"

definition path_delim :: "char \<Rightarrow> bool" where
  "path_delim b = (b \<in> {CHR ''/'', CHR ''?'', CHR ''#''})"

definition malformed_path :: "string \<Rightarrow> InterlinkError" where
  "malformed_path got = Identity (''malformed SPIFFE path: expected /ns/<ns>/sa/<sa>, got '' @ got)"

text \<open>
  The parser in two parts: \<open>parse_spiffe_path\<close> is what follows the check of the trust domain
  (the path after the authority's slash), \<open>parse_spiffe_uri\<close> the whole function.
\<close>

definition parse_spiffe_path ::
  "string \<Rightarrow> string \<Rightarrow> (InterlinkError, SpiffeUriParts) result panicky" where
  "parse_spiffe_path td path =
     (case strip_prefix path ''ns/'' of
        None \<Rightarrow> Some (Inl (malformed_path (''/'' @ path)))
      | Some path \<Rightarrow>
          (case position path_delim path of
             None \<Rightarrow> Some (Inl (malformed_path (''/ns/'' @ path)))
           | Some namespace_end \<Rightarrow>
               if path ! namespace_end \<noteq> CHR ''/''
               then Some (Inl (Identity ''SPIFFE URI must not contain a query or fragment''))
               else do {
                 ns \<leftarrow> str_slice path 0 namespace_end;
                 rest \<leftarrow> str_slice path (namespace_end + 1) (length path);
                 (case strip_prefix rest ''sa/'' of
                    None \<Rightarrow> Some (Inl (malformed_path (''/ns/'' @ path)))
                  | Some sa \<Rightarrow>
                      if ns = [] \<or> sa = [] \<or> list_ex path_delim sa
                      then Some (Inl (malformed_path (''/ns/'' @ path)))
                      else Some (Inr \<lparr>uri_trust_domain = td, uri_namespace = ns,
                                      uri_service_account = sa\<rparr>))
               }))"

definition parse_spiffe_uri ::
  "string \<Rightarrow> string \<Rightarrow> (InterlinkError, SpiffeUriParts) result panicky" where
  "parse_spiffe_uri uri context =
     (if length uri < length spiffe_prefix
      then Some (Inl (Identity (''invalid '' @ context @ '': missing URI scheme separator'')))
      else if \<not> eq_ignore_ascii_case (take (length spiffe_prefix) uri) spiffe_prefix
      then Some (Inl (Identity (''expected spiffe:// scheme, got '' @
             (case split_once uri ''://'' of None \<Rightarrow> uri | Some (scheme, _) \<Rightarrow> scheme))))
      else do {
        remainder \<leftarrow> str_slice uri (length spiffe_prefix) (length uri);
        (case position (\<lambda>b. b = CHR ''/'') remainder of
           None \<Rightarrow> Some (Inl (malformed_path ''empty path''))
         | Some authority_end \<Rightarrow> do {
             td \<leftarrow> str_slice remainder 0 authority_end;
             (if td = [] then Some (Inl (Identity ''missing trust domain in SPIFFE URI''))
              else if list_ex authority_forbidden td
              then Some (Inl (Identity ''SPIFFE URI authority must contain only a trust domain''))
              else do {
                path \<leftarrow> str_slice remainder (authority_end + 1) (length remainder);
                parse_spiffe_path td path
              })
           })
      })"

subsection \<open>Compiled patterns\<close>

definition CompiledPattern_from_uri ::
  "string \<Rightarrow> (InterlinkError, CompiledPattern) result panicky" where
  "CompiledPattern_from_uri uri =
     do {
       r \<leftarrow> parse_spiffe_uri uri ''pattern URI'';
       Some (and_then r (\<lambda>parts. Inr
         \<lparr>pat_trust_domain = to_ascii_lowercase (uri_trust_domain parts),
          pat_namespace = SegmentGlob_new (uri_namespace parts),
          pat_service_account = SegmentGlob_new (uri_service_account parts)\<rparr>))
     }"

definition CompiledPattern_any :: CompiledPattern where
  "CompiledPattern_any =
     \<lparr>pat_trust_domain = [], pat_namespace = SegmentGlob_new ''*'',
      pat_service_account = SegmentGlob_new ''*''\<rparr>"

subsection \<open>Identities\<close>

definition SpiffeId_new :: "string \<Rightarrow> string \<Rightarrow> string \<Rightarrow> SpiffeId" where
  "SpiffeId_new td ns sa = \<lparr>trust_domain = td, namespace = ns, service_account = sa\<rparr>"

definition validate_segments :: "SpiffeId \<Rightarrow> (InterlinkError, unit) result" where
  "validate_segments self =
     (if trust_domain self = [] then Inl (Identity ''trust domain must not be empty'')
      else if namespace self = [] then Inl (Identity ''namespace must not be empty'')
      else if service_account self = [] then Inl (Identity ''service account must not be empty'')
      else Inr ())"

definition try_new :: "string \<Rightarrow> string \<Rightarrow> string \<Rightarrow> (InterlinkError, SpiffeId) result" where
  "try_new td ns sa =
     (let id = SpiffeId_new td ns sa in and_then (validate_segments id) (\<lambda>_. Inr id))"

definition to_uri :: "SpiffeId \<Rightarrow> string" where
  "to_uri self = ''spiffe://'' @ trust_domain self @ ''/ns/'' @ namespace self
                 @ ''/sa/'' @ service_account self"

definition SpiffeId_from_uri :: "string \<Rightarrow> (InterlinkError, SpiffeId) result panicky" where
  "SpiffeId_from_uri uri =
     do {
       r \<leftarrow> parse_spiffe_uri uri ''URI'';
       Some (and_then r (\<lambda>parts.
         try_new (to_ascii_lowercase (uri_trust_domain parts))
                 (uri_namespace parts) (uri_service_account parts)))
     }"

definition matches_compiled :: "SpiffeId \<Rightarrow> CompiledPattern \<Rightarrow> bool panicky" where
  "matches_compiled self p =
     (if pat_trust_domain p = [] \<or> trust_domain self = pat_trust_domain p
      then do {
        ns_ok \<leftarrow> SegmentGlob_matches (pat_namespace p) (namespace self);
        (if ns_ok then SegmentGlob_matches (pat_service_account p) (service_account self)
         else Some False)
      }
      else Some False)"

definition matches_pattern :: "SpiffeId \<Rightarrow> string \<Rightarrow> bool panicky" where
  "matches_pattern self pat =
     do {
       r \<leftarrow> CompiledPattern_from_uri pat;
       (case r of Inr cp \<Rightarrow> matches_compiled self cp | Inl _ \<Rightarrow> Some False)
     }"

definition display_SpiffeId :: "SpiffeId \<Rightarrow> string" where
  "display_SpiffeId self =
     concat [''spiffe://'', trust_domain self, ''/ns/'', namespace self, ''/sa/'', service_account self]"

definition SpiffeId_from_str :: "string \<Rightarrow> (InterlinkError, SpiffeId) result panicky" where
  "SpiffeId_from_str s = SpiffeId_from_uri s"

subsection \<open>Trust domains\<close>

definition TrustDomain_new :: "string \<Rightarrow> TrustDomain" where
  "TrustDomain_new name = \<lparr>td_name = name, ca_certs = []\<rparr>"

definition with_ca :: "TrustDomain \<Rightarrow> bytes \<Rightarrow> TrustDomain" where
  "with_ca self cert_der = self\<lparr>ca_certs := ca_certs self @ [cert_der]\<rparr>"

subsection \<open>What the parser accepts\<close>

definition segment_ok :: "string \<Rightarrow> bool" where
  "segment_ok s = (s \<noteq> [] \<and> list_all (\<lambda>b. \<not> path_delim b) s)"

definition authority_ok :: "string \<Rightarrow> bool" where
  "authority_ok td = (td \<noteq> [] \<and> list_all (\<lambda>b. \<not> authority_forbidden b \<and> b \<noteq> CHR ''/'') td)"

definition uri_form :: "string \<Rightarrow> string \<Rightarrow> string \<Rightarrow> string \<Rightarrow> bool" where
  "uri_form uri td ns sa =
     (\<exists>scheme. eq_ignore_ascii_case scheme spiffe_prefix
        \<and> uri = scheme @ td @ ''/ns/'' @ ns @ ''/sa/'' @ sa
        \<and> authority_ok td \<and> segment_ok ns \<and> segment_ok sa)"

lemma slash_ascii [simp]: "byte (CHR ''/'') < 128"
  by (simp add: byte_def)

lemma path_delim_slash [simp]: "path_delim (CHR ''/'')"
  by (simp add: path_delim_def)

lemma path_delim_ascii: "path_delim c \<Longrightarrow> byte c < 128"
  by (auto simp: path_delim_def byte_def)

lemma not_list_ex: "\<not> list_ex P xs \<longleftrightarrow> list_all (\<lambda>x. \<not> P x) xs"
  by (simp add: list_ex_iff list_all_iff)

lemma slice_at_ascii:
  assumes v: "valid_utf8 s" and pos: "position P s = Some k" and asc: "\<And>c. P c \<Longrightarrow> byte c < 128"
  obtains a y b where "s = a @ y # b" "length a = k" "P y" "\<forall>c \<in> set a. \<not> P c" "s ! k = y"
    "str_slice s 0 k = Some a" "str_slice s (k + 1) (length s) = Some b"
    "valid_utf8 a" "valid_utf8 b"
proof -
  from pos obtain a y b where s: "s = a @ y # b" "length a = k" "P y" "\<forall>c \<in> set a. \<not> P c"
    by (metis position_Some_split)
  have y: "byte y < 128" using asc s(3) .
  have "s ! k = y" using s by auto
  moreover have "str_slice s 0 k = Some a" using s y str_slice_prefix_ascii by blast
  moreover have "str_slice s (k + 1) (length s) = Some b"
    using str_slice_suffix_ascii [OF y] s v by auto
  moreover have "valid_utf8 a" "valid_utf8 b" using v s y valid_utf8_ascii_mid by blast+
  ultimately show ?thesis using that s by blast
qed

lemma valid_utf8_ascii_prefix: "\<forall>c \<in> set a. byte c < 128 \<Longrightarrow> valid_utf8 (a @ b) = valid_utf8 b"
  by (rule valid_utf8_append_cancel) (rule valid_utf8_all_ascii)

lemma strip_prefix_valid:
  "strip_prefix s p = Some r \<Longrightarrow> valid_utf8 s \<Longrightarrow> \<forall>c \<in> set p. byte c < 128 \<Longrightarrow> valid_utf8 r"
  using valid_utf8_ascii_prefix by (auto simp: strip_prefix_Some_iff)

lemma parse_spiffe_path_no_panic:
  assumes v: "valid_utf8 path"
  shows "parse_spiffe_path td path \<noteq> None"
proof (cases "strip_prefix path ''ns/''")
  case None
  then show ?thesis by (simp add: parse_spiffe_path_def)
next
  case (Some q)
  then have vq: "valid_utf8 q" using v by (rule strip_prefix_valid) (simp add: byte_def)
  show ?thesis
  proof (cases "position path_delim q")
    case None
    with Some show ?thesis by (simp add: parse_spiffe_path_def)
  next
    case pos: (Some k)
    obtain a b where "str_slice q 0 k = Some a" "str_slice q (k + 1) (length q) = Some b"
      using slice_at_ascii [OF vq pos path_delim_ascii] by metis
    with Some pos show ?thesis by (simp add: parse_spiffe_path_def split: option.split)
  qed
qed

lemma parse_spiffe_path_sound:
  assumes "parse_spiffe_path td path = Some (Inr parts)"
  shows "\<exists>ns sa. path = ''ns/'' @ ns @ ''/sa/'' @ sa \<and> segment_ok ns \<and> segment_ok sa
    \<and> parts = \<lparr>uri_trust_domain = td, uri_namespace = ns, uri_service_account = sa\<rparr>"
proof -
  from assms obtain q k ns rest sa where q: "path = ''ns/'' @ q" "position path_delim q = Some k"
    "q ! k = CHR ''/''" "str_slice q 0 k = Some ns" "str_slice q (k + 1) (length q) = Some rest"
    "rest = ''sa/'' @ sa" "ns \<noteq> []" "sa \<noteq> []" "\<not> list_ex path_delim sa"
    "parts = \<lparr>uri_trust_domain = td, uri_namespace = ns, uri_service_account = sa\<rparr>"
    by (auto simp: parse_spiffe_path_def strip_prefix_Some_iff bind_eq_Some_conv
             split: option.splits if_splits)
  from q(2,4,5) have k: "k < length q" "ns = take k q" "rest = drop (Suc k) q"
    "\<forall>c \<in> set ns. \<not> path_delim c"
    by (auto simp: position_Some_iff str_slice_Some_iff)
  then have "q = ns @ CHR ''/'' # rest" using q(3) id_take_nth_drop by metis
  moreover have "segment_ok ns" using k(4) q(7) by (simp add: segment_ok_def list_all_iff)
  moreover have "segment_ok sa" using q(8,9) by (simp add: segment_ok_def not_list_ex)
  ultimately show ?thesis using q(1,6,10) by auto
qed

lemma parse_spiffe_path_complete:
  assumes "segment_ok ns" and "segment_ok sa" and v: "valid_utf8 (''ns/'' @ ns @ ''/sa/'' @ sa)"
  shows "parse_spiffe_path td (''ns/'' @ ns @ ''/sa/'' @ sa) =
    Some (Inr \<lparr>uri_trust_domain = td, uri_namespace = ns, uri_service_account = sa\<rparr>)"
proof -
  let ?q = "ns @ CHR ''/'' # ''sa/'' @ sa"
  have vq: "valid_utf8 ?q" using v valid_utf8_ascii_prefix [of "''ns/''" ?q] by (simp add: byte_def)
  have pos: "position path_delim ?q = Some (length ns)"
    using assms(1) by (intro position_append_found) (auto simp: segment_ok_def list_all_iff)
  have s1: "str_slice ?q 0 (length ns) = Some ns" by (rule str_slice_prefix_ascii) simp
  have s2: "str_slice ?q (length ns + 1) (length ?q) = Some (''sa/'' @ sa)"
    using str_slice_suffix_ascii [OF slash_ascii vq] by simp
  have sp: "strip_prefix (''ns/'' @ ns @ ''/sa/'' @ sa) ''ns/'' = Some ?q"
    by (simp only: strip_prefix_Some_iff) simp
  have sq: "strip_prefix (''sa/'' @ sa) ''sa/'' = Some sa" by (rule strip_prefix_append)
  show ?thesis
    unfolding parse_spiffe_path_def sp option.case pos s1 s2 sq Option.bind.simps nth_append_length
    using assms(1,2) by (simp add: segment_ok_def not_list_ex [symmetric])
qed

lemma scheme_ascii:
  assumes "eq_ignore_ascii_case scheme spiffe_prefix"
  shows "length scheme = length spiffe_prefix" and "\<forall>c \<in> set scheme. byte c < 128"
proof -
  from assms have e: "map byte_lower scheme = map byte_lower spiffe_prefix"
    by (simp add: eq_ignore_ascii_case_def to_ascii_lowercase_def)
  then show "length scheme = length spiffe_prefix" by (metis length_map)
  show "\<forall>c \<in> set scheme. byte c < 128"
  proof
    fix c assume "c \<in> set scheme"
    then have "byte_lower c \<in> set (map byte_lower spiffe_prefix)" using e by (metis image_eqI list.set_map)
    then have "byte (byte_lower c) < 128"
      by (auto simp: spiffe_prefix_def byte_lower_def is_ascii_uppercase_def byte_def)
    then show "byte c < 128" by (simp add: byte_byte_lower split: if_splits)
  qed
qed

lemma uri_remainder:
  assumes "valid_utf8 uri" and "length spiffe_prefix \<le> length uri"
    and "eq_ignore_ascii_case (take (length spiffe_prefix) uri) spiffe_prefix"
  shows "str_slice uri (length spiffe_prefix) (length uri) = Some (drop (length spiffe_prefix) uri)"
    and "valid_utf8 (drop (length spiffe_prefix) uri)"
proof -
  let ?a = "take (length spiffe_prefix) uri" and ?b = "drop (length spiffe_prefix) uri"
  from scheme_ascii(2) [OF assms(3)] show vb: "valid_utf8 ?b"
    using assms(1) valid_utf8_ascii_prefix [of ?a ?b] by simp
  with str_slice_suffix [of ?b ?a] assms(2)
  show "str_slice uri (length spiffe_prefix) (length uri) = Some ?b" by simp
qed

lemma parse_spiffe_uri_no_panic:
  assumes v: "valid_utf8 uri"
  shows "parse_spiffe_uri uri ctx \<noteq> None"
proof (cases "length spiffe_prefix \<le> length uri
    \<and> eq_ignore_ascii_case (take (length spiffe_prefix) uri) spiffe_prefix")
  case False
  then show ?thesis by (auto simp: parse_spiffe_uri_def)
next
  case True
  let ?r = "drop (length spiffe_prefix) uri"
  have r: "str_slice uri (length spiffe_prefix) (length uri) = Some ?r" "valid_utf8 ?r"
    using uri_remainder [OF v] True by auto
  show ?thesis
  proof (cases "position (\<lambda>b. b = CHR ''/'') ?r")
    case None
    with True r show ?thesis by (simp add: parse_spiffe_uri_def)
  next
    case (Some k)
    obtain a b where ab: "str_slice ?r 0 k = Some a" "str_slice ?r (k + 1) (length ?r) = Some b"
      "valid_utf8 b"
      using slice_at_ascii [OF r(2) Some] slash_ascii by metis
    then have "parse_spiffe_path a b \<noteq> None" by (intro parse_spiffe_path_no_panic)
    with True r Some ab show ?thesis by (simp add: parse_spiffe_uri_def)
  qed
qed

lemma parse_spiffe_uri_sound:
  assumes "parse_spiffe_uri uri ctx = Some (Inr parts)"
  shows "uri_form uri (uri_trust_domain parts) (uri_namespace parts) (uri_service_account parts)"
proof -
  let ?scheme = "take (length spiffe_prefix) uri" and ?r = "drop (length spiffe_prefix) uri"
  from assms obtain rem k td path where q: "eq_ignore_ascii_case ?scheme spiffe_prefix"
    "str_slice uri (length spiffe_prefix) (length uri) = Some rem"
    "position (\<lambda>b. b = CHR ''/'') rem = Some k" "str_slice rem 0 k = Some td" "td \<noteq> []"
    "\<not> list_ex authority_forbidden td" "str_slice rem (k + 1) (length rem) = Some path"
    "parse_spiffe_path td path = Some (Inr parts)"
    by (auto simp: parse_spiffe_uri_def bind_eq_Some_conv split: option.splits if_splits)
  from q(2) have rem: "rem = ?r" by (simp add: str_slice_Some_iff)
  from q(3,4,7) have k: "k < length rem" "rem ! k = CHR ''/''" "td = take k rem"
    "path = drop (Suc k) rem" "\<forall>c \<in> set td. c \<noteq> CHR ''/''"
    by (auto simp: position_Some_iff str_slice_Some_iff)
  then have "rem = td @ CHR ''/'' # path" using id_take_nth_drop by metis
  moreover obtain ns sa where "path = ''ns/'' @ ns @ ''/sa/'' @ sa" "segment_ok ns" "segment_ok sa"
    "parts = \<lparr>uri_trust_domain = td, uri_namespace = ns, uri_service_account = sa\<rparr>"
    using parse_spiffe_path_sound [OF q(8)] by blast
  moreover have "authority_ok td"
    using q(5,6) k(5) by (simp add: authority_ok_def list_all_iff list_ex_iff)
  moreover have "uri = ?scheme @ rem" using rem by simp
  ultimately show ?thesis using q(1) unfolding uri_form_def by (intro exI [of _ ?scheme]) simp
qed

lemma parse_spiffe_uri_complete:
  assumes v: "valid_utf8 uri" and f: "uri_form uri td ns sa"
  shows "parse_spiffe_uri uri ctx =
    Some (Inr \<lparr>uri_trust_domain = td, uri_namespace = ns, uri_service_account = sa\<rparr>)"
proof -
  from f obtain scheme where q: "eq_ignore_ascii_case scheme spiffe_prefix"
    "uri = scheme @ td @ ''/ns/'' @ ns @ ''/sa/'' @ sa"
    "authority_ok td" "segment_ok ns" "segment_ok sa" by (auto simp: uri_form_def)
  let ?path = "''ns/'' @ ns @ ''/sa/'' @ sa"
  let ?r = "td @ CHR ''/'' # ?path"
  have uri: "uri = scheme @ ?r" using q(2) by simp
  note len = scheme_ascii(1) [OF q(1)]
  have t: "take (length spiffe_prefix) uri = scheme" "drop (length spiffe_prefix) uri = ?r"
    unfolding uri using len by simp_all
  have le: "\<not> length uri < length spiffe_prefix" using len uri by simp
  have slice: "str_slice uri (length spiffe_prefix) (length uri) = Some ?r" and vr: "valid_utf8 ?r"
    using uri_remainder [OF v] le t q(1) by (simp_all only: not_less)
  have pos: "position (\<lambda>b. b = CHR ''/'') ?r = Some (length td)"
    using q(3) by (intro position_append_found) (auto simp: authority_ok_def list_all_iff)
  have s1: "str_slice ?r 0 (length td) = Some td" by (rule str_slice_prefix_ascii) simp
  have s2: "str_slice ?r (length td + 1) (length ?r) = Some ?path"
    using str_slice_suffix_ascii [OF slash_ascii vr] by simp
  have vp: "valid_utf8 ?path" using vr valid_utf8_ascii_mid [OF slash_ascii] by blast
  have td: "td \<noteq> []" "\<not> list_ex authority_forbidden td"
    using q(3) by (auto simp: authority_ok_def list_all_iff list_ex_iff)
  show ?thesis
    unfolding parse_spiffe_uri_def t slice pos s1 option.case Option.bind.simps s2
      parse_spiffe_path_complete [OF q(4,5) vp]
    using le q(1) td by simp
qed

subsection \<open>Identities and their URIs\<close>

definition valid_id :: "SpiffeId \<Rightarrow> bool" where
  "valid_id self = (valid_utf8 (trust_domain self) \<and> valid_utf8 (namespace self)
                    \<and> valid_utf8 (service_account self))"

definition canonical_id :: "SpiffeId \<Rightarrow> bool" where
  "canonical_id self =
     (authority_ok (trust_domain self) \<and> to_ascii_lowercase (trust_domain self) = trust_domain self
      \<and> segment_ok (namespace self) \<and> segment_ok (service_account self))"

lemma uri_form_valid:
  assumes "valid_utf8 uri" and "uri_form uri td ns sa"
  shows "valid_utf8 td \<and> valid_utf8 ns \<and> valid_utf8 sa"
proof -
  from assms(2) obtain scheme where q: "eq_ignore_ascii_case scheme spiffe_prefix"
    "uri = scheme @ td @ CHR ''/'' # ''ns/'' @ ns @ CHR ''/'' # ''sa/'' @ sa"
    by (auto simp: uri_form_def)
  have "valid_utf8 (td @ CHR ''/'' # ''ns/'' @ ns @ CHR ''/'' # ''sa/'' @ sa)"
    using assms(1) q(2) valid_utf8_ascii_prefix [OF scheme_ascii(2) [OF q(1)]] by simp
  then have td: "valid_utf8 td" "valid_utf8 (''ns/'' @ ns @ CHR ''/'' # ''sa/'' @ sa)"
    by (simp_all only: valid_utf8_ascii_mid [OF slash_ascii])
  from td(2) have "valid_utf8 (ns @ CHR ''/'' # ''sa/'' @ sa)"
    by (subst (asm) valid_utf8_ascii_prefix) (simp_all add: byte_def)
  then have "valid_utf8 ns" "valid_utf8 (''sa/'' @ sa)"
    by (simp_all only: valid_utf8_ascii_mid [OF slash_ascii])
  moreover from this(2) have "valid_utf8 sa"
    by (subst (asm) valid_utf8_ascii_prefix) (simp_all add: byte_def)
  ultimately show ?thesis using td(1) by blast
qed

lemma valid_to_uri: "valid_utf8 (to_uri self) = valid_id self"
proof -
  have "valid_utf8 (to_uri self) =
      valid_utf8 (trust_domain self @ CHR ''/'' # ''ns/'' @ namespace self @ CHR ''/'' # ''sa/'' @ service_account self)"
    unfolding to_uri_def by (subst valid_utf8_ascii_prefix) (simp_all add: byte_def)
  also have "\<dots> = (valid_utf8 (trust_domain self) \<and> valid_utf8 (''ns/'' @ namespace self @ CHR ''/'' # ''sa/'' @ service_account self))"
    by (rule valid_utf8_ascii_mid) simp
  also have "valid_utf8 (''ns/'' @ namespace self @ CHR ''/'' # ''sa/'' @ service_account self) =
      valid_utf8 (namespace self @ CHR ''/'' # ''sa/'' @ service_account self)"
    by (subst valid_utf8_ascii_prefix) (simp_all add: byte_def)
  also have "\<dots> = (valid_utf8 (namespace self) \<and> valid_utf8 (''sa/'' @ service_account self))"
    by (rule valid_utf8_ascii_mid) simp
  also have "valid_utf8 (''sa/'' @ service_account self) = valid_utf8 (service_account self)"
    by (subst valid_utf8_ascii_prefix) (simp_all add: byte_def)
  finally show ?thesis by (simp add: valid_id_def)
qed

lemma uri_form_to_uri: "canonical_id self \<Longrightarrow>
    uri_form (to_uri self) (trust_domain self) (namespace self) (service_account self)"
  unfolding uri_form_def canonical_id_def
  by (intro exI [of _ spiffe_prefix]) (simp add: eq_ignore_ascii_case_def to_uri_def spiffe_prefix_def)

lemma segment_ok_nonempty: "segment_ok s \<Longrightarrow> s \<noteq> []" "authority_ok td \<Longrightarrow> td \<noteq> []"
  by (simp_all add: segment_ok_def authority_ok_def)

lemma try_new_Inr_iff:
  "try_new td ns sa = Inr self \<longleftrightarrow>
     td \<noteq> [] \<and> ns \<noteq> [] \<and> sa \<noteq> [] \<and> self = SpiffeId_new td ns sa"
  by (auto simp: try_new_def validate_segments_def SpiffeId_new_def Let_def)

lemma SpiffeId_from_uri_iff:
  assumes "valid_utf8 uri"
  shows "SpiffeId_from_uri uri = Some (Inr self) \<longleftrightarrow>
    (\<exists>td. uri_form uri td (namespace self) (service_account self)
          \<and> trust_domain self = to_ascii_lowercase td)" (is "?L \<longleftrightarrow> ?R")
proof
  assume ?L
  then obtain parts where "parse_spiffe_uri uri ''URI'' = Some (Inr parts)"
    "try_new (to_ascii_lowercase (uri_trust_domain parts)) (uri_namespace parts)
       (uri_service_account parts) = Inr self"
    by (auto simp: SpiffeId_from_uri_def bind_eq_Some_conv and_then_Inr_iff)
  then show ?R
    using parse_spiffe_uri_sound by (fastforce simp: try_new_Inr_iff SpiffeId_new_def)
next
  assume ?R
  then obtain td where td: "uri_form uri td (namespace self) (service_account self)"
    "trust_domain self = to_ascii_lowercase td" by blast
  then have ne: "td \<noteq> []" "namespace self \<noteq> []" "service_account self \<noteq> []"
    using segment_ok_nonempty by (auto simp: uri_form_def)
  have "try_new (to_ascii_lowercase td) (namespace self) (service_account self) = Inr self"
    using td(2) ne by (simp add: try_new_Inr_iff SpiffeId_new_def)
  then show ?L
    using parse_spiffe_uri_complete [OF assms td(1)] by (simp add: SpiffeId_from_uri_def)
qed

lemma SpiffeId_from_uri_no_panic: "valid_utf8 uri \<Longrightarrow> SpiffeId_from_uri uri \<noteq> None"
  using parse_spiffe_uri_no_panic [of uri "''URI''"] by (auto simp: SpiffeId_from_uri_def)

lemma authority_forbidden_lower:
  "\<not> authority_forbidden b \<and> b \<noteq> CHR ''/'' \<Longrightarrow>
     \<not> authority_forbidden (byte_lower b) \<and> byte_lower b \<noteq> CHR ''/''"
proof (cases "is_ascii_uppercase b")
  case True
  then have n: "97 \<le> byte (byte_lower b)" "byte (byte_lower b) \<le> 122"
    by (simp_all add: byte_byte_lower is_ascii_uppercase_def)
  have "byte_lower b \<notin> {CHR ''@'', CHR '':'', CHR ''['', CHR '']'', CHR 0x5C, CHR ''?'', CHR ''#'', CHR ''/''}"
    using n by (auto simp: byte_def)
  with n show ?thesis
    by (auto simp: authority_forbidden_def is_ascii_control_def is_ascii_whitespace_def)
next
  case False
  then show "\<not> authority_forbidden b \<and> b \<noteq> CHR ''/'' \<Longrightarrow> ?thesis" by (simp add: byte_lower_def)
qed

lemma authority_ok_lower: "authority_ok td \<Longrightarrow> authority_ok (to_ascii_lowercase td)"
  using authority_forbidden_lower
  by (auto simp: authority_ok_def list_all_iff to_ascii_lowercase_def)

lemma SpiffeId_from_uri_canonical:
  assumes "valid_utf8 uri" and "SpiffeId_from_uri uri = Some (Inr self)"
  shows "canonical_id self" and "valid_id self"
proof -
  obtain td where td: "uri_form uri td (namespace self) (service_account self)"
    "trust_domain self = to_ascii_lowercase td"
    using assms SpiffeId_from_uri_iff by blast
  then show "canonical_id self"
    using authority_ok_lower by (auto simp: canonical_id_def uri_form_def)
  show "valid_id self"
    using uri_form_valid [OF assms(1) td(1)] td(2) valid_utf8_lower by (simp add: valid_id_def)
qed

lemma from_uri_to_uri:
  assumes "canonical_id self" and "valid_id self"
  shows "SpiffeId_from_uri (to_uri self) = Some (Inr self)"
proof -
  have "uri_form (to_uri self) (trust_domain self) (namespace self) (service_account self)"
    using assms(1) by (rule uri_form_to_uri)
  moreover have "trust_domain self = to_ascii_lowercase (trust_domain self)"
    using assms(1) by (simp add: canonical_id_def)
  moreover have "valid_utf8 (to_uri self)" using assms(2) by (simp add: valid_to_uri)
  ultimately show ?thesis using SpiffeId_from_uri_iff by metis
qed

text \<open>Whatever its case, a trust domain the parser accepts is read back in lower case.\<close>

lemma from_uri_to_uri_lower:
  assumes "valid_id self" and "authority_ok (trust_domain self)" and "segment_ok (namespace self)"
    and "segment_ok (service_account self)"
  shows "SpiffeId_from_uri (to_uri self) = Some (Inr (self\<lparr>trust_domain := to_ascii_lowercase (trust_domain self)\<rparr>))"
proof -
  have "uri_form (to_uri self) (trust_domain self) (namespace self) (service_account self)"
    using assms(2-4) unfolding uri_form_def
    by (intro exI [of _ spiffe_prefix]) (simp add: eq_ignore_ascii_case_def to_uri_def spiffe_prefix_def)
  moreover have "valid_utf8 (to_uri self)" using assms(1) by (simp add: valid_to_uri)
  ultimately show ?thesis using SpiffeId_from_uri_iff by fastforce
qed

lemma from_uri_to_uri_iff:
  assumes "valid_id self"
  shows "SpiffeId_from_uri (to_uri self) = Some (Inr self) \<longleftrightarrow> canonical_id self"
  using assms from_uri_to_uri SpiffeId_from_uri_canonical(1) valid_to_uri by blast

text \<open>\<open>Display\<close> writes the URI.\<close>

lemma display_to_uri: "display_SpiffeId self = to_uri self"
  by (simp add: display_SpiffeId_def to_uri_def)

subsection \<open>Patterns\<close>

text \<open>
  Every \<open>SegmentGlob\<close> of the program comes from \<open>SegmentGlob::new\<close> (its fields are private),
  which is what \<open>compiled_from\<close> says of a pattern; \<open>pattern_spec\<close> is the meaning of one.
\<close>

definition compiled_from :: "CompiledPattern \<Rightarrow> string \<Rightarrow> string \<Rightarrow> bool" where
  "compiled_from cp ns sa =
     (valid_utf8 ns \<and> valid_utf8 sa
      \<and> pat_namespace cp = SegmentGlob_new ns \<and> pat_service_account cp = SegmentGlob_new sa)"

definition wf_pattern :: "CompiledPattern \<Rightarrow> bool" where
  "wf_pattern cp = (\<exists>ns sa. compiled_from cp ns sa)"

definition pattern_spec :: "string \<Rightarrow> string \<Rightarrow> string \<Rightarrow> SpiffeId \<Rightarrow> bool" where
  "pattern_spec td ns sa self =
     ((td = [] \<or> trust_domain self = td) \<and> glob_match ns (namespace self)
      \<and> glob_match sa (service_account self))"

lemma matches_compiled_spec:
  assumes "compiled_from cp ns sa" and "valid_id self"
  shows "matches_compiled self cp = Some (pattern_spec (pat_trust_domain cp) ns sa self)"
  using assms
  by (simp add: matches_compiled_def compiled_from_def valid_id_def pattern_spec_def
      SegmentGlob_matches_correct)

lemma matches_compiled_no_panic:
  "wf_pattern cp \<Longrightarrow> valid_id self \<Longrightarrow> matches_compiled self cp \<noteq> None"
  using matches_compiled_spec by (auto simp: wf_pattern_def)

lemma CompiledPattern_from_uri_iff:
  assumes "valid_utf8 uri"
  shows "CompiledPattern_from_uri uri = Some (Inr cp) \<longleftrightarrow>
    (\<exists>td ns sa. uri_form uri td ns sa \<and>
       cp = \<lparr>pat_trust_domain = to_ascii_lowercase td, pat_namespace = SegmentGlob_new ns,
             pat_service_account = SegmentGlob_new sa\<rparr>)" (is "?L \<longleftrightarrow> ?R")
proof
  assume ?L
  then obtain parts where "parse_spiffe_uri uri ''pattern URI'' = Some (Inr parts)"
    "cp = \<lparr>pat_trust_domain = to_ascii_lowercase (uri_trust_domain parts),
          pat_namespace = SegmentGlob_new (uri_namespace parts),
          pat_service_account = SegmentGlob_new (uri_service_account parts)\<rparr>"
    by (auto simp: CompiledPattern_from_uri_def bind_eq_Some_conv and_then_Inr_iff)
  then show ?R using parse_spiffe_uri_sound by blast
next
  assume ?R
  then obtain td ns sa where f: "uri_form uri td ns sa"
    "cp = \<lparr>pat_trust_domain = to_ascii_lowercase td, pat_namespace = SegmentGlob_new ns,
           pat_service_account = SegmentGlob_new sa\<rparr>" by blast
  then show ?L
    using parse_spiffe_uri_complete [OF assms f(1)] by (simp add: CompiledPattern_from_uri_def)
qed

lemma CompiledPattern_from_uri_no_panic: "valid_utf8 uri \<Longrightarrow> CompiledPattern_from_uri uri \<noteq> None"
  using parse_spiffe_uri_no_panic [of uri "''pattern URI''"] by (auto simp: CompiledPattern_from_uri_def)

lemma compiled_from_any: "compiled_from CompiledPattern_any ''*'' ''*''"
  by (simp add: compiled_from_def CompiledPattern_any_def valid_utf8_all_ascii byte_def)

lemma glob_match_any [simp]: "glob_match ''*'' v"
  by (simp add: glob_match_star)

lemma matches_any: "valid_id self \<Longrightarrow> matches_compiled self CompiledPattern_any = Some True"
  by (simp only: matches_compiled_spec [OF compiled_from_any] pattern_spec_def glob_match_any)
     (simp add: CompiledPattern_any_def)

lemma glob_match_literal: "star \<notin> set p \<Longrightarrow> glob_match p v \<longleftrightarrow> v = p"
  using lits_single [of p] by (simp add: glob_match_lits)

text \<open>An identity whose URI holds no wildcard, used as a pattern, matches itself only.\<close>

definition literal_id :: "SpiffeId \<Rightarrow> bool" where
  "literal_id self = (star \<notin> set (namespace self) \<and> star \<notin> set (service_account self))"

definition id_pattern :: "SpiffeId \<Rightarrow> CompiledPattern" where
  "id_pattern self =
     \<lparr>pat_trust_domain = trust_domain self, pat_namespace = SegmentGlob_new (namespace self),
      pat_service_account = SegmentGlob_new (service_account self)\<rparr>"

lemma pattern_of_id:
  assumes "canonical_id self" and "valid_id self"
  shows "CompiledPattern_from_uri (to_uri self) = Some (Inr (id_pattern self))"
proof -
  have "uri_form (to_uri self) (trust_domain self) (namespace self) (service_account self)"
    using assms(1) by (rule uri_form_to_uri)
  moreover have "to_ascii_lowercase (trust_domain self) = trust_domain self"
    using assms(1) by (simp add: canonical_id_def)
  moreover have "valid_utf8 (to_uri self)" using assms(2) by (simp add: valid_to_uri)
  ultimately show ?thesis
    unfolding id_pattern_def CompiledPattern_from_uri_iff [OF \<open>valid_utf8 (to_uri self)\<close>]
    by (intro exI [of _ "trust_domain self"] exI [of _ "namespace self"] exI [of _ "service_account self"]) simp
qed

lemma compiled_from_id: "valid_id self \<Longrightarrow> compiled_from (id_pattern self) (namespace self) (service_account self)"
  by (simp add: compiled_from_def id_pattern_def valid_id_def)

lemma matches_id_pattern:
  assumes "canonical_id self" and "valid_id self" and "valid_id other"
  shows "matches_compiled other (id_pattern self) =
    Some (trust_domain other = trust_domain self \<and> glob_match (namespace self) (namespace other)
          \<and> glob_match (service_account self) (service_account other))"
  using matches_compiled_spec [OF compiled_from_id [OF assms(2)] assms(3)] assms(1)
  by (simp add: pattern_spec_def) (simp add: id_pattern_def canonical_id_def authority_ok_def)

lemma matches_literal_id:
  assumes "canonical_id self" and "valid_id self" and "literal_id self" and "valid_id other"
  shows "matches_compiled other (id_pattern self) = Some (other = self)"
proof -
  have "glob_match (namespace self) (namespace other) \<longleftrightarrow> namespace other = namespace self"
    "glob_match (service_account self) (service_account other) \<longleftrightarrow>
       service_account other = service_account self"
    using assms(3) by (simp_all add: literal_id_def glob_match_literal)
  then show ?thesis
    unfolding matches_id_pattern [OF assms(1,2,4)] by (auto intro: SpiffeId.equality)
qed

subsection \<open>Properties\<close>



text \<open>
  C8. Printing and parsing: the printed form of an identity parses back to that identity exactly when
  its trust domain is lower-case and nonempty, free of slashes and of the characters an authority
  may not have, and its namespace and service account are nonempty and free of path delimiters; if
  only the case is wrong it parses to the identity with the trust domain in lower case. Every
  identity the parser returns reads back. \<open>Display\<close> and \<open>FromStr\<close> do the same as \<open>to_uri\<close> and \<open>from_uri\<close>.
\<close>

theorem identity_uri_roundtrip:
  assumes "valid_id self"
  shows "(SpiffeId_from_uri (to_uri self) = Some (Inr self) \<longleftrightarrow>
      to_ascii_lowercase (trust_domain self) = trust_domain self \<and> authority_ok (trust_domain self)
      \<and> segment_ok (namespace self) \<and> segment_ok (service_account self))
    \<and> (authority_ok (trust_domain self) \<longrightarrow> segment_ok (namespace self) \<longrightarrow> segment_ok (service_account self) \<longrightarrow>
      SpiffeId_from_uri (to_uri self) = Some (Inr (self\<lparr>trust_domain := to_ascii_lowercase (trust_domain self)\<rparr>)))
    \<and> (valid_utf8 uri \<longrightarrow> SpiffeId_from_uri uri = Some (Inr self) \<longrightarrow> SpiffeId_from_uri (to_uri self) = Some (Inr self))
    \<and> SpiffeId_from_str (display_SpiffeId self) = SpiffeId_from_uri (to_uri self)"
  using from_uri_to_uri_iff [OF assms] from_uri_to_uri_lower [OF assms] SpiffeId_from_uri_canonical [of uri self]
  by (auto simp: canonical_id_def SpiffeId_from_str_def display_to_uri)

theorem identity_uri_roundtrip_witness:
  "SpiffeId_from_uri (to_uri (SpiffeId_new ''a.b'' ''n'' ''s'')) = Some (Inr (SpiffeId_new ''a.b'' ''n'' ''s''))
   \<and> SpiffeId_from_uri (to_uri (SpiffeId_new ''A.b'' ''n'' ''s'')) = Some (Inr (SpiffeId_new ''a.b'' ''n'' ''s''))
   \<and> SpiffeId_from_uri (to_uri (SpiffeId_new ''a.b'' ''n/m'' ''s'')) \<noteq> Some (Inr (SpiffeId_new ''a.b'' ''n/m'' ''s''))"
proof -
  let ?a = "SpiffeId_new ''a.b'' ''n'' ''s''" and ?b = "SpiffeId_new ''A.b'' ''n'' ''s''" and ?c = "SpiffeId_new ''a.b'' ''n/m'' ''s''"
  have v: "valid_id ?a" "valid_id ?b" "valid_id ?c"
    by (simp_all add: valid_id_def SpiffeId_new_def valid_utf8_all_ascii byte_def)
  have a: "to_ascii_lowercase (trust_domain ?a) = trust_domain ?a \<and> authority_ok (trust_domain ?a)
      \<and> segment_ok (namespace ?a) \<and> segment_ok (service_account ?a)" by code_simp
  have b: "authority_ok (trust_domain ?b)" "segment_ok (namespace ?b)" "segment_ok (service_account ?b)"
    "?b\<lparr>trust_domain := to_ascii_lowercase (trust_domain ?b)\<rparr> = ?a" by code_simp+
  have c: "\<not> segment_ok (namespace ?c)" by code_simp
  show ?thesis
    using identity_uri_roundtrip [OF v(1), of "[]"] identity_uri_roundtrip [OF v(2), of "[]"]
      identity_uri_roundtrip [OF v(3), of "[]"] a b c by metis
qed

text \<open>
  C22. A policy pattern means what it says: a pattern URI with authority \<open>td\<close> and segments \<open>ns\<close>
  and \<open>sa\<close> matches an identity exactly when the trust domains agree up to the pattern's case and
  both segments match as globs.
\<close>

theorem matches_pattern_meaning:
  assumes "valid_utf8 pat" and "uri_form pat td ns sa" and "valid_id self"
  shows "matches_pattern self pat =
    Some (trust_domain self = to_ascii_lowercase td \<and> glob_match ns (namespace self)
          \<and> glob_match sa (service_account self))"
proof -
  let ?cp = "\<lparr>pat_trust_domain = to_ascii_lowercase td, pat_namespace = SegmentGlob_new ns,
              pat_service_account = SegmentGlob_new sa\<rparr>"
  have "CompiledPattern_from_uri pat = Some (Inr ?cp)"
    using CompiledPattern_from_uri_iff [OF assms(1)] assms(2) by blast
  moreover have "compiled_from ?cp ns sa"
    using uri_form_valid [OF assms(1,2)] by (simp add: compiled_from_def)
  moreover have "td \<noteq> []" using assms(2) segment_ok_nonempty(2) by (auto simp: uri_form_def)
  ultimately show ?thesis
    using matches_compiled_spec [OF _ assms(3)] by (simp add: matches_pattern_def pattern_spec_def)
qed

theorem matches_pattern_meaning_witness:
  "matches_pattern (SpiffeId_new ''prod'' ''shop'' ''api-v2'') ''spiffe://PROD/ns/shop/sa/api-*'' = Some True"
proof -
  have v: "valid_utf8 ''spiffe://PROD/ns/shop/sa/api-*''" by (simp add: valid_utf8_all_ascii byte_def)
  have "''spiffe://PROD/ns/shop/sa/api-*'' =
      ''spiffe://'' @ ''PROD'' @ ''/ns/'' @ ''shop'' @ ''/sa/'' @ ''api-*''" by simp
  moreover have "eq_ignore_ascii_case ''spiffe://'' spiffe_prefix" "authority_ok ''PROD''"
    "segment_ok ''shop''" "segment_ok ''api-*''" by code_simp+
  ultimately have f: "uri_form ''spiffe://PROD/ns/shop/sa/api-*'' ''PROD'' ''shop'' ''api-*''"
    unfolding uri_form_def by blast
  have i: "valid_id (SpiffeId_new ''prod'' ''shop'' ''api-v2'')"
    by (simp add: valid_id_def SpiffeId_new_def valid_utf8_all_ascii byte_def)
  have "to_ascii_lowercase ''PROD'' = ''prod''" by code_simp
  then show ?thesis unfolding matches_pattern_meaning [OF v f i] by (simp add: SpiffeId_new_def)
qed

text \<open>
  The URI of a canonical identity without stars, used as a pattern, matches that identity and
  no other.
\<close>

lemma own_uri_matches_only_itself:
  assumes "canonical_id self" and "valid_id self" and "literal_id self" and "valid_id other"
  shows "matches_pattern other (to_uri self) = Some (other = self)"
  using pattern_of_id [OF assms(1,2)] matches_literal_id [OF assms] by (simp add: matches_pattern_def)

end
