(* ===== verification/Policy.thy ===== *)
theory Policy
  imports Spiffe_Id
begin

text \<open>
  \<open>src/policy/mod.rs\<close>: the authorization engine and its rule constructors. The engine's
  \<open>DashMap\<close> of namespace rules is a map, the \<open>ArcSwap\<close> of global rules a list that is
  replaced as a whole. The two rule loops of \<open>evaluate\<close> are \<open>scan_rules\<close>; the interface
  \<open>first_match\<close> states what such a scan promises, and the engine's facts are drawn from it.
\<close>

datatype Decision = Allow | Deny string

record PolicyRule =
  rule_source :: CompiledPattern
  rule_destination :: CompiledPattern
  rule_decision :: Decision
  rule_description :: string

record PolicyEngine =
  namespace_policies :: "string \<rightharpoonup> PolicyRule list"
  global_policies :: "PolicyRule list"
  default_decision :: Decision

definition PolicyEngine_new :: PolicyEngine where
  "PolicyEngine_new =
     \<lparr>namespace_policies = Map.empty, global_policies = [],
      default_decision = Deny ''no matching policy''\<rparr>"

fun scan_rules :: "PolicyRule list \<Rightarrow> SpiffeId \<Rightarrow> SpiffeId \<Rightarrow> Decision option panicky" where
  "scan_rules [] source destination = Some None"
| "scan_rules (rule # rules) source destination =
     do {
       s \<leftarrow> matches_compiled source (rule_source rule);
       m \<leftarrow> (if s then matches_compiled destination (rule_destination rule) else Some False);
       (if m then Some (Some (rule_decision rule)) else scan_rules rules source destination)
     }"

definition evaluate :: "PolicyEngine \<Rightarrow> SpiffeId \<Rightarrow> SpiffeId \<Rightarrow> Decision panicky" where
  "evaluate self source destination =
     do {
       scoped \<leftarrow> (case namespace_policies self (namespace destination) of
                    Some rules \<Rightarrow> scan_rules rules source destination
                  | None \<Rightarrow> Some None);
       (case scoped of
          Some d \<Rightarrow> Some d
        | None \<Rightarrow> do {
            global \<leftarrow> scan_rules (global_policies self) source destination;
            (case global of
               Some d \<Rightarrow> Some d
             | None \<Rightarrow> Some (default_decision self))
          })
     }"

definition add_namespace_rule :: "PolicyEngine \<Rightarrow> string \<Rightarrow> PolicyRule \<Rightarrow> PolicyEngine" where
  "add_namespace_rule self ns rule =
     self\<lparr>namespace_policies := (namespace_policies self)
       (ns \<mapsto> (case namespace_policies self ns of None \<Rightarrow> [] | Some rules \<Rightarrow> rules) @ [rule])\<rparr>"

definition set_global_policies :: "PolicyEngine \<Rightarrow> PolicyRule list \<Rightarrow> PolicyEngine" where
  "set_global_policies self rules = self\<lparr>global_policies := rules\<rparr>"

definition set_default_decision :: "PolicyEngine \<Rightarrow> Decision \<Rightarrow> PolicyEngine" where
  "set_default_decision self d = self\<lparr>default_decision := d\<rparr>"

subsection \<open>Rule constructors\<close>

definition allow_same_namespace :: "string \<Rightarrow> string \<Rightarrow> PolicyRule panicky" where
  "allow_same_namespace td ns =
     (let ns_pat = ''spiffe://'' @ td @ ''/ns/'' @ ns @ ''/sa/*'' in
      do {
        source_r \<leftarrow> CompiledPattern_from_uri ns_pat;
        source \<leftarrow> unwrap source_r;
        destination_r \<leftarrow> CompiledPattern_from_uri ns_pat;
        destination \<leftarrow> unwrap destination_r;
        Some \<lparr>rule_source = source, rule_destination = destination, rule_decision = Allow,
              rule_description = ''Allow all traffic within namespace '' @ ns\<rparr>
      })"

definition allow :: "string \<Rightarrow> string \<Rightarrow> string \<Rightarrow> PolicyRule panicky" where
  "allow from to description =
     do {
       source_r \<leftarrow> CompiledPattern_from_uri from;
       source \<leftarrow> unwrap source_r;
       destination_r \<leftarrow> CompiledPattern_from_uri to;
       destination \<leftarrow> unwrap destination_r;
       Some \<lparr>rule_source = source, rule_destination = destination, rule_decision = Allow,
             rule_description = description\<rparr>
     }"

definition deny :: "string \<Rightarrow> string \<Rightarrow> PolicyRule panicky" where
  "deny source_uri description =
     do {
       source_r \<leftarrow> CompiledPattern_from_uri source_uri;
       source \<leftarrow> unwrap source_r;
       Some \<lparr>rule_source = source, rule_destination = CompiledPattern_any,
             rule_decision = Deny ''blocklisted source'', rule_description = description\<rparr>
     }"

subsection \<open>Scanning a rule list\<close>

text \<open>
  What a first-match scan promises: on well-formed rules and requests it never panics, and it
  gives the verdict of the first rule that applies.
\<close>

locale first_match =
  fixes scan :: "'rule list \<Rightarrow> 'req \<Rightarrow> 'verdict option panicky"
    and applies :: "'rule \<Rightarrow> 'req \<Rightarrow> bool"
    and verdict :: "'rule \<Rightarrow> 'verdict"
    and wf_rule :: "'rule \<Rightarrow> bool"
    and wf_req :: "'req \<Rightarrow> bool"
  assumes scan_Nil: "scan [] q = Some None"
    and scan_Cons: "wf_rule r \<Longrightarrow> wf_req q \<Longrightarrow>
      scan (r # rs) q = (if applies r q then Some (Some (verdict r)) else scan rs q)"
begin

lemma scan_find:
  "list_all wf_rule rs \<Longrightarrow> wf_req q \<Longrightarrow>
     scan rs q = Some (map_option verdict (List.find (\<lambda>r. applies r q) rs))"
  by (induction rs) (simp_all add: scan_Nil scan_Cons)

lemma scan_append:
  assumes "list_all wf_rule rs" and "list_all wf_rule rs'" and "wf_req q"
  shows "scan (rs @ rs') q =
    (case scan rs q of Some (Some v) \<Rightarrow> Some (Some v) | _ \<Rightarrow> scan rs' q)"
  using assms by (simp add: scan_find find_append split: option.split)

lemma scan_Some_iff:
  assumes "list_all wf_rule rs" and "wf_req q"
  shows "scan rs q = Some (Some v) \<longleftrightarrow>
    (\<exists>as r bs. rs = as @ r # bs \<and> applies r q \<and> verdict r = v \<and> (\<forall>a \<in> set as. \<not> applies a q))"
  using assms by (auto simp: scan_find find_Some_split)

lemma scan_None_iff:
  assumes "list_all wf_rule rs" and "wf_req q"
  shows "scan rs q = Some None \<longleftrightarrow> (\<forall>r \<in> set rs. \<not> applies r q)"
  using assms by (auto simp: scan_find find_None_iff)

end

definition wf_rule :: "PolicyRule \<Rightarrow> bool" where
  "wf_rule r = (wf_pattern (rule_source r) \<and> wf_pattern (rule_destination r))"

definition applies :: "PolicyRule \<Rightarrow> SpiffeId \<times> SpiffeId \<Rightarrow> bool" where
  "applies r q = (matches_compiled (fst q) (rule_source r) = Some True
                  \<and> matches_compiled (snd q) (rule_destination r) = Some True)"

definition valid_request :: "SpiffeId \<times> SpiffeId \<Rightarrow> bool" where
  "valid_request q = (valid_id (fst q) \<and> valid_id (snd q))"

interpretation rules: first_match "\<lambda>rs q. scan_rules rs (fst q) (snd q)" applies rule_decision
  wf_rule valid_request
proof unfold_locales
  fix r :: PolicyRule and q rs
  assume "wf_rule r" and "valid_request q"
  then obtain a b where "matches_compiled (fst q) (rule_source r) = Some a"
    "matches_compiled (snd q) (rule_destination r) = Some b"
    using matches_compiled_no_panic unfolding wf_rule_def valid_request_def by blast
  then show "scan_rules (r # rs) (fst q) (snd q) =
      (if applies r q then Some (Some (rule_decision r)) else scan_rules rs (fst q) (snd q))"
    by (simp add: applies_def)
qed simp

subsection \<open>The engine\<close>

text \<open>
  The rules consulted for a destination, in the order they are consulted, and the meaning of
  the engine over them.
\<close>

definition scoped_rules :: "PolicyEngine \<Rightarrow> string \<Rightarrow> PolicyRule list" where
  "scoped_rules self ns = (case namespace_policies self ns of None \<Rightarrow> [] | Some rules \<Rightarrow> rules)"

definition rules_for :: "PolicyEngine \<Rightarrow> SpiffeId \<Rightarrow> PolicyRule list" where
  "rules_for self destination = scoped_rules self (namespace destination) @ global_policies self"

definition policy_spec :: "PolicyEngine \<Rightarrow> SpiffeId \<Rightarrow> SpiffeId \<Rightarrow> Decision" where
  "policy_spec self source destination =
     (case List.find (\<lambda>r. applies r (source, destination)) (rules_for self destination) of
        Some r \<Rightarrow> rule_decision r
      | None \<Rightarrow> default_decision self)"

definition wf_engine :: "PolicyEngine \<Rightarrow> bool" where
  "wf_engine self =
     ((\<forall>rules \<in> ran (namespace_policies self). list_all wf_rule rules)
      \<and> list_all wf_rule (global_policies self))"

lemma wf_engine_rules_for: "wf_engine self \<Longrightarrow> list_all wf_rule (rules_for self destination)"
  by (auto simp: wf_engine_def rules_for_def scoped_rules_def list_all_append ran_def split: option.split)

lemma evaluate_scan:
  assumes "wf_engine self" and "valid_id source" and "valid_id destination"
  shows "evaluate self source destination =
    (case scan_rules (rules_for self destination) source destination of
       Some (Some d) \<Rightarrow> Some d | _ \<Rightarrow> Some (default_decision self))"
proof -
  let ?q = "(source, destination)"
  have q: "valid_request ?q" using assms by (simp add: valid_request_def)
  have g: "list_all wf_rule (global_policies self)" using assms(1) by (simp add: wf_engine_def)
  show ?thesis
  proof (cases "namespace_policies self (namespace destination)")
    case None
    with rules.scan_find [OF g q] show ?thesis
      by (simp add: evaluate_def rules_for_def scoped_rules_def split: option.split)
  next
    case (Some rs)
    then have rs: "list_all wf_rule rs" using assms(1) by (auto simp: wf_engine_def ran_def)
    show ?thesis
      using Some rules.scan_append [OF rs g q] rules.scan_find [OF g q] rules.scan_find [OF rs q]
      by (auto simp: evaluate_def rules_for_def scoped_rules_def split: option.split)
  qed
qed

lemma evaluate_policy_spec:
  assumes "wf_engine self" and "valid_id source" and "valid_id destination"
  shows "evaluate self source destination = Some (policy_spec self source destination)"
proof -
  have q: "valid_request (source, destination)" using assms by (simp add: valid_request_def)
  show ?thesis
    using evaluate_scan [OF assms] rules.scan_find [OF wf_engine_rules_for [OF assms(1)] q]
    by (simp add: policy_spec_def split: option.split)
qed

lemma wf_engine_new [simp]: "wf_engine PolicyEngine_new"
  by (simp add: wf_engine_def PolicyEngine_new_def)

lemma wf_engine_add:
  "wf_engine self \<Longrightarrow> wf_rule rule \<Longrightarrow> wf_engine (add_namespace_rule self ns rule)"
  by (auto simp: wf_engine_def add_namespace_rule_def ran_def split: option.splits if_splits)

lemma wf_engine_set_global:
  "wf_engine self \<Longrightarrow> list_all wf_rule rules \<Longrightarrow> wf_engine (set_global_policies self rules)"
  by (simp add: wf_engine_def set_global_policies_def)

lemma wf_engine_set_default: "wf_engine self \<Longrightarrow> wf_engine (set_default_decision self d)"
  by (simp add: wf_engine_def set_default_decision_def)

lemmas wf_engine_intros = wf_engine_new wf_engine_add wf_engine_set_global wf_engine_set_default

subsection \<open>What a configured engine decides\<close>

lemma scoped_rules_add [simp]:
  "scoped_rules (add_namespace_rule self ns rule) ns' =
     (if ns' = ns then scoped_rules self ns @ [rule] else scoped_rules self ns')"
  by (simp add: scoped_rules_def add_namespace_rule_def)

lemma scoped_rules_new [simp]: "scoped_rules PolicyEngine_new ns = []"
  by (simp add: scoped_rules_def PolicyEngine_new_def)

lemma scoped_rules_set_global [simp]: "scoped_rules (set_global_policies self rules) ns = scoped_rules self ns"
  by (simp add: scoped_rules_def set_global_policies_def)

lemma global_policies_frame [simp]:
  "global_policies (add_namespace_rule self ns rule) = global_policies self"
  "global_policies (set_global_policies self rules) = rules"
  by (simp_all add: add_namespace_rule_def set_global_policies_def)

lemma default_decision_frame [simp]:
  "default_decision (add_namespace_rule self ns rule) = default_decision self"
  "default_decision (set_global_policies self rules) = default_decision self"
  by (simp_all add: add_namespace_rule_def set_global_policies_def)

text \<open>
  The engines the program can reach while it only adds rules: \<open>configured e R\<close> holds when \<open>e\<close>
  was built from a new engine, \<open>R\<close> being every rule it was ever given.
\<close>

inductive configured :: "PolicyEngine \<Rightarrow> PolicyRule set \<Rightarrow> bool" where
  start: "configured PolicyEngine_new {}"
| add: "configured e R \<Longrightarrow> wf_rule r \<Longrightarrow> configured (add_namespace_rule e ns r) (insert r R)"
| set: "configured e R \<Longrightarrow> list_all wf_rule rs \<Longrightarrow>
    configured (set_global_policies e rs) (R \<union> List.set rs)"

lemma configured_wf: "configured e R \<Longrightarrow> wf_engine e"
  by (induction rule: configured.induct) (auto intro: wf_engine_intros)

lemma configured_default: "configured e R \<Longrightarrow> default_decision e = Deny ''no matching policy''"
  by (induction rule: configured.induct) (simp_all add: PolicyEngine_new_def)

lemma configured_rules: "configured e R \<Longrightarrow> List.set (rules_for e destination) \<subseteq> R"
proof (induction rule: configured.induct)
  case start
  then show ?case by (simp add: rules_for_def scoped_rules_def PolicyEngine_new_def)
next
  case (add e R r ns)
  then show ?case by (auto simp: rules_for_def)
next
  case (set e R rs)
  then show ?case by (auto simp: rules_for_def)
qed

lemma policy_spec_cases:
  "policy_spec self source destination = d \<longleftrightarrow>
     (\<exists>as r bs. rules_for self destination = as @ r # bs \<and> applies r (source, destination)
        \<and> rule_decision r = d \<and> (\<forall>a \<in> List.set as. \<not> applies a (source, destination)))
     \<or> (\<forall>r \<in> List.set (rules_for self destination). \<not> applies r (source, destination))
       \<and> default_decision self = d"
proof (cases "List.find (\<lambda>r. applies r (source, destination)) (rules_for self destination)")
  case None
  then have "\<forall>r \<in> List.set (rules_for self destination). \<not> applies r (source, destination)"
    by (auto simp: find_None_iff)
  with None show ?thesis by (auto simp: policy_spec_def)
next
  case (Some r)
  then obtain as bs where "rules_for self destination = as @ r # bs"
    "applies r (source, destination)" "\<forall>a \<in> List.set as. \<not> applies a (source, destination)"
    by (auto simp: find_Some_split)
  moreover have "rule_decision r' = rule_decision r" if "rules_for self destination = as' @ r' # bs'"
    "applies r' (source, destination)" "\<forall>a \<in> List.set as'. \<not> applies a (source, destination)"
    for as' r' bs'
    using that Some find_first [of as' "\<lambda>r. applies r (source, destination)" r' bs'] by simp
  moreover have "policy_spec self source destination = rule_decision r"
    using Some by (simp add: policy_spec_def)
  ultimately show ?thesis by (metis in_set_conv_decomp)
qed

lemma policy_spec_add:
  "policy_spec (add_namespace_rule self ns rule) source destination =
     (if namespace destination = ns \<and> applies rule (source, destination)
         \<and> (\<forall>r \<in> List.set (scoped_rules self ns). \<not> applies r (source, destination))
      then rule_decision rule else policy_spec self source destination)"
proof -
  let ?P = "\<lambda>r. applies r (source, destination)"
  show ?thesis
  proof (cases "List.find ?P (scoped_rules self ns)")
    case None
    then have "\<forall>r \<in> List.set (scoped_rules self ns). \<not> ?P r" by (auto simp: find_None_iff)
    with None show ?thesis
      by (simp add: policy_spec_def rules_for_def find_append cong: option.case_cong)
  next
    case (Some r)
    then have "\<not> (\<forall>r \<in> List.set (scoped_rules self ns). \<not> ?P r)" by (auto simp: find_Some_iff)
    with Some show ?thesis
      by (auto simp: policy_spec_def rules_for_def find_append cong: option.case_cong)
  qed
qed

subsection \<open>The rule constructors\<close>

lemma applies_compiled:
  assumes "compiled_from (rule_source r) ns sa" and "compiled_from (rule_destination r) ns' sa'"
    and "valid_id source" and "valid_id destination"
  shows "applies r (source, destination) \<longleftrightarrow>
    pattern_spec (pat_trust_domain (rule_source r)) ns sa source \<and>
    pattern_spec (pat_trust_domain (rule_destination r)) ns' sa' destination"
  using matches_compiled_spec [OF assms(1,3)] matches_compiled_spec [OF assms(2,4)]
  by (simp add: applies_def)

lemma pattern_compiled_from:
  assumes "valid_utf8 uri" and "uri_form uri td ns sa"
  obtains cp where "CompiledPattern_from_uri uri = Some (Inr cp)" "compiled_from cp ns sa"
    "pat_trust_domain cp = to_ascii_lowercase td"
proof -
  let ?cp = "\<lparr>pat_trust_domain = to_ascii_lowercase td, pat_namespace = SegmentGlob_new ns,
              pat_service_account = SegmentGlob_new sa\<rparr>"
  have "CompiledPattern_from_uri uri = Some (Inr ?cp)"
    using CompiledPattern_from_uri_iff [OF assms(1)] assms(2) by blast
  moreover have "compiled_from ?cp ns sa"
    using uri_form_valid [OF assms] by (simp add: compiled_from_def)
  ultimately show ?thesis using that by simp
qed

lemma pattern_unwrap_None:
  assumes "valid_utf8 uri"
  shows "(CompiledPattern_from_uri uri \<bind> unwrap) = None \<longleftrightarrow> (\<nexists>td ns sa. uri_form uri td ns sa)"
proof -
  obtain r where r: "CompiledPattern_from_uri uri = Some r"
    using CompiledPattern_from_uri_no_panic [OF assms] by blast
  show ?thesis
  proof (cases r)
    case (Inl e)
    then have "\<nexists>td ns sa. uri_form uri td ns sa"
      using pattern_compiled_from [OF assms] r by (metis Inl_Inr_False option.inject)
    with Inl r show ?thesis by simp
  next
    case (Inr cp)
    with r CompiledPattern_from_uri_iff [OF assms, of cp] show ?thesis by auto
  qed
qed

lemma namespace_uri_form:
  "authority_ok td \<Longrightarrow> segment_ok ns \<Longrightarrow>
     uri_form (''spiffe://'' @ td @ ''/ns/'' @ ns @ ''/sa/*'') td ns ''*''"
  unfolding uri_form_def
  by (intro exI [of _ spiffe_prefix])
     (simp add: eq_ignore_ascii_case_def spiffe_prefix_def segment_ok_def path_delim_def)

lemma namespace_uri_valid:
  "valid_utf8 td \<Longrightarrow> valid_utf8 ns \<Longrightarrow> valid_utf8 (''spiffe://'' @ td @ ''/ns/'' @ ns @ ''/sa/*'')"
  using valid_to_uri [of "SpiffeId_new td ns ''*''"]
  by (simp add: to_uri_def SpiffeId_new_def valid_id_def valid_utf8_all_ascii byte_def)

lemma allow_same_namespace_rule:
  assumes "authority_ok td" and "segment_ok ns" and "valid_utf8 td" and "valid_utf8 ns"
  obtains cp where "allow_same_namespace td ns = Some
      \<lparr>rule_source = cp, rule_destination = cp, rule_decision = Allow,
       rule_description = ''Allow all traffic within namespace '' @ ns\<rparr>"
    "compiled_from cp ns ''*''" "pat_trust_domain cp = to_ascii_lowercase td"
proof -
  let ?uri = "''spiffe://'' @ td @ ''/ns/'' @ ns @ ''/sa/*''"
  obtain cp where "CompiledPattern_from_uri ?uri = Some (Inr cp)" "compiled_from cp ns ''*''"
    "pat_trust_domain cp = to_ascii_lowercase td"
    using pattern_compiled_from [OF namespace_uri_valid namespace_uri_form] assms by metis
  then show ?thesis using that by (simp add: allow_same_namespace_def Let_def)
qed

lemma allow_same_namespace_applies:
  assumes "authority_ok td" and "segment_ok ns" and "valid_utf8 td" and "valid_utf8 ns"
    and "valid_id source" and "valid_id destination"
  shows "\<exists>rule. allow_same_namespace td ns = Some rule \<and> wf_rule rule \<and> rule_decision rule = Allow \<and>
    (applies rule (source, destination) \<longleftrightarrow>
       trust_domain source = to_ascii_lowercase td \<and> glob_match ns (namespace source) \<and>
       trust_domain destination = to_ascii_lowercase td \<and> glob_match ns (namespace destination))"
proof -
  obtain cp where cp: "allow_same_namespace td ns = Some
      \<lparr>rule_source = cp, rule_destination = cp, rule_decision = Allow,
       rule_description = ''Allow all traffic within namespace '' @ ns\<rparr>" (is "_ = Some ?rule")
    "compiled_from cp ns ''*''" "pat_trust_domain cp = to_ascii_lowercase td"
    by (rule allow_same_namespace_rule [OF assms(1-4)])
  have "wf_rule ?rule" using cp(2) by (auto simp: wf_rule_def wf_pattern_def)
  moreover have "applies ?rule (source, destination) \<longleftrightarrow>
       trust_domain source = to_ascii_lowercase td \<and> glob_match ns (namespace source) \<and>
       trust_domain destination = to_ascii_lowercase td \<and> glob_match ns (namespace destination)"
    using applies_compiled [of ?rule ns "''*''" ns "''*''"] cp assms(5,6) segment_ok_nonempty(2) [OF assms(1)]
    by (simp add: pattern_spec_def conj_ac)
  ultimately show ?thesis using cp(1) by auto
qed

subsection \<open>Properties\<close>

text \<open>
  C6. First match wins, in the documented order: \<open>evaluate\<close> never panics on a well-formed engine,
  and its decision is that of the first applicable rule among the rules of the destination's
  namespace followed by the global ones, or the default when none applies.
\<close>

theorem evaluate_first_match:
  assumes "wf_engine self" and "valid_id source" and "valid_id destination"
  shows "\<exists>d. evaluate self source destination = Some d \<and>
    ((\<exists>as r bs. scoped_rules self (namespace destination) @ global_policies self = as @ r # bs
        \<and> applies r (source, destination) \<and> rule_decision r = d
        \<and> (\<forall>a \<in> List.set as. \<not> applies a (source, destination)))
     \<or> (\<forall>r \<in> List.set (scoped_rules self (namespace destination) @ global_policies self).
           \<not> applies r (source, destination)) \<and> default_decision self = d)"
  using evaluate_policy_spec [OF assms] policy_spec_cases [of self source destination]
  unfolding rules_for_def by blast

text \<open>The engine and identities of the witnesses: one namespace rule and one global rule.\<close>

definition sample_web :: SpiffeId where "sample_web = SpiffeId_new ''t'' ''n'' ''web''"
definition sample_api :: SpiffeId where "sample_api = SpiffeId_new ''t'' ''n'' ''api''"

definition deny_web :: PolicyRule where
  "deny_web = \<lparr>rule_source = id_pattern sample_web, rule_destination = CompiledPattern_any,
               rule_decision = Deny ''blocked'', rule_description = []\<rparr>"

definition allow_any :: PolicyRule where
  "allow_any = \<lparr>rule_source = CompiledPattern_any, rule_destination = CompiledPattern_any,
                rule_decision = Allow, rule_description = []\<rparr>"

definition sample_engine :: PolicyEngine where
  "sample_engine = set_global_policies (add_namespace_rule PolicyEngine_new ''n'' deny_web) [allow_any]"

lemma sample_ids: "valid_id sample_web" "valid_id sample_api"
  by (simp_all add: sample_web_def sample_api_def valid_id_def SpiffeId_new_def valid_utf8_all_ascii byte_def)

lemma sample_rules: "wf_rule deny_web" "wf_rule allow_any"
  using compiled_from_any compiled_from_id [OF sample_ids(1)]
  by (auto simp: wf_rule_def deny_web_def allow_any_def wf_pattern_def)

lemma sample_configured: "configured sample_engine {deny_web, allow_any}"
  using configured.set [OF configured.add [OF configured.start sample_rules(1), of "''n''"], of "[allow_any]"]
    sample_rules(2) by (simp add: sample_engine_def insert_commute)

lemma sample_wf: "wf_engine sample_engine"
  using sample_configured by (rule configured_wf)

lemma sample_applies:
  "applies deny_web (sample_web, sample_api)" "\<not> applies deny_web (sample_api, sample_web)" "applies allow_any (sample_api, sample_web)"
  by code_simp+

lemma sample_rules_for:
  "scoped_rules sample_engine ns = (if ns = ''n'' then [deny_web] else [])"
  "global_policies sample_engine = [allow_any]"
  by (simp_all add: sample_engine_def)

theorem evaluate_first_match_witness:
  "evaluate sample_engine sample_web sample_api = Some (Deny ''blocked'')"
proof -
  have d: "rule_decision deny_web = Deny ''blocked''" by (simp add: deny_web_def)
  have n: "namespace sample_api = ''n''" by (simp add: sample_api_def SpiffeId_new_def)
  from evaluate_first_match [OF sample_wf sample_ids]
  obtain d as r bs where e: "evaluate sample_engine sample_web sample_api = Some d"
    "[deny_web, allow_any] = as @ r # bs" "rule_decision r = d" "\<forall>a \<in> List.set as. \<not> applies a (sample_web, sample_api)"
    using sample_applies(1) by (auto simp: sample_rules_for n)
  with sample_applies(1) d show ?thesis by (cases as) auto
qed

text \<open>
  Default deny: on an engine that was only ever given rules, a connection is allowed only if
  one of the rules it was given applies to it and says so.
\<close>

lemma allow_needs_a_rule:
  assumes "configured self R" and "valid_id source" and "valid_id destination"
    and "evaluate self source destination = Some Allow"
  shows "\<exists>r \<in> R. applies r (source, destination) \<and> rule_decision r = Allow"
proof -
  have "policy_spec self source destination = Allow"
    using evaluate_policy_spec [OF configured_wf [OF assms(1)] assms(2,3)] assms(4) by simp
  then obtain as r bs where "rules_for self destination = as @ r # bs" "applies r (source, destination)"
    "rule_decision r = Allow"
    using configured_default [OF assms(1)] unfolding policy_spec_cases by auto
  then show ?thesis using configured_rules [OF assms(1), of destination] by auto
qed

text \<open>
  Adding a namespace rule changes the decision exactly for the requests into that namespace to
  which the new rule applies and no earlier rule of the namespace did; every other decision
  stays.
\<close>

lemma add_namespace_rule_effect:
  assumes "wf_engine self" and "wf_rule rule" and "valid_id source" and "valid_id destination"
  shows "evaluate (add_namespace_rule self ns rule) source destination =
    (if namespace destination = ns \<and> applies rule (source, destination)
        \<and> (\<forall>r \<in> List.set (scoped_rules self ns). \<not> applies r (source, destination))
     then Some (rule_decision rule) else evaluate self source destination)"
  using evaluate_policy_spec [OF assms(1,3,4)]
    evaluate_policy_spec [OF wf_engine_add [OF assms(1,2)] assms(3,4), of ns]
  by (simp add: policy_spec_add)

text \<open>
  \<open>patterns::allow_same_namespace\<close> does not panic on a well-formed trust domain and namespace,
  and its rule applies exactly to pairs of identities of that trust domain (in lower case) whose
  namespaces both match the given one.
\<close>

lemma allow_same_namespace_meaning:
  assumes "authority_ok td" and "segment_ok ns" and "valid_utf8 td" and "valid_utf8 ns"
  shows "\<exists>rule. allow_same_namespace td ns = Some rule \<and> wf_rule rule \<and> rule_decision rule = Allow \<and>
    (\<forall>source destination. valid_id source \<and> valid_id destination \<longrightarrow>
       (applies rule (source, destination) \<longleftrightarrow>
          trust_domain source = to_ascii_lowercase td \<and> glob_match ns (namespace source) \<and>
          trust_domain destination = to_ascii_lowercase td \<and> glob_match ns (namespace destination)))"
  using allow_same_namespace_applies [OF assms] sample_ids by (metis option.inject)

text \<open>
  The constructors \<open>patterns::allow\<close> and \<open>patterns::deny\<close> panic exactly when a URI they are given
  is not a well-formed pattern, which their \<open>unwrap\<close> does not allow for.
\<close>

lemma constructors_panic_iff:
  assumes "valid_utf8 from_uri" and "valid_utf8 to_uri_pat"
  shows "(allow from_uri to_uri_pat description = None \<longleftrightarrow>
       (\<nexists>td ns sa. uri_form from_uri td ns sa) \<or> (\<nexists>td ns sa. uri_form to_uri_pat td ns sa))
    \<and> (deny from_uri description = None \<longleftrightarrow> (\<nexists>td ns sa. uri_form from_uri td ns sa))"
  using pattern_unwrap_None [OF assms(1)] pattern_unwrap_None [OF assms(2)]
  by (auto simp: allow_def deny_def bind_eq_None_conv)

end
