(* ===== verification/Metrics.thy ===== *)
theory Metrics
  imports Policy
begin

text \<open>
  \<open>src/metrics/mod.rs\<close>: the process-wide metrics. Counters are unsigned 64-bit and wrap, the
  gauge is signed, a histogram is the list of its observations (durations in nanoseconds, the
  latest first). The recording functions update the record they are given; the registry and
  the Prometheus exporter are outside the model except for the address it listens on.
\<close>

type_synonym duration = nat

record InterlinkMetrics =
  connections_total :: "64 word"
  connection_errors_total :: "64 word"
  connections_active :: int
  handshakes_total :: "64 word"
  bytes_total :: "64 word"
  connection_duration :: "duration list"
  handshake_duration :: "duration list"
  policy_allowed_total :: "64 word"
  policy_denied_total :: "64 word"
  saturation_rejections_total :: "64 word"
  handshake_full_total :: "64 word"
  handshake_resumed_total :: "64 word"
  mux_tunnels_opened_total :: "64 word"
  mux_streams_total :: "64 word"

definition InterlinkMetrics_new :: InterlinkMetrics where
  "InterlinkMetrics_new =
     \<lparr>connections_total = 0, connection_errors_total = 0, connections_active = 0,
      handshakes_total = 0, bytes_total = 0, connection_duration = [], handshake_duration = [],
      policy_allowed_total = 0, policy_denied_total = 0, saturation_rejections_total = 0,
      handshake_full_total = 0, handshake_resumed_total = 0, mux_tunnels_opened_total = 0,
      mux_streams_total = 0\<rparr>"

text \<open>
  The sum of the two byte counts wraps, as in the release profile; a build with overflow checks
  would panic for a connection that has relayed 2^64 bytes.
\<close>

definition record_connection :: "64 word \<Rightarrow> 64 word \<Rightarrow> duration \<Rightarrow> InterlinkMetrics \<Rightarrow> InterlinkMetrics" where
  "record_connection bytes_up bytes_down d m =
     m\<lparr>connection_duration := d # connection_duration m,
       connections_total := connections_total m + 1,
       bytes_total := bytes_total m + (bytes_up + bytes_down),
       connections_active := connections_active m - 1\<rparr>"

definition record_connection_failed :: "InterlinkMetrics \<Rightarrow> InterlinkMetrics" where
  "record_connection_failed m =
     m\<lparr>connections_total := connections_total m + 1,
       connection_errors_total := connection_errors_total m + 1,
       connections_active := connections_active m - 1\<rparr>"

definition record_connection_start :: "InterlinkMetrics \<Rightarrow> InterlinkMetrics" where
  "record_connection_start m = m\<lparr>connections_active := connections_active m + 1\<rparr>"

definition record_handshake :: "duration \<Rightarrow> InterlinkMetrics \<Rightarrow> InterlinkMetrics" where
  "record_handshake d m =
     m\<lparr>handshake_duration := d # handshake_duration m, handshakes_total := handshakes_total m + 1\<rparr>"

definition record_handshake_error :: "InterlinkMetrics \<Rightarrow> InterlinkMetrics" where
  "record_handshake_error m = m\<lparr>handshakes_total := handshakes_total m + 1\<rparr>"

definition record_handshake_kind :: "bool \<Rightarrow> InterlinkMetrics \<Rightarrow> InterlinkMetrics" where
  "record_handshake_kind resumed m =
     (if resumed then m\<lparr>handshake_resumed_total := handshake_resumed_total m + 1\<rparr>
      else m\<lparr>handshake_full_total := handshake_full_total m + 1\<rparr>)"

definition record_tunnel_closed :: "InterlinkMetrics \<Rightarrow> InterlinkMetrics" where
  "record_tunnel_closed m = m\<lparr>connections_active := connections_active m - 1\<rparr>"

definition record_mux_tunnel_opened :: "InterlinkMetrics \<Rightarrow> InterlinkMetrics" where
  "record_mux_tunnel_opened m = m\<lparr>mux_tunnels_opened_total := mux_tunnels_opened_total m + 1\<rparr>"

definition record_mux_stream :: "InterlinkMetrics \<Rightarrow> InterlinkMetrics" where
  "record_mux_stream m = m\<lparr>mux_streams_total := mux_streams_total m + 1\<rparr>"

definition record_saturation_rejection :: "InterlinkMetrics \<Rightarrow> InterlinkMetrics" where
  "record_saturation_rejection m = m\<lparr>saturation_rejections_total := saturation_rejections_total m + 1\<rparr>"

definition record_policy :: "Decision \<Rightarrow> InterlinkMetrics \<Rightarrow> InterlinkMetrics" where
  "record_policy d m =
     (case d of
        Allow \<Rightarrow> m\<lparr>policy_allowed_total := policy_allowed_total m + 1\<rparr>
      | Deny _ \<Rightarrow> m\<lparr>policy_denied_total := policy_denied_total m + 1\<rparr>)"

text \<open>\<open>record_relay_result\<close> of \<open>src/proxy/mod.rs\<close>: the accounting of one relay. The
  result is handed back as given; the callers only log it.\<close>

definition record_relay_result ::
  "(IoError, 64 word \<times> 64 word) result \<Rightarrow> duration \<Rightarrow> InterlinkMetrics \<Rightarrow> InterlinkMetrics" where
  "record_relay_result r elapsed m =
     (case r of
        Inr (bytes_up, bytes_down) \<Rightarrow> record_connection bytes_up bytes_down elapsed m
      | Inl _ \<Rightarrow> record_connection_failed m)"

subsection \<open>Accounting\<close>

lemmas metric_defs = record_connection_def record_connection_failed_def record_connection_start_def
  record_handshake_def record_handshake_error_def record_handshake_kind_def record_tunnel_closed_def
  record_mux_tunnel_opened_def record_mux_stream_def record_saturation_rejection_def record_policy_def

lemma connections_active_simps [metrics_simps]:
  "connections_active (record_connection u d t m) = connections_active m - 1"
  "connections_active (record_connection_failed m) = connections_active m - 1"
  "connections_active (record_connection_start m) = connections_active m + 1"
  "connections_active (record_handshake t m) = connections_active m"
  "connections_active (record_handshake_error m) = connections_active m"
  "connections_active (record_handshake_kind b m) = connections_active m"
  "connections_active (record_tunnel_closed m) = connections_active m - 1"
  "connections_active (record_mux_tunnel_opened m) = connections_active m"
  "connections_active (record_mux_stream m) = connections_active m"
  "connections_active (record_saturation_rejection m) = connections_active m"
  "connections_active (record_policy dec m) = connections_active m"
  by (simp_all add: metric_defs split: Decision.split)

lemma connections_total_simps [metrics_simps]:
  "connections_total (record_connection u d t m) = connections_total m + 1"
  "connections_total (record_connection_failed m) = connections_total m + 1"
  "connections_total (record_connection_start m) = connections_total m"
  "connections_total (record_handshake t m) = connections_total m"
  "connections_total (record_handshake_error m) = connections_total m"
  "connections_total (record_handshake_kind b m) = connections_total m"
  "connections_total (record_tunnel_closed m) = connections_total m"
  "connections_total (record_mux_tunnel_opened m) = connections_total m"
  "connections_total (record_mux_stream m) = connections_total m"
  "connections_total (record_saturation_rejection m) = connections_total m"
  "connections_total (record_policy dec m) = connections_total m"
  by (simp_all add: metric_defs split: Decision.split)

lemma connection_duration_simps [metrics_simps]:
  "connection_duration (record_connection u d t m) = t # connection_duration m"
  "connection_duration (record_connection_failed m) = connection_duration m"
  "connection_duration (record_connection_start m) = connection_duration m"
  "connection_duration (record_handshake t m) = connection_duration m"
  "connection_duration (record_handshake_error m) = connection_duration m"
  "connection_duration (record_handshake_kind b m) = connection_duration m"
  "connection_duration (record_tunnel_closed m) = connection_duration m"
  "connection_duration (record_mux_tunnel_opened m) = connection_duration m"
  "connection_duration (record_mux_stream m) = connection_duration m"
  "connection_duration (record_saturation_rejection m) = connection_duration m"
  "connection_duration (record_policy dec m) = connection_duration m"
  by (simp_all add: metric_defs split: Decision.split)

lemma connection_errors_total_simps [metrics_simps]:
  "connection_errors_total (record_connection u d t m) = connection_errors_total m"
  "connection_errors_total (record_connection_failed m) = connection_errors_total m + 1"
  "connection_errors_total (record_connection_start m) = connection_errors_total m"
  "connection_errors_total (record_handshake t m) = connection_errors_total m"
  "connection_errors_total (record_handshake_error m) = connection_errors_total m"
  "connection_errors_total (record_handshake_kind b m) = connection_errors_total m"
  "connection_errors_total (record_tunnel_closed m) = connection_errors_total m"
  "connection_errors_total (record_mux_tunnel_opened m) = connection_errors_total m"
  "connection_errors_total (record_mux_stream m) = connection_errors_total m"
  "connection_errors_total (record_saturation_rejection m) = connection_errors_total m"
  "connection_errors_total (record_policy dec m) = connection_errors_total m"
  by (simp_all add: metric_defs split: Decision.split)

lemma record_relay_result_simps [metrics_simps]:
  "connections_active (record_relay_result r t m) = connections_active m - 1"
  "connections_total (record_relay_result r t m) = connections_total m + 1"
  "connection_duration (record_relay_result r t m) =
     (if is_ok r then t # connection_duration m else connection_duration m)"
  "connection_errors_total (record_relay_result r t m) =
     connection_errors_total m + (if is_ok r then 0 else 1)"
  by (simp_all add: record_relay_result_def metrics_simps split: sum.split prod.split)

end
