(* ===== verification/Runtime_Config.thy ===== *)
theory Runtime_Config
  imports Spiffe_Id
begin

text \<open>
  \<open>src/common/config.rs\<close> and \<open>src/proxy/config.rs\<close>: the layered configuration. The process
  environment, the file system and the JSON decoder are arguments: \<open>env_var\<close> is
  \<open>std::env::var\<close> (\<open>None\<close> when the variable is unset or not Unicode), \<open>from_json\<close> is
  \<open>serde_json::from_str\<close> with its error already rendered.
\<close>

record Config =
  cfg_trust_domain :: string
  cfg_identity :: "string option"
  cfg_proxy_inbound_port :: "16 word"
  cfg_proxy_outbound_port :: "16 word"
  cfg_metrics_port :: "16 word"
  cfg_log_level :: string
  cfg_max_connections :: "64 word"
  cfg_ca_bundle_path :: "string option"
  cfg_cert_path :: "string option"
  cfg_key_path :: "string option"
  cfg_default_upstream :: "string option"
  cfg_mux :: bool

record ProxyConfig =
  px_trust_domain :: string
  px_identity :: "string option"
  px_default_upstream :: "string option"
  px_max_connections :: "64 word option"
  px_mux :: bool

record config_world =
  env_var :: "string \<Rightarrow> string option"
  path_exists :: "string \<Rightarrow> bool"
  read_to_string :: "string \<Rightarrow> (IoError, string) result"
  from_json :: "string \<Rightarrow> (string, Config) result"
  show_tls_error :: "TlsError \<Rightarrow> string"

definition default_mux_true :: bool where
  "default_mux_true = True"

definition Config_default :: Config where
  "Config_default =
     \<lparr>cfg_trust_domain = ''cluster.local'', cfg_identity = None,
      cfg_proxy_inbound_port = INBOUND_PROXY, cfg_proxy_outbound_port = OUTBOUND_PROXY,
      cfg_metrics_port = METRICS_PORT, cfg_log_level = ''info'', cfg_max_connections = 1024,
      cfg_ca_bundle_path = None, cfg_cert_path = None, cfg_key_path = None,
      cfg_default_upstream = None, cfg_mux = True\<rparr>"

definition ProxyConfig_default :: ProxyConfig where
  "ProxyConfig_default =
     \<lparr>px_trust_domain = ''cluster.local'', px_identity = None, px_default_upstream = None,
      px_max_connections = Some 1024, px_mux = True\<rparr>"

definition parse_port :: "string \<Rightarrow> (InterlinkError, 16 word) result" where
  "parse_port s =
     map_err (\<lambda>e. ConfigError (''invalid port '' @ [CHR 0x27] @ s @ [CHR 0x27] @ '': '' @ parse_int_text e))
             (parse_u16 s)"

definition keep_if_none :: "'a option \<Rightarrow> 'a option \<Rightarrow> 'a option" where
  "keep_if_none new old = (if new \<noteq> None then new else old)"

definition with_file :: "config_world \<Rightarrow> Config \<Rightarrow> string \<Rightarrow> (InterlinkError, Config) result" where
  "with_file w self path =
     and_then (map_err (\<lambda>e. ConfigError (''failed to read config file: '' @ io_text e))
                       (read_to_string w path)) (\<lambda>contents.
     and_then (map_err (\<lambda>e. ConfigError (''invalid config file: '' @ e)) (from_json w contents))
       (\<lambda>file_cfg. Inr
         \<lparr>cfg_trust_domain = cfg_trust_domain file_cfg,
          cfg_identity = keep_if_none (cfg_identity file_cfg) (cfg_identity self),
          cfg_proxy_inbound_port = cfg_proxy_inbound_port file_cfg,
          cfg_proxy_outbound_port = cfg_proxy_outbound_port file_cfg,
          cfg_metrics_port = cfg_metrics_port file_cfg,
          cfg_log_level = cfg_log_level file_cfg,
          cfg_max_connections = cfg_max_connections file_cfg,
          cfg_ca_bundle_path = keep_if_none (cfg_ca_bundle_path file_cfg) (cfg_ca_bundle_path self),
          cfg_cert_path = keep_if_none (cfg_cert_path file_cfg) (cfg_cert_path self),
          cfg_key_path = keep_if_none (cfg_key_path file_cfg) (cfg_key_path self),
          cfg_default_upstream = keep_if_none (cfg_default_upstream file_cfg) (cfg_default_upstream self),
          cfg_mux = cfg_mux file_cfg\<rparr>))"

text \<open>
  The two shapes of an override: \<open>if let Ok(v) = env::var(..)\<close> followed by a plain assignment,
  and the same with a parse that may return early.
\<close>

definition env_set :: "config_world \<Rightarrow> string \<Rightarrow> (string \<Rightarrow> Config \<Rightarrow> Config) \<Rightarrow> Config \<Rightarrow> Config" where
  "env_set w name assign self =
     (case env_var w name of None \<Rightarrow> self | Some v \<Rightarrow> assign v self)"

definition env_parse ::
  "config_world \<Rightarrow> string \<Rightarrow> (string \<Rightarrow> (InterlinkError, 'n) result) \<Rightarrow> ('n \<Rightarrow> Config \<Rightarrow> Config)
     \<Rightarrow> Config \<Rightarrow> (InterlinkError, Config) result" where
  "env_parse w name parse assign self =
     (case env_var w name of
        None \<Rightarrow> Inr self
      | Some v \<Rightarrow> and_then (parse v) (\<lambda>n. Inr (assign n self)))"

definition parse_max_connections :: "string \<Rightarrow> (InterlinkError, 64 word) result" where
  "parse_max_connections v =
     map_err (\<lambda>e. ConfigError (''INTERLINK_MAX_CONNECTIONS: '' @ parse_int_text e)) (parse_usize v)"

definition with_env :: "config_world \<Rightarrow> Config \<Rightarrow> (InterlinkError, Config) result" where
  "with_env w self =
     (let self = env_set w ''INTERLINK_TRUST_DOMAIN'' (\<lambda>v c. c\<lparr>cfg_trust_domain := v\<rparr>) self;
          self = env_set w ''INTERLINK_IDENTITY'' (\<lambda>v c. c\<lparr>cfg_identity := Some v\<rparr>) self in
      and_then (env_parse w ''INTERLINK_PROXY_INBOUND_PORT'' parse_port
                  (\<lambda>p c. c\<lparr>cfg_proxy_inbound_port := p\<rparr>) self) (\<lambda>self.
      and_then (env_parse w ''INTERLINK_PROXY_OUTBOUND_PORT'' parse_port
                  (\<lambda>p c. c\<lparr>cfg_proxy_outbound_port := p\<rparr>) self) (\<lambda>self.
      and_then (env_parse w ''INTERLINK_METRICS_PORT'' parse_port
                  (\<lambda>p c. c\<lparr>cfg_metrics_port := p\<rparr>) self) (\<lambda>self.
      let self = env_set w ''INTERLINK_LOG_LEVEL'' (\<lambda>v c. c\<lparr>cfg_log_level := v\<rparr>) self in
      and_then (env_parse w ''INTERLINK_MAX_CONNECTIONS'' parse_max_connections
                  (\<lambda>n c. c\<lparr>cfg_max_connections := n\<rparr>) self) (\<lambda>self.
      let self = env_set w ''INTERLINK_CA_BUNDLE_PATH'' (\<lambda>v c. c\<lparr>cfg_ca_bundle_path := Some v\<rparr>) self;
          self = env_set w ''INTERLINK_CERT_PATH'' (\<lambda>v c. c\<lparr>cfg_cert_path := Some v\<rparr>) self;
          self = env_set w ''INTERLINK_KEY_PATH'' (\<lambda>v c. c\<lparr>cfg_key_path := Some v\<rparr>) self;
          self = env_set w ''INTERLINK_DEFAULT_UPSTREAM'' (\<lambda>v c. c\<lparr>cfg_default_upstream := Some v\<rparr>) self;
          self = env_set w ''INTERLINK_MUX'' (\<lambda>v c. c\<lparr>cfg_mux := (v \<noteq> ''false'' \<and> v \<noteq> ''0'')\<rparr>) self in
      Inr self)))))"

definition to_proxy_config :: "Config \<Rightarrow> ProxyConfig" where
  "to_proxy_config self =
     \<lparr>px_trust_domain = cfg_trust_domain self, px_identity = cfg_identity self,
      px_default_upstream = cfg_default_upstream self,
      px_max_connections = Some (cfg_max_connections self), px_mux = cfg_mux self\<rparr>"

definition validate :: "config_world \<Rightarrow> Config \<Rightarrow> (InterlinkError, unit) result panicky" where
  "validate w self =
     (if cfg_trust_domain self = [] then Some (Inl (ConfigError ''trust_domain must not be empty''))
      else if cfg_max_connections self = 0 then Some (Inl (ConfigError ''max_connections must be > 0''))
      else (case cfg_identity self of
              None \<Rightarrow> Some (Inr ())
            | Some ident \<Rightarrow> do {
                r \<leftarrow> SpiffeId_from_uri ident;
                Some (and_then (map_err (\<lambda>e. ConfigError (''invalid INTERLINK_IDENTITY: ''
                        @ display_error (show_tls_error w) e)) r) (\<lambda>_. Inr ()))
              }))"

definition default_config_path :: string where
  "default_config_path = ''/etc/interlink/config.json''"

definition config_file :: "config_world \<Rightarrow> string" where
  "config_file w =
     (case env_var w ''INTERLINK_CONFIG_FILE'' of
        Some s \<Rightarrow> if s \<noteq> [] then s else default_config_path
      | None \<Rightarrow> default_config_path)"

definition load :: "config_world \<Rightarrow> (InterlinkError, Config) result panicky" where
  "load w =
     (let cfg = Config_default; path = config_file w in
      case (if path_exists w path then with_file w cfg path else Inr cfg) of
        Inl e \<Rightarrow> Some (Inl e)
      | Inr cfg \<Rightarrow>
          (case with_env w cfg of
             Inl e \<Rightarrow> Some (Inl e)
           | Inr cfg \<Rightarrow> do {
               r \<leftarrow> validate w cfg;
               Some (and_then r (\<lambda>_. Inr cfg))
             }))"

subsection \<open>Precedence\<close>

text \<open>
  The reference meaning of the layers: a text setting is the environment's when set, else the
  base's; a numeric one is the parse of the environment's text when set, else the base's.
\<close>

definition env_text :: "config_world \<Rightarrow> string \<Rightarrow> (string \<Rightarrow> 'a) \<Rightarrow> 'a \<Rightarrow> 'a" where
  "env_text w name f base = (case env_var w name of None \<Rightarrow> base | Some v \<Rightarrow> f v)"

definition env_num ::
  "config_world \<Rightarrow> string \<Rightarrow> (string \<Rightarrow> (InterlinkError, 'n) result) \<Rightarrow> 'n \<Rightarrow> (InterlinkError, 'n) result" where
  "env_num w name parse base = (case env_var w name of None \<Rightarrow> Inr base | Some v \<Rightarrow> parse v)"

lemma env_set_field:
  assumes "\<And>c. assign_field (field c) c = c"
  shows "env_set w name (\<lambda>v c. assign_field (f v) c) self = assign_field (env_text w name f (field self)) self"
  using assms by (simp add: env_set_def env_text_def split: option.split)

lemma env_parse_field:
  assumes "\<And>c. assign_field (field c) c = c"
  shows "env_parse w name parse assign_field self =
    and_then (env_num w name parse (field self)) (\<lambda>n. Inr (assign_field n self))"
  using assms by (simp add: env_parse_def env_num_def split: option.split)

definition env_layer ::
  "config_world \<Rightarrow> Config \<Rightarrow> 16 word \<Rightarrow> 16 word \<Rightarrow> 16 word \<Rightarrow> 64 word \<Rightarrow> Config" where
  "env_layer w base inbound outbound metrics max_conn =
     \<lparr>cfg_trust_domain = env_text w ''INTERLINK_TRUST_DOMAIN'' (\<lambda>v. v) (cfg_trust_domain base),
      cfg_identity = env_text w ''INTERLINK_IDENTITY'' Some (cfg_identity base),
      cfg_proxy_inbound_port = inbound, cfg_proxy_outbound_port = outbound, cfg_metrics_port = metrics,
      cfg_log_level = env_text w ''INTERLINK_LOG_LEVEL'' (\<lambda>v. v) (cfg_log_level base),
      cfg_max_connections = max_conn,
      cfg_ca_bundle_path = env_text w ''INTERLINK_CA_BUNDLE_PATH'' Some (cfg_ca_bundle_path base),
      cfg_cert_path = env_text w ''INTERLINK_CERT_PATH'' Some (cfg_cert_path base),
      cfg_key_path = env_text w ''INTERLINK_KEY_PATH'' Some (cfg_key_path base),
      cfg_default_upstream = env_text w ''INTERLINK_DEFAULT_UPSTREAM'' Some (cfg_default_upstream base),
      cfg_mux = env_text w ''INTERLINK_MUX'' (\<lambda>v. v \<noteq> ''false'' \<and> v \<noteq> ''0'') (cfg_mux base)\<rparr>"

lemmas env_fields =
  env_set_field [where field = cfg_trust_domain and assign_field = "\<lambda>x c. c\<lparr>cfg_trust_domain := x\<rparr>", simplified]
  env_set_field [where field = cfg_identity and assign_field = "\<lambda>x c. c\<lparr>cfg_identity := x\<rparr>", simplified]
  env_set_field [where field = cfg_log_level and assign_field = "\<lambda>x c. c\<lparr>cfg_log_level := x\<rparr>", simplified]
  env_set_field [where field = cfg_ca_bundle_path and assign_field = "\<lambda>x c. c\<lparr>cfg_ca_bundle_path := x\<rparr>", simplified]
  env_set_field [where field = cfg_cert_path and assign_field = "\<lambda>x c. c\<lparr>cfg_cert_path := x\<rparr>", simplified]
  env_set_field [where field = cfg_key_path and assign_field = "\<lambda>x c. c\<lparr>cfg_key_path := x\<rparr>", simplified]
  env_set_field [where field = cfg_default_upstream and assign_field = "\<lambda>x c. c\<lparr>cfg_default_upstream := x\<rparr>", simplified]
  env_set_field [where field = cfg_mux and assign_field = "\<lambda>x c. c\<lparr>cfg_mux := x\<rparr>", simplified]
  env_parse_field [where field = cfg_proxy_inbound_port and assign_field = "\<lambda>x c. c\<lparr>cfg_proxy_inbound_port := x\<rparr>", simplified]
  env_parse_field [where field = cfg_proxy_outbound_port and assign_field = "\<lambda>x c. c\<lparr>cfg_proxy_outbound_port := x\<rparr>", simplified]
  env_parse_field [where field = cfg_metrics_port and assign_field = "\<lambda>x c. c\<lparr>cfg_metrics_port := x\<rparr>", simplified]
  env_parse_field [where field = cfg_max_connections and assign_field = "\<lambda>x c. c\<lparr>cfg_max_connections := x\<rparr>", simplified]

lemma with_env_layer:
  "with_env w base =
     and_then (env_num w ''INTERLINK_PROXY_INBOUND_PORT'' parse_port (cfg_proxy_inbound_port base)) (\<lambda>inbound.
     and_then (env_num w ''INTERLINK_PROXY_OUTBOUND_PORT'' parse_port (cfg_proxy_outbound_port base)) (\<lambda>outbound.
     and_then (env_num w ''INTERLINK_METRICS_PORT'' parse_port (cfg_metrics_port base)) (\<lambda>metrics.
     and_then (env_num w ''INTERLINK_MAX_CONNECTIONS'' parse_max_connections (cfg_max_connections base)) (\<lambda>max_conn.
     Inr (env_layer w base inbound outbound metrics max_conn)))))"
  unfolding with_env_def Let_def env_layer_def
  by (simp add: env_fields and_then_def split: sum.split)

definition admissible :: "Config \<Rightarrow> bool" where
  "admissible cfg = (cfg_trust_domain cfg \<noteq> [] \<and> cfg_max_connections cfg \<noteq> 0
     \<and> (\<forall>i. cfg_identity cfg = Some i \<longrightarrow> (\<exists>ident. SpiffeId_from_uri i = Some (Inr ident))))"

lemma and_then_unit [simp]: "and_then r (\<lambda>_. Inr ()) = Inr () \<longleftrightarrow> is_ok r"
  by (cases r) simp_all

lemma is_ok_map_err [simp]: "is_ok (map_err f r) = is_ok r"
  by (cases r) simp_all

lemma validate_ok_iff: "validate w cfg = Some (Inr ()) \<longleftrightarrow> admissible cfg"
proof (cases "cfg_identity cfg")
  case None
  then show ?thesis by (simp add: validate_def admissible_def)
next
  case (Some i)
  then show ?thesis
    by (cases "SpiffeId_from_uri i") (auto simp: validate_def admissible_def is_ok_iff)
qed

text \<open>The layers below the environment: the defaults, and the file when it exists.\<close>

definition file_layer :: "config_world \<Rightarrow> (InterlinkError, Config) result" where
  "file_layer w = (if path_exists w (config_file w) then with_file w Config_default (config_file w)
                   else Inr Config_default)"

lemma load_layers:
  "load w = (case and_then (file_layer w) (with_env w) of
               Inl e \<Rightarrow> Some (Inl e)
             | Inr cfg \<Rightarrow> do { r \<leftarrow> validate w cfg; Some (and_then r (\<lambda>_. Inr cfg)) })"
  by (simp add: load_def file_layer_def Let_def and_then_def split: sum.split)

lemma load_ok_iff:
  "load w = Some (Inr cfg) \<longleftrightarrow> and_then (file_layer w) (with_env w) = Inr cfg \<and> admissible cfg"
proof (cases "and_then (file_layer w) (with_env w)")
  case (Inl e)
  then show ?thesis by (simp add: load_layers)
next
  case (Inr c)
  have "validate w c = Some (Inr u) \<longleftrightarrow> admissible c" for u using validate_ok_iff by simp
  with Inr show ?thesis by (auto simp: load_layers bind_eq_Some_conv and_then_Inr_iff)
qed

subsection \<open>The documented precedence\<close>

text \<open>
  The documentation of \<open>load\<close> setting by setting: the environment before the file before the built-in
  default, and for an optional setting nothing. \<open>f\<close> is what the file says, \<open>None\<close> without a file.
\<close>

definition first_set :: "'a option list \<Rightarrow> 'a option" where
  "first_set = first_some (\<lambda>x. x)"

lemma first_set_simps [simp]:
  "first_set [] = None" "first_set (Some x # xs) = Some x" "first_set (None # xs) = first_set xs"
  by (simp_all add: first_set_def)

lemma first_set_single [simp]: "first_set [x] = x"
  by (cases x) simp_all

definition number_set :: "config_world \<Rightarrow> string \<Rightarrow> nat option \<Rightarrow> nat \<Rightarrow> nat \<Rightarrow> bool" where
  "number_set w name from_file builtin n =
     (case env_var w name of
        Some v \<Rightarrow> reads_number v n
      | None \<Rightarrow> Some n = first_set [from_file, Some builtin])"

definition file_says :: "config_world \<Rightarrow> Config option \<Rightarrow> bool" where
  "file_says w f =
     (let path = (case env_var w ''INTERLINK_CONFIG_FILE'' of
                    Some s \<Rightarrow> if s = [] then ''/etc/interlink/config.json'' else s
                  | None \<Rightarrow> ''/etc/interlink/config.json'') in
      if path_exists w path
      then (\<exists>contents c. read_to_string w path = Inr contents \<and> from_json w contents = Inr c \<and> f = Some c)
      else f = None)"

definition settings :: "config_world \<Rightarrow> Config option \<Rightarrow> Config \<Rightarrow> bool" where
  "settings w f cfg =
     (Some (cfg_trust_domain cfg) =
        first_set [env_var w ''INTERLINK_TRUST_DOMAIN'', map_option cfg_trust_domain f, Some ''cluster.local'']
      \<and> cfg_identity cfg = first_set [env_var w ''INTERLINK_IDENTITY'', Option.bind f cfg_identity]
      \<and> number_set w ''INTERLINK_PROXY_INBOUND_PORT'' (map_option (\<lambda>c. unat (cfg_proxy_inbound_port c)) f) 4143
          (unat (cfg_proxy_inbound_port cfg))
      \<and> number_set w ''INTERLINK_PROXY_OUTBOUND_PORT'' (map_option (\<lambda>c. unat (cfg_proxy_outbound_port c)) f) 4140
          (unat (cfg_proxy_outbound_port cfg))
      \<and> number_set w ''INTERLINK_METRICS_PORT'' (map_option (\<lambda>c. unat (cfg_metrics_port c)) f) 4190
          (unat (cfg_metrics_port cfg))
      \<and> Some (cfg_log_level cfg) = first_set [env_var w ''INTERLINK_LOG_LEVEL'', map_option cfg_log_level f, Some ''info'']
      \<and> number_set w ''INTERLINK_MAX_CONNECTIONS'' (map_option (\<lambda>c. unat (cfg_max_connections c)) f) 1024
          (unat (cfg_max_connections cfg))
      \<and> cfg_ca_bundle_path cfg = first_set [env_var w ''INTERLINK_CA_BUNDLE_PATH'', Option.bind f cfg_ca_bundle_path]
      \<and> cfg_cert_path cfg = first_set [env_var w ''INTERLINK_CERT_PATH'', Option.bind f cfg_cert_path]
      \<and> cfg_key_path cfg = first_set [env_var w ''INTERLINK_KEY_PATH'', Option.bind f cfg_key_path]
      \<and> cfg_default_upstream cfg = first_set [env_var w ''INTERLINK_DEFAULT_UPSTREAM'', Option.bind f cfg_default_upstream]
      \<and> Some (cfg_mux cfg) = first_set [map_option (\<lambda>v. v \<noteq> ''false'' \<and> v \<noteq> ''0'') (env_var w ''INTERLINK_MUX''),
          map_option cfg_mux f, Some True])"

text \<open>The layer below the environment, as the file and the defaults make it.\<close>

definition base_of :: "Config option \<Rightarrow> Config" where
  "base_of f = (case f of None \<Rightarrow> Config_default | Some c \<Rightarrow> c)"

lemma keep_if_none_None [simp]: "keep_if_none x None = x"
  by (simp add: keep_if_none_def)

lemma config_file_path:
  "config_file w = (case env_var w ''INTERLINK_CONFIG_FILE'' of
      Some s \<Rightarrow> if s = [] then ''/etc/interlink/config.json'' else s
    | None \<Rightarrow> ''/etc/interlink/config.json'')"
  by (simp add: config_file_def default_config_path_def split: option.split)

lemma file_layer_says: "file_layer w = Inr base \<longleftrightarrow> (\<exists>f. file_says w f \<and> base = base_of f)"
  unfolding file_layer_def file_says_def config_file_path [symmetric] Let_def
  by (auto simp: with_file_def and_then_Inr_iff base_of_def Config_default_def)

lemma text_set:
  "x = env_text w name (\<lambda>v. v) (field (base_of f)) \<longleftrightarrow>
     Some x = first_set [env_var w name, map_option field f, Some (field Config_default)]"
  by (cases f; cases "env_var w name") (simp_all add: env_text_def base_of_def)

lemma optional_set:
  assumes "field Config_default = None"
  shows "x = env_text w name Some (field (base_of f)) \<longleftrightarrow> x = first_set [env_var w name, Option.bind f field]"
  using assms by (cases f; cases "env_var w name") (simp_all add: env_text_def base_of_def)

lemma switch_set:
  "x = env_text w name g (field (base_of f)) \<longleftrightarrow>
     Some x = first_set [map_option g (env_var w name), map_option field f, Some (field Config_default)]"
  by (cases f; cases "env_var w name") (simp_all add: env_text_def base_of_def)

lemma number_set_base:
  assumes "\<And>v n. parse v = Inr n \<longleftrightarrow> reads_number v (unat n)" and "unat (field Config_default) = builtin"
  shows "env_num w name parse (field (base_of f)) = Inr (n :: 'a :: len word) \<longleftrightarrow>
     number_set w name (map_option (\<lambda>c. unat (field c)) f) builtin (unat n)"
  by (cases f; cases "env_var w name") (auto simp: number_set_def base_of_def env_num_def assms(2) [symmetric] assms(1)
      dest: unsigned_word_eqI)

lemma parse_numbers:
  "parse_port v = Inr p \<longleftrightarrow> reads_number v (unat p)" "parse_max_connections v = Inr m \<longleftrightarrow> reads_number v (unat m)"
  by (simp_all add: parse_port_def parse_max_connections_def parse_u16_reads parse_usize_reads)

lemma default_settings:
  "cfg_trust_domain Config_default = ''cluster.local''" "cfg_log_level Config_default = ''info''" "cfg_mux Config_default = True"
  "cfg_identity Config_default = None" "cfg_ca_bundle_path Config_default = None" "cfg_cert_path Config_default = None"
  "cfg_key_path Config_default = None" "cfg_default_upstream Config_default = None"
  "unat (cfg_proxy_inbound_port Config_default) = 4143" "unat (cfg_proxy_outbound_port Config_default) = 4140"
  "unat (cfg_metrics_port Config_default) = 4190" "unat (cfg_max_connections Config_default) = 1024"
  by (simp_all add: Config_default_def INBOUND_PROXY_def OUTBOUND_PROXY_def METRICS_PORT_def)

lemmas field_settings =
  text_set [where field = cfg_trust_domain, unfolded default_settings]
  text_set [where field = cfg_log_level, unfolded default_settings]
  optional_set [where field = cfg_identity, OF default_settings(4)]
  optional_set [where field = cfg_ca_bundle_path, OF default_settings(5)]
  optional_set [where field = cfg_cert_path, OF default_settings(6)]
  optional_set [where field = cfg_key_path, OF default_settings(7)]
  optional_set [where field = cfg_default_upstream, OF default_settings(8)]
  switch_set [where field = cfg_mux, unfolded default_settings]
  number_set_base [where field = cfg_proxy_inbound_port, OF parse_numbers(1) default_settings(9)]
  number_set_base [where field = cfg_proxy_outbound_port, OF parse_numbers(1) default_settings(10)]
  number_set_base [where field = cfg_metrics_port, OF parse_numbers(1) default_settings(11)]
  number_set_base [where field = cfg_max_connections, OF parse_numbers(2) default_settings(12)]

lemma with_env_settings: "with_env w (base_of f) = Inr cfg \<longleftrightarrow> settings w f cfg"
proof -
  have "with_env w (base_of f) = Inr cfg \<longleftrightarrow>
      cfg_trust_domain cfg = env_text w ''INTERLINK_TRUST_DOMAIN'' (\<lambda>v. v) (cfg_trust_domain (base_of f))
      \<and> cfg_identity cfg = env_text w ''INTERLINK_IDENTITY'' Some (cfg_identity (base_of f))
      \<and> env_num w ''INTERLINK_PROXY_INBOUND_PORT'' parse_port (cfg_proxy_inbound_port (base_of f)) = Inr (cfg_proxy_inbound_port cfg)
      \<and> env_num w ''INTERLINK_PROXY_OUTBOUND_PORT'' parse_port (cfg_proxy_outbound_port (base_of f)) = Inr (cfg_proxy_outbound_port cfg)
      \<and> env_num w ''INTERLINK_METRICS_PORT'' parse_port (cfg_metrics_port (base_of f)) = Inr (cfg_metrics_port cfg)
      \<and> cfg_log_level cfg = env_text w ''INTERLINK_LOG_LEVEL'' (\<lambda>v. v) (cfg_log_level (base_of f))
      \<and> env_num w ''INTERLINK_MAX_CONNECTIONS'' parse_max_connections (cfg_max_connections (base_of f)) = Inr (cfg_max_connections cfg)
      \<and> cfg_ca_bundle_path cfg = env_text w ''INTERLINK_CA_BUNDLE_PATH'' Some (cfg_ca_bundle_path (base_of f))
      \<and> cfg_cert_path cfg = env_text w ''INTERLINK_CERT_PATH'' Some (cfg_cert_path (base_of f))
      \<and> cfg_key_path cfg = env_text w ''INTERLINK_KEY_PATH'' Some (cfg_key_path (base_of f))
      \<and> cfg_default_upstream cfg = env_text w ''INTERLINK_DEFAULT_UPSTREAM'' Some (cfg_default_upstream (base_of f))
      \<and> cfg_mux cfg = env_text w ''INTERLINK_MUX'' (\<lambda>v. v \<noteq> ''false'' \<and> v \<noteq> ''0'') (cfg_mux (base_of f))"
    unfolding with_env_layer and_then_Inr_iff env_layer_def by (cases cfg) auto
  then show ?thesis unfolding field_settings settings_def .
qed

subsection \<open>Properties\<close>

text \<open>
  C35. Precedence: a configuration is loaded exactly when the configuration file, where there is one,
  can be read and decoded, every number that the environment sets is one, and the result has a
  trust domain, a positive connection limit and no malformed identity. Each setting is then the
  environment's, else the file's, else the built-in default. The file is the one named by
  \<open>INTERLINK_CONFIG_FILE\<close>, or \<open>/etc/interlink/config.json\<close>.
\<close>

theorem load_precedence:
  "load w = Some (Inr cfg) \<longleftrightarrow>
     (\<exists>f. file_says w f \<and> settings w f cfg)
     \<and> cfg_trust_domain cfg \<noteq> [] \<and> 0 < unat (cfg_max_connections cfg)
     \<and> (\<forall>i. cfg_identity cfg = Some i \<longrightarrow> (\<exists>ident. SpiffeId_from_uri i = Some (Inr ident)))"
  unfolding load_ok_iff and_then_Inr_iff file_layer_says admissible_def
  by (auto simp: with_env_settings unat_gt_0)

text \<open>A world with two environment overrides and no file, for the witnesses.\<close>

definition sample_world :: config_world where
  "sample_world =
     \<lparr>env_var = (\<lambda>n. if n = ''INTERLINK_MAX_CONNECTIONS'' then Some ''512''
                     else if n = ''INTERLINK_IDENTITY'' then Some ''spiffe://t/ns/n/sa/s'' else None),
      path_exists = (\<lambda>_. False), read_to_string = (\<lambda>_. Inr []), from_json = (\<lambda>_. Inr Config_default),
      show_tls_error = (\<lambda>_. [])\<rparr>"

text \<open>The same with a file that sets the inbound port and, overridden, the connection limit.\<close>

definition sample_file_config :: Config where
  "sample_file_config = Config_default\<lparr>cfg_proxy_inbound_port := 8443, cfg_max_connections := 7\<rparr>"

definition sample_file_world :: config_world where
  "sample_file_world = sample_world\<lparr>path_exists := (\<lambda>path. path = ''/etc/interlink/config.json''),
     from_json := (\<lambda>_. Inr sample_file_config)\<rparr>"

theorem load_precedence_witness:
  "load sample_file_world = Some (Inr (sample_file_config\<lparr>cfg_identity := Some ''spiffe://t/ns/n/sa/s'', cfg_max_connections := 512\<rparr>))"
proof -
  let ?cfg = "sample_file_config\<lparr>cfg_identity := Some ''spiffe://t/ns/n/sa/s'', cfg_max_connections := 512\<rparr>"
  have "file_says sample_file_world (Some sample_file_config)"
    by (simp add: file_says_def sample_file_world_def sample_world_def)
  moreover have "reads_number ''512'' 512"
    by (simp add: reads_number_def unsigned_text_def is_ascii_digit_def byte_def)
  then have "settings sample_file_world (Some sample_file_config) ?cfg"
    by (simp add: settings_def number_set_def sample_file_world_def sample_world_def sample_file_config_def Config_default_def
        INBOUND_PROXY_def OUTBOUND_PROXY_def METRICS_PORT_def)
  moreover have "cfg_trust_domain ?cfg \<noteq> [] \<and> 0 < unat (cfg_max_connections ?cfg)"
    by (simp add: sample_file_config_def Config_default_def)
  moreover have "\<exists>ident. SpiffeId_from_uri ''spiffe://t/ns/n/sa/s'' = Some (Inr ident)"
  proof -
    have "SpiffeId_from_uri ''spiffe://t/ns/n/sa/s'' = Some (Inr (SpiffeId_new ''t'' ''n'' ''s''))" by code_simp
    then show ?thesis by blast
  qed
  ultimately show ?thesis using load_precedence [of sample_file_world ?cfg] by auto
qed

text \<open>
  \<open>parse_port\<close> accepts exactly an optional plus sign followed by decimal digits whose value fits
  sixteen bits, and returns that value; in particular it reads back every port it can print.
\<close>

lemma parse_port_exact:
  "(parse_port s = Inr p \<longleftrightarrow>
      s \<noteq> [] \<and> list_all is_ascii_digit (unsigned_text s) \<and> dec_value 0 (unsigned_text s) = unat p)
   \<and> parse_port (show_nat (unat p)) = Inr p"
  by (simp add: parse_port_def parse_u16_Inr_iff parse_u16_show_nat)

end
