(* ===== verification/Proxy_Common.thy ===== *)
theory Proxy_Common
  imports Net_Addr Metrics Runtime_Config
begin

text \<open>
  \<open>src/proxy/mod.rs\<close> and \<open>src/proxy/original_dst.rs\<close>: what the inbound and the outbound proxy
  share. System calls are arguments: \<open>sys\<close> gives the outcome of each socket call,
  \<open>sockopt\<close> the raw bytes \<open>getsockopt\<close> fills in.
\<close>

datatype UpstreamTarget = Socket SocketAddr | Host string "16 word option"

definition from_config :: "string option \<Rightarrow> UpstreamTarget option" where
  "from_config value_opt =
     (case value_opt of
        None \<Rightarrow> None
      | Some v \<Rightarrow>
          if v = [] then None
          else (case parse_socket_addr v of
                  Some addr \<Rightarrow> Some (Socket addr)
                | None \<Rightarrow>
                    (case (case rsplit_once v (CHR '':'') of
                             Some (name, port) \<Rightarrow>
                               (case parse_u16 port of Inr p \<Rightarrow> (name, Some p) | Inl _ \<Rightarrow> (v, None))
                           | None \<Rightarrow> (v, None)) of
                       (name, port) \<Rightarrow> Some (Host name port))))"

fun display_upstream :: "UpstreamTarget \<Rightarrow> string" where
  "display_upstream (Socket addr) = show_socket_addr addr"
| "display_upstream (Host name (Some port)) = name @ '':'' @ show_nat (unat port)"
| "display_upstream (Host name None) = name"

subsection \<open>Tunables\<close>

definition clamp :: "'a::linorder \<Rightarrow> 'a \<Rightarrow> 'a \<Rightarrow> 'a" where
  "clamp n lo hi = (if n < lo then lo else if hi < n then hi else n)"

definition DEFAULT_COPY_BUF_SIZE :: "64 word" where
  "DEFAULT_COPY_BUF_SIZE = 65536"

definition env_usize :: "(string \<Rightarrow> string option) \<Rightarrow> string \<Rightarrow> 64 word option" where
  "env_usize var name = do { v \<leftarrow> var name; result_ok (parse_usize v) }"

definition copy_buf_size :: "(string \<Rightarrow> string option) \<Rightarrow> 64 word" where
  "copy_buf_size var =
     clamp (case env_usize var ''INTERLINK_COPY_BUF_SIZE'' of None \<Rightarrow> DEFAULT_COPY_BUF_SIZE | Some n \<Rightarrow> n)
           4096 (2 ^ 20)"

text \<open>\<open>parallelism\<close> is \<open>std::thread::available_parallelism\<close>, which may fail.\<close>

definition num_acceptors :: "(string \<Rightarrow> string option) \<Rightarrow> 64 word option \<Rightarrow> 64 word" where
  "num_acceptors var parallelism =
     (case env_usize var ''INTERLINK_ACCEPTORS'' of
        Some n \<Rightarrow> clamp n 1 16
      | None \<Rightarrow> max (min (case parallelism of None \<Rightarrow> 2 | Some n \<Rightarrow> n) 4) 2)"

subsection \<open>Sockets\<close>

datatype sock_call =
    NewSocket bool
  | SetReuseAddress
  | SetReusePort
  | SetNonblocking
  | Bind SocketAddr
  | Listen nat
  | FromStd
  | SetNodelay
  | SetKeepalive
  | SetTcpKeepalive nat

fun sys_calls :: "(sock_call \<Rightarrow> (IoError, unit) result) \<Rightarrow> sock_call list \<Rightarrow> (IoError, unit) result" where
  "sys_calls sys [] = Inr ()"
| "sys_calls sys (c # cs) = and_then (sys c) (\<lambda>_. sys_calls sys cs)"

definition bind_reuseport :: "(sock_call \<Rightarrow> (IoError, unit) result) \<Rightarrow> SocketAddr \<Rightarrow> (IoError, unit) result" where
  "bind_reuseport sys addr =
     sys_calls sys [NewSocket (is_ipv6 addr), SetReuseAddress, SetReusePort, SetNonblocking,
                    Bind addr, Listen 1024, FromStd]"

definition configure_socket :: "(sock_call \<Rightarrow> (IoError, unit) result) \<Rightarrow> (IoError, unit) result" where
  "configure_socket sys = sys_calls sys [SetNodelay, SetKeepalive, SetTcpKeepalive 300]"

text \<open>
  \<open>get_original_dst\<close>: \<open>v4\<close> and \<open>v6\<close> are the outcomes of the two \<open>getsockopt\<close> calls (\<open>None\<close>
  when the call fails), each a port and an address as the bytes lie in memory, that is in
  network order.
\<close>

fun segments_of_bytes :: "8 word list \<Rightarrow> 16 word list" where
  "segments_of_bytes (hi # lo # bs) = be_pair hi lo # segments_of_bytes bs"
| "segments_of_bytes _ = []"

definition get_original_dst ::
  "((8 word \<times> 8 word) \<times> (8 word \<times> 8 word \<times> 8 word \<times> 8 word)) option
     \<Rightarrow> ((8 word \<times> 8 word) \<times> 8 word list) option \<Rightarrow> SocketAddr option" where
  "get_original_dst v4 v6 =
     (case v4 of
        Some ((hi, lo), (a, b, c, d)) \<Rightarrow> Some (SocketAddr_new (V4 a b c d) (be_pair hi lo))
      | None \<Rightarrow>
          (case v6 of
             Some ((hi, lo), ip) \<Rightarrow> Some (SocketAddr_new (V6 (segments_of_bytes ip)) (be_pair hi lo))
           | None \<Rightarrow> None))"

subsection \<open>Shutdown\<close>

text \<open>
  \<open>wait_shutdown\<close> against the events of its watch channel: \<open>None\<close> is a task still waiting when
  the events run out, \<open>Some rest\<close> one that resolved with \<open>rest\<close> still to come.
\<close>

datatype watch_event = Changed bool | SenderDropped

fun watch_loop :: "bool \<Rightarrow> watch_event list \<Rightarrow> watch_event list option" where
  "watch_loop True evs = Some evs"
| "watch_loop False [] = None"
| "watch_loop False (SenderDropped # evs) = Some evs"
| "watch_loop False (Changed b # evs) = watch_loop b evs"

definition wait_shutdown :: "bool option \<Rightarrow> watch_event list \<Rightarrow> watch_event list option" where
  "wait_shutdown shutdown evs =
     (case shutdown of Some current \<Rightarrow> watch_loop current evs | None \<Rightarrow> None)"

text \<open>
  \<open>wait_for_graceful_shutdown\<close>, the same in both proxies: \<open>start\<close> is the clock the deadline is made
  from, \<open>active i\<close> and \<open>now i\<close> are what the i-th turn of the loop reads, times in milliseconds. \<open>None\<close>
  means the fuel ran out.
\<close>

datatype drain_outcome = Drained | GraceExpired

fun drain_loop :: "(nat \<Rightarrow> nat) \<Rightarrow> (nat \<Rightarrow> nat) \<Rightarrow> nat \<Rightarrow> nat \<Rightarrow> nat \<Rightarrow> (drain_outcome \<times> nat) option" where
  "drain_loop active now deadline 0 i = None"
| "drain_loop active now deadline (Suc fuel) i =
     (if active i = 0 then Some (Drained, i)
      else if deadline \<le> now i then Some (GraceExpired, i)
      else drain_loop active now deadline fuel (Suc i))"

definition wait_for_graceful_shutdown ::
  "(nat \<Rightarrow> nat) \<Rightarrow> nat \<Rightarrow> (nat \<Rightarrow> nat) \<Rightarrow> nat \<Rightarrow> (drain_outcome \<times> nat) option" where
  "wait_for_graceful_shutdown active start now fuel =
     drain_loop active now (start + SHUTDOWN_GRACE * 1000) fuel 0"

subsection \<open>Admission\<close>

text \<open>
  The part of both proxies that limits concurrency: the connection semaphore and the counter of
  active connections. \<open>admit\<close> is \<open>try_acquire_owned\<close> followed by the counter's increment,
  \<open>finish_connection\<close> what the spawned task does when its handler returns.
\<close>

record gate =
  permits :: nat
  active_connections :: nat

definition gate_new :: "nat \<Rightarrow> gate" where
  "gate_new max_conn = \<lparr>permits = max_conn, active_connections = 0\<rparr>"

text \<open>
  \<open>Semaphore::new\<close> is tokio's, so it is an argument of the constructors: \<open>None\<close> where it panics.
  Its documentation says that it does so above \<open>Semaphore::MAX_PERMITS\<close>, an eighth of the range of
  \<open>usize\<close>.
\<close>

type_synonym semaphore_new = "nat \<Rightarrow> unit panicky"

definition MAX_PERMITS :: nat where
  "MAX_PERMITS = 2 ^ 61 - 1"

definition tokio_semaphore :: "semaphore_new \<Rightarrow> bool" where
  "tokio_semaphore sem = (\<forall>n. sem n \<noteq> None \<longleftrightarrow> n \<le> MAX_PERMITS)"

definition admit :: "gate \<Rightarrow> gate option" where
  "admit g = (if 0 < permits g
              then Some \<lparr>permits = permits g - 1, active_connections = active_connections g + 1\<rparr>
              else None)"

definition finish_connection :: "gate \<Rightarrow> gate" where
  "finish_connection g = \<lparr>permits = permits g + 1, active_connections = active_connections g - 1\<rparr>"

text \<open>The local identity both constructors derive from the proxy configuration.\<close>

definition proxy_local_id :: "ProxyConfig \<Rightarrow> SpiffeId panicky" where
  "proxy_local_id config =
     do {
       parsed \<leftarrow> (case px_identity config of
                    None \<Rightarrow> Some None
                  | Some uri \<Rightarrow> map_option result_ok (SpiffeId_from_uri uri));
       (case parsed of
          Some ident \<Rightarrow> Some ident
        | None \<Rightarrow> unwrap (try_new (px_trust_domain config) ''default'' ''proxy''))
     }"

subsection \<open>Facts\<close>

lemma clamp_bounds: "lo \<le> hi \<Longrightarrow> lo \<le> clamp n lo hi \<and> clamp n lo hi \<le> hi"
  by (auto simp: clamp_def)

lemma sys_calls_ok_iff: "sys_calls sys cs = Inr () \<longleftrightarrow> (\<forall>c \<in> set cs. is_ok (sys c))"
  by (induction cs) (auto simp: and_then_Inr_iff is_ok_iff)

lemma sys_calls_find:
  "sys_calls sys cs = (case List.find (\<lambda>c. \<not> is_ok (sys c)) cs of None \<Rightarrow> Inr () | Some c \<Rightarrow> sys c)"
proof (induction cs)
  case (Cons c cs)
  then show ?case by (cases "sys c") simp_all
qed simp

lemma sys_calls_first_error:
  "sys_calls sys cs = Inl e \<longleftrightarrow>
     (\<exists>as c bs. cs = as @ c # bs \<and> (\<forall>a \<in> set as. is_ok (sys a)) \<and> sys c = Inl e)"
proof (cases "List.find (\<lambda>c. \<not> is_ok (sys c)) cs")
  case None
  then have "\<forall>c \<in> set cs. is_ok (sys c)" by (auto simp: find_None_iff)
  then show ?thesis using None by (auto simp: sys_calls_find)
next
  case (Some c)
  then obtain as bs where "cs = as @ c # bs" "\<not> is_ok (sys c)" "\<forall>a \<in> set as. is_ok (sys a)"
    by (auto simp: find_Some_split)
  moreover have "c' = c" if "cs = as' @ c' # bs'" "\<forall>a \<in> set as'. is_ok (sys a)" "sys c' = Inl e"
    for as' c' bs'
    using that Some find_first [of as' "\<lambda>c. \<not> is_ok (sys c)" c' bs'] by simp
  moreover have "sys_calls sys cs = sys c" using Some by (simp add: sys_calls_find)
  ultimately show ?thesis by metis
qed

lemma watch_loop_resolves:
  "watch_loop current evs \<noteq> None \<longleftrightarrow> current \<or> Changed True \<in> set evs \<or> SenderDropped \<in> set evs"
proof (induction current evs rule: watch_loop.induct)
  case (4 b evs)
  then show ?case by (cases b) auto
qed auto

lemma drain_loop_returns:
  assumes "\<forall>i. now i + 100 \<le> now (Suc i)" and "deadline \<le> now (i + fuel)"
  shows "\<exists>out j. drain_loop active now deadline (Suc fuel) i = Some (out, j) \<and> i \<le> j \<and> j \<le> i + fuel
    \<and> (out = Drained \<longrightarrow> active j = 0) \<and> (out = GraceExpired \<longrightarrow> deadline \<le> now j \<and> active j \<noteq> 0)
    \<and> (\<forall>k. i \<le> k \<and> k < j \<longrightarrow> active k \<noteq> 0 \<and> now k < deadline)"
  using assms(2)
proof (induction fuel arbitrary: i)
  case 0
  then show ?case by auto
next
  case (Suc fuel)
  show ?case
  proof (cases "active i = 0 \<or> deadline \<le> now i")
    case True
    then show ?thesis by auto
  next
    case False
    obtain out j where j: "drain_loop active now deadline (Suc fuel) (Suc i) = Some (out, j)"
      "Suc i \<le> j" "j \<le> Suc i + fuel" "out = Drained \<longrightarrow> active j = 0"
      "out = GraceExpired \<longrightarrow> deadline \<le> now j \<and> active j \<noteq> 0"
      "\<forall>k. Suc i \<le> k \<and> k < j \<longrightarrow> active k \<noteq> 0 \<and> now k < deadline"
      using Suc.IH [of "Suc i"] Suc.prems by auto
    have "\<forall>k. i \<le> k \<and> k < j \<longrightarrow> active k \<noteq> 0 \<and> now k < deadline"
      using j(6) False by (metis Suc_leI le_neq_implies_less not_le)
    moreover have "drain_loop active now deadline (Suc (Suc fuel)) i = Some (out, j)"
      using j(1) False by simp
    ultimately show ?thesis using j by (metis Suc_leD add_Suc_shift)
  qed
qed

lemma clock_advances:
  assumes "\<forall>i. now i + 100 \<le> now (Suc i)"
  shows "now 0 + 100 * n \<le> now (n :: nat)"
proof (induction n)
  case (Suc n)
  then show ?case using assms [rule_format, of n] by simp
qed simp

text \<open>Admission never exceeds the limit and never loses a permit.\<close>

definition gate_inv :: "nat \<Rightarrow> gate \<Rightarrow> bool" where
  "gate_inv max_conn g = (permits g + active_connections g = max_conn)"

lemma gate_inv_new [simp]: "gate_inv n (gate_new n)"
  by (simp add: gate_inv_def gate_new_def)

lemma gate_inv_admit: "gate_inv n g \<Longrightarrow> admit g = Some g' \<Longrightarrow> gate_inv n g' \<and> 0 < active_connections g'"
  by (auto simp: gate_inv_def admit_def split: if_splits)

lemma gate_inv_finish: "gate_inv n g \<Longrightarrow> 0 < active_connections g \<Longrightarrow> gate_inv n (finish_connection g)"
  by (simp add: gate_inv_def finish_connection_def)

lemma admit_refuses_iff: "gate_inv n g \<Longrightarrow> admit g = None \<longleftrightarrow> active_connections g = n"
  by (auto simp: gate_inv_def admit_def)

text \<open>Histories of one gate: the connections admitted and not yet finished are the active ones.\<close>

datatype gate_event = Arrive | Finish

fun gate_run :: "gate_event list \<Rightarrow> gate \<Rightarrow> gate" where
  "gate_run [] g = g"
| "gate_run (Arrive # evs) g = gate_run evs (case admit g of Some g' \<Rightarrow> g' | None \<Rightarrow> g)"
| "gate_run (Finish # evs) g = gate_run evs (if 0 < active_connections g then finish_connection g else g)"

lemma gate_run_inv: "gate_inv n g \<Longrightarrow> gate_inv n (gate_run evs g)"
proof (induction evs g rule: gate_run.induct)
  case (2 evs g)
  then show ?case using gate_inv_admit by (cases "admit g") auto
next
  case (3 evs g)
  then show ?case using gate_inv_finish by (cases "0 < active_connections g") auto
qed simp

lemma proxy_local_id_valid:
  assumes "px_trust_domain config \<noteq> []" and "valid_utf8 (px_trust_domain config)"
    and "\<And>uri. px_identity config = Some uri \<Longrightarrow> valid_utf8 uri"
  shows "\<exists>ident. proxy_local_id config = Some ident \<and> valid_id ident"
proof -
  let ?d = "SpiffeId_new (px_trust_domain config) ''default'' ''proxy''"
  have d: "unwrap (try_new (px_trust_domain config) ''default'' ''proxy'') = Some ?d"
    using assms(1) by (simp add: try_new_Inr_iff)
  have vd: "valid_id ?d" using assms(2) by (simp add: valid_id_def SpiffeId_new_def valid_utf8_all_ascii byte_def)
  show ?thesis
  proof (cases "px_identity config")
    case None
    with d vd show ?thesis by (simp add: proxy_local_id_def)
  next
    case (Some uri)
    then have v: "valid_utf8 uri" using assms(3) by blast
    then obtain r where r: "SpiffeId_from_uri uri = Some r" using SpiffeId_from_uri_no_panic by blast
    show ?thesis
    proof (cases r)
      case (Inl e)
      with Some r d vd show ?thesis by (simp add: proxy_local_id_def)
    next
      case (Inr i)
      with Some r SpiffeId_from_uri_canonical(2) [OF v] show ?thesis by (simp add: proxy_local_id_def)
    qed
  qed
qed

subsection \<open>Properties\<close>

text \<open>
  A configured upstream is read as a socket address when it is one (every IPv4 \<open>ip:port\<close>
  reads back as itself), otherwise as a host name whose port is what follows the last colon
  when that is a port number, and as a bare host name else; only the empty value gives no
  upstream.
\<close>

lemma from_config_meaning:
  "(from_config v = None \<longleftrightarrow> v = None \<or> v = Some [])
   \<and> from_config (Some (show_socket_addr (SocketAddr_new (V4 a b c d) p))) =
       Some (Socket (SocketAddr_new (V4 a b c d) p))
   \<and> (from_config (Some txt) = Some (Host name (Some port)) \<longleftrightarrow>
        txt \<noteq> [] \<and> parse_socket_addr txt = None
        \<and> (\<exists>tail. rsplit_once txt (CHR '':'') = Some (name, tail) \<and> parse_u16 tail = Inr port))"
proof -
  have "show_socket_addr (SocketAddr_new (V4 a b c d) p) \<noteq> []"
    by (simp add: show_socket_addr_def SocketAddr_new_def show_ip_def show_octets_def)
  then have "from_config (Some (show_socket_addr (SocketAddr_new (V4 a b c d) p))) =
      Some (Socket (SocketAddr_new (V4 a b c d) p))"
    by (simp add: from_config_def parse_show_socket_v4)
  moreover have "from_config v = None \<longleftrightarrow> v = None \<or> v = Some []"
    by (auto simp: from_config_def split: option.splits prod.splits if_splits)
  moreover have "from_config (Some txt) = Some (Host name (Some port)) \<longleftrightarrow>
        txt \<noteq> [] \<and> parse_socket_addr txt = None
        \<and> (\<exists>tail. rsplit_once txt (CHR '':'') = Some (name, tail) \<and> parse_u16 tail = Inr port)"
    by (auto simp: from_config_def split: option.splits prod.splits sum.splits if_splits)
  ultimately show ?thesis by blast
qed

text \<open>
  The tunables stay in their documented ranges whatever the environment holds: copy buffers
  between 4 KiB and 1 MiB, one to sixteen acceptors (two to four when nothing is configured).
\<close>

lemma tunables_bounded:
  "4096 \<le> copy_buf_size var \<and> copy_buf_size var \<le> 2 ^ 20
   \<and> 1 \<le> num_acceptors var par \<and> num_acceptors var par \<le> 16
   \<and> (env_usize var ''INTERLINK_ACCEPTORS'' = None \<longrightarrow> 2 \<le> num_acceptors var par \<and> num_acceptors var par \<le> 4)"
proof -
  have d: "2 \<le> max (min n 4) (2 :: 64 word) \<and> max (min n 4) (2 :: 64 word) \<le> 4" for n
    by (auto simp: min_def max_def)
  have le: "(1 :: 64 word) \<le> 2" "(4 :: 64 word) \<le> 16" "(1 :: 64 word) \<le> 16" "(4096 :: 64 word) \<le> 2 ^ 20"
    by simp_all
  have "1 \<le> max (min n 4) (2 :: 64 word) \<and> max (min n 4) (2 :: 64 word) \<le> 16" for n
    using d [of n] le(1,2) by (meson order_trans)
  then show ?thesis
    using clamp_bounds [OF le(4)] clamp_bounds [OF le(3)] d
    by (simp add: copy_buf_size_def num_acceptors_def split: option.split)
qed

text \<open>
  The shutdown wait of a proxy ends: when each turn of its loop takes at least the 100 ms it
  sleeps, it returns within 301 turns, either with no active connection left or after the grace
  period, and not before one of the two holds.
\<close>

lemma graceful_shutdown_terminates:
  assumes "\<forall>i. now i + 100 \<le> now (Suc i)" and "start \<le> now 0"
  shows "\<exists>out j. wait_for_graceful_shutdown active start now 301 = Some (out, j) \<and> j \<le> 300
    \<and> (out = Drained \<longrightarrow> active j = 0)
    \<and> (out = GraceExpired \<longrightarrow> start + 30000 \<le> now j \<and> active j \<noteq> 0)
    \<and> (\<forall>k < j. active k \<noteq> 0 \<and> now k < start + 30000)"
proof -
  let ?dl = "start + SHUTDOWN_GRACE * 1000"
  have dl: "?dl = start + 30000" by (simp add: SHUTDOWN_GRACE_def)
  have "?dl \<le> now (0 + 300)" using clock_advances [OF assms(1), of 300] assms(2) by (simp add: dl)
  from drain_loop_returns [OF assms(1) this, of active] obtain out j
    where "drain_loop active now ?dl (Suc 300) 0 = Some (out, j)" "j \<le> 300"
      "out = Drained \<longrightarrow> active j = 0" "out = GraceExpired \<longrightarrow> ?dl \<le> now j \<and> active j \<noteq> 0"
      "\<forall>k. 0 \<le> k \<and> k < j \<longrightarrow> active k \<noteq> 0 \<and> now k < ?dl" by (auto simp del: neq0_conv)
  then show ?thesis unfolding wait_for_graceful_shutdown_def dl by auto
qed

text \<open>
  The connection limit holds over every history of arrivals and completions: permits and
  active connections always add up to the limit, and an arrival is refused exactly when the
  limit is reached.
\<close>

lemma connection_limit_kept:
  "permits (gate_run evs (gate_new n)) + active_connections (gate_run evs (gate_new n)) = n
   \<and> (admit (gate_run evs (gate_new n)) = None \<longleftrightarrow> active_connections (gate_run evs (gate_new n)) = n)"
proof -
  have "gate_inv n (gate_run evs (gate_new n))" by (simp add: gate_run_inv)
  then show ?thesis using admit_refuses_iff by (simp add: gate_inv_def)
qed

text \<open>
  A proxy's shutdown wait resolves exactly when a channel is installed and the signal is already
  set, becomes set, or its sender goes away; without a channel it never does.
\<close>

lemma wait_shutdown_resolves_iff:
  "wait_shutdown shutdown evs \<noteq> None \<longleftrightarrow>
     (\<exists>current. shutdown = Some current \<and> (current \<or> Changed True \<in> set evs \<or> SenderDropped \<in> set evs))"
  by (cases shutdown) (simp_all add: wait_shutdown_def watch_loop_resolves del: not_None_eq)

end
