(* ===== verification/Handshake.thy ===== *)
theory Handshake
  imports Proxy_Common
begin

text \<open>
  \<open>src/proxy/handshake.rs\<close> and \<open>src/proxy/verify.rs\<close>: the mTLS endpoints, the SPIFFE server
  verifier and the extraction of a peer's identity with its process-wide cache.

  What rustls, webpki, rcgen's counterpart \<open>x509_parser\<close> and the sockets do is given by
  arguments: \<open>pki\<close> collects the certificate operations, a \<open>handshake_outcome\<close> is what the TLS
  library made of one connection, and \<open>keep\<close> says which cache entries have survived eviction
  when the cache is consulted.
\<close>

subsection \<open>Certificates\<close>

datatype GeneralName = URI string | OtherName bytes

datatype ParsedExtension = SubjectAlternativeName "GeneralName list" | OtherExtension

record X509Extension =
  ext_oid :: "nat list"
  ext_parsed :: ParsedExtension

record pki =
  x509_parse :: "bytes \<Rightarrow> (string, X509Extension list) result"
  end_entity_parse :: "bytes \<Rightarrow> (TlsError, unit) result"
  path_validate :: "bytes \<Rightarrow> bytes list \<Rightarrow> bytes list \<Rightarrow> nat \<Rightarrow> (TlsError, unit) result"
  root_add :: "bytes \<Rightarrow> (TlsError, unit) result"
  client_auth_cert :: "bytes \<Rightarrow> bytes \<Rightarrow> (TlsError, unit) result"
  single_cert :: "bytes \<Rightarrow> bytes \<Rightarrow> (TlsError, unit) result"
  client_verifier :: "bytes list \<Rightarrow> (string, unit) result"
  tls_text :: "TlsError \<Rightarrow> string"

definition SAN_OID :: "nat list" where
  "SAN_OID = [2, 5, 29, 17]"

fun first_spiffe_name :: "GeneralName list \<Rightarrow> SpiffeId option panicky" where
  "first_spiffe_name [] = Some None"
| "first_spiffe_name (gn # gns) =
     (case gn of
        URI uri \<Rightarrow> do {
          r \<leftarrow> SpiffeId_from_uri uri;
          (case r of Inr ident \<Rightarrow> Some (Some ident) | Inl _ \<Rightarrow> first_spiffe_name gns)
        }
      | OtherName _ \<Rightarrow> first_spiffe_name gns)"

fun first_spiffe_ext :: "X509Extension list \<Rightarrow> SpiffeId option panicky" where
  "first_spiffe_ext [] = Some None"
| "first_spiffe_ext (ext # exts) =
     (if ext_oid ext = SAN_OID
      then (case ext_parsed ext of
              SubjectAlternativeName names \<Rightarrow> do {
                found \<leftarrow> first_spiffe_name names;
                (case found of Some ident \<Rightarrow> Some (Some ident) | None \<Rightarrow> first_spiffe_ext exts)
              }
            | OtherExtension \<Rightarrow> first_spiffe_ext exts)
      else first_spiffe_ext exts)"

definition spiffe_id_from_cert_der :: "pki \<Rightarrow> bytes \<Rightarrow> (InterlinkError, SpiffeId) result panicky" where
  "spiffe_id_from_cert_der p leaf_der =
     (case x509_parse p leaf_der of
        Inl e \<Rightarrow> Some (Inl (Identity (''cert parse: '' @ e)))
      | Inr exts \<Rightarrow> do {
          found \<leftarrow> first_spiffe_ext exts;
          Some (ok_or (Identity ''no SPIFFE URI in SAN extension'') found)
        })"

subsection \<open>The SPIFFE server verifier\<close>

record SpiffeServerVerifier =
  sv_roots :: "bytes list"
  sv_trust_domain :: string

definition SpiffeServerVerifier_new :: "bytes list \<Rightarrow> string \<Rightarrow> SpiffeServerVerifier" where
  "SpiffeServerVerifier_new roots td = \<lparr>sv_roots = roots, sv_trust_domain = td\<rparr>"

definition verify_server_cert ::
  "pki \<Rightarrow> SpiffeServerVerifier \<Rightarrow> bytes \<Rightarrow> bytes list \<Rightarrow> nat \<Rightarrow> (TlsError, unit) result panicky" where
  "verify_server_cert p self end_entity intermediates now =
     (case and_then (end_entity_parse p end_entity)
             (\<lambda>_. path_validate p end_entity (sv_roots self) intermediates now) of
        Inl e \<Rightarrow> Some (Inl e)
      | Inr _ \<Rightarrow> do {
          r \<leftarrow> spiffe_id_from_cert_der p end_entity;
          Some (case r of
                  Inl e \<Rightarrow> Inl (General (''SPIFFE identity: '' @ display_error (tls_text p) e))
                | Inr ident \<Rightarrow>
                    if trust_domain ident \<noteq> sv_trust_domain self
                    then Inl (General (''peer trust domain '' @ [CHR 0x27] @ trust_domain ident @ [CHR 0x27]
                           @ '' does not match ours '' @ [CHR 0x27] @ sv_trust_domain self @ [CHR 0x27]))
                    else Inr ())
        })"

subsection \<open>Process-wide state\<close>

text \<open>The two statics a connection touches: \<open>INTERLINK_METRICS\<close> and \<open>IDENTITY_CACHE\<close>.\<close>

record globals =
  g_metrics :: InterlinkMetrics
  g_cache :: "bytes \<rightharpoonup> SpiffeId"

definition on_metrics :: "(InterlinkMetrics \<Rightarrow> InterlinkMetrics) \<Rightarrow> globals \<Rightarrow> globals" where
  "on_metrics f g = g\<lparr>g_metrics := f (g_metrics g)\<rparr>"

subsection \<open>Sessions\<close>

record tls_session =
  peer_certificates :: "bytes list option"
  alpn_protocol :: "bytes option"
  handshake_resumed :: bool

record TlsStream =
  ts_inner :: tls_session
  ts_peer_identity :: SpiffeId

datatype handshake_outcome = HandshakeTimeout | HandshakeIo IoError | Established tls_session

definition ALPN_MUX :: bytes where "ALPN_MUX = ''il/mux/1''"

definition negotiated_alpn :: "tls_session \<Rightarrow> bytes option" where
  "negotiated_alpn s = alpn_protocol s"

definition alpn_protocols :: "bytes list" where
  "alpn_protocols = [ALPN_MUX, ''h2'', ''http/1.1'']"

definition legacy_alpn_protocols :: "bytes list" where
  "legacy_alpn_protocols = [''h2'', ''http/1.1'']"

definition extract_identity_from_tls_stream ::
  "pki \<Rightarrow> bytes set \<Rightarrow> tls_session \<Rightarrow> globals \<Rightarrow> ((InterlinkError, SpiffeId) result \<times> globals) panicky" where
  "extract_identity_from_tls_stream p keep s g =
     (case peer_certificates s of
        None \<Rightarrow> Some (Inl (Identity ''no peer certificate''), g)
      | Some [] \<Rightarrow> Some (Inl (Identity ''empty certificate chain''), g)
      | Some (leaf_der # _) \<Rightarrow>
          (let g = g\<lparr>g_cache := g_cache g |` keep\<rparr> in
           case g_cache g leaf_der of
             Some cached \<Rightarrow> Some (Inr cached, g)
           | None \<Rightarrow> do {
               r \<leftarrow> spiffe_id_from_cert_der p leaf_der;
               Some (case r of
                       Inl e \<Rightarrow> (Inl e, g)
                     | Inr ident \<Rightarrow> (Inr ident, g\<lparr>g_cache := (g_cache g)(leaf_der \<mapsto> ident)\<rparr>))
             }))"

text \<open>What follows a finished handshake, the same in \<open>connect\<close> and \<open>accept\<close>.\<close>

definition finish_handshake ::
  "pki \<Rightarrow> bytes set \<Rightarrow> handshake_outcome \<Rightarrow> globals \<Rightarrow> ((InterlinkError, TlsStream) result \<times> globals) panicky" where
  "finish_handshake p keep out g =
     (case out of
        HandshakeTimeout \<Rightarrow> Some (Inl (Tls (General ''TLS handshake timed out'')), g)
      | HandshakeIo e \<Rightarrow> Some (Inl (Io e), g)
      | Established s \<Rightarrow> do {
          (r, g) \<leftarrow> extract_identity_from_tls_stream p keep s
                      (on_metrics (record_handshake_kind (handshake_resumed s)) g);
          Some (and_then r (\<lambda>ident. Inr \<lparr>ts_inner = s, ts_peer_identity = ident\<rparr>), g)
        })"

subsection \<open>Client and server\<close>

record IdentityProvider =
  get_identity :: "(InterlinkError, SpiffeId) result"
  get_trust_domain :: TrustDomain

record TlsClient =
  client_checks :: SpiffeServerVerifier
  client_auth :: "(bytes \<times> bytes) option"
  client_alpn :: "bytes list"

record TlsServer =
  server_roots :: "bytes list"
  server_cert :: bytes
  server_key :: bytes
  server_alpn :: "bytes list"

fun add_roots :: "pki \<Rightarrow> bytes list \<Rightarrow> bytes list \<Rightarrow> (InterlinkError, bytes list) result" where
  "add_roots p store [] = Inr store"
| "add_roots p store (ca # cas) =
     and_then (map_err Tls (root_add p ca)) (\<lambda>_. add_roots p (store @ [ca]) cas)"

definition TlsClient_new :: "pki \<Rightarrow> IdentityProvider \<Rightarrow> (InterlinkError, TlsClient) result" where
  "TlsClient_new p provider =
     and_then (add_roots p [] (ca_certs (get_trust_domain provider))) (\<lambda>store. Inr
       \<lparr>client_checks = SpiffeServerVerifier_new store (td_name (get_trust_domain provider)),
        client_auth = None, client_alpn = alpn_protocols\<rparr>)"

definition with_client_auth_alpn ::
  "pki \<Rightarrow> IdentityProvider \<Rightarrow> bytes \<Rightarrow> bytes \<Rightarrow> bytes list \<Rightarrow> (InterlinkError, TlsClient) result" where
  "with_client_auth_alpn p provider cert key alpn =
     and_then (add_roots p [] (ca_certs (get_trust_domain provider))) (\<lambda>store.
     and_then (map_err Tls (client_auth_cert p cert key)) (\<lambda>_. Inr
       \<lparr>client_checks = SpiffeServerVerifier_new store (td_name (get_trust_domain provider)),
        client_auth = Some (cert, key), client_alpn = alpn\<rparr>))"

definition with_client_auth ::
  "pki \<Rightarrow> IdentityProvider \<Rightarrow> bytes \<Rightarrow> bytes \<Rightarrow> (InterlinkError, TlsClient) result" where
  "with_client_auth p provider cert key = with_client_auth_alpn p provider cert key alpn_protocols"

definition TlsServer_new_with_alpn ::
  "pki \<Rightarrow> IdentityProvider \<Rightarrow> bytes \<Rightarrow> bytes \<Rightarrow> bytes list \<Rightarrow> (InterlinkError, TlsServer) result" where
  "TlsServer_new_with_alpn p provider cert key alpn =
     and_then (add_roots p [] (ca_certs (get_trust_domain provider))) (\<lambda>store.
     and_then (map_err (\<lambda>e. Tls (General e)) (client_verifier p store)) (\<lambda>_.
     and_then (map_err Tls (single_cert p cert key)) (\<lambda>_. Inr
       \<lparr>server_roots = store, server_cert = cert, server_key = key, server_alpn = alpn\<rparr>)))"

definition TlsServer_new ::
  "pki \<Rightarrow> IdentityProvider \<Rightarrow> bytes \<Rightarrow> bytes \<Rightarrow> (InterlinkError, TlsServer) result" where
  "TlsServer_new p provider cert key = TlsServer_new_with_alpn p provider cert key alpn_protocols"

text \<open>
  The endpoints. \<open>net\<close> is the outcome of the TCP connect, \<open>out\<close> what the TLS library makes of
  the connection with this endpoint's configuration.
\<close>

definition TlsClient_connect ::
  "pki \<Rightarrow> bytes set \<Rightarrow> (TlsClient \<Rightarrow> SocketAddr \<Rightarrow> (IoError, unit) result)
     \<Rightarrow> (TlsClient \<Rightarrow> SocketAddr \<Rightarrow> handshake_outcome) \<Rightarrow> TlsClient \<Rightarrow> SocketAddr \<Rightarrow> globals
     \<Rightarrow> ((InterlinkError, TlsStream) result \<times> globals) panicky" where
  "TlsClient_connect p keep net out self addr g =
     (case net self addr of
        Inl e \<Rightarrow> Some (Inl (Io e), g)
      | Inr _ \<Rightarrow> finish_handshake p keep (out self addr) g)"

definition TlsClient_accept :: "globals \<Rightarrow> ((InterlinkError, TlsStream) result \<times> globals) panicky" where
  "TlsClient_accept g = Some (Inl (Tls (General ''client cannot accept connections'')), g)"

definition TlsServer_connect :: "globals \<Rightarrow> ((InterlinkError, TlsStream) result \<times> globals) panicky" where
  "TlsServer_connect g = Some (Inl (Tls (General ''server cannot initiate connections'')), g)"

definition TlsServer_accept ::
  "pki \<Rightarrow> bytes set \<Rightarrow> (TlsServer \<Rightarrow> handshake_outcome) \<Rightarrow> TlsServer \<Rightarrow> globals
     \<Rightarrow> ((InterlinkError, TlsStream) result \<times> globals) panicky" where
  "TlsServer_accept p keep out self g = finish_handshake p keep (out self) g"

subsection \<open>What a certificate's identity is\<close>

text \<open>The URI names of the subject-alternative-name extensions, in certificate order.\<close>

definition uri_names :: "GeneralName list \<Rightarrow> string list" where
  "uri_names gns = concat (map (\<lambda>gn. case gn of URI u \<Rightarrow> [u] | OtherName _ \<Rightarrow> []) gns)"

definition ext_uris :: "X509Extension \<Rightarrow> string list" where
  "ext_uris e = (if ext_oid e = SAN_OID
                 then (case ext_parsed e of SubjectAlternativeName gns \<Rightarrow> uri_names gns | OtherExtension \<Rightarrow> [])
                 else [])"

definition san_uris :: "X509Extension list \<Rightarrow> string list" where
  "san_uris exts = concat (map ext_uris exts)"

definition uri_identity :: "string \<Rightarrow> SpiffeId option" where
  "uri_identity u = (case SpiffeId_from_uri u of Some (Inr i) \<Rightarrow> Some i | _ \<Rightarrow> None)"

text \<open>\<open>x509_parser\<close> hands out URI names as Rust strings.\<close>

definition pki_utf8 :: "pki \<Rightarrow> bool" where
  "pki_utf8 p = (\<forall>der exts. x509_parse p der = Inr exts \<longrightarrow> list_all valid_utf8 (san_uris exts))"

lemma SpiffeId_from_uri_cases:
  assumes "valid_utf8 u"
  obtains e where "SpiffeId_from_uri u = Some (Inl e)" "uri_identity u = None"
  | i where "SpiffeId_from_uri u = Some (Inr i)" "uri_identity u = Some i"
proof -
  obtain r where "SpiffeId_from_uri u = Some r" using SpiffeId_from_uri_no_panic [OF assms] by blast
  then show ?thesis using that by (cases r) (simp_all add: uri_identity_def)
qed

lemma first_spiffe_name_spec:
  "list_all valid_utf8 (uri_names gns) \<Longrightarrow>
     first_spiffe_name gns = Some (first_some uri_identity (uri_names gns))"
proof (induction gns)
  case Nil
  then show ?case by (simp add: uri_names_def)
next
  case (Cons gn gns)
  show ?case
  proof (cases gn)
    case (URI u)
    with Cons.prems have u: "valid_utf8 u" "list_all valid_utf8 (uri_names gns)"
      by (simp_all add: uri_names_def)
    have n: "uri_names (gn # gns) = u # uri_names gns" using URI by (simp add: uri_names_def)
    from u(1) show ?thesis
      by (rule SpiffeId_from_uri_cases) (use URI n Cons.IH [OF u(2)] in simp_all)
  next
    case (OtherName x)
    with Cons show ?thesis by (simp add: uri_names_def)
  qed
qed

lemma first_spiffe_ext_spec:
  "list_all valid_utf8 (san_uris exts) \<Longrightarrow>
     first_spiffe_ext exts = Some (first_some uri_identity (san_uris exts))"
proof (induction exts)
  case Nil
  then show ?case by (simp add: san_uris_def)
next
  case (Cons e exts)
  have s: "san_uris (e # exts) = ext_uris e @ san_uris exts" by (simp add: san_uris_def)
  with Cons have IH: "first_spiffe_ext exts = Some (first_some uri_identity (san_uris exts))"
    and v: "list_all valid_utf8 (ext_uris e)" by simp_all
  show ?case
    using v by (auto simp: s IH ext_uris_def first_some_append first_spiffe_name_spec
        split: ParsedExtension.split option.split)
qed

lemma spiffe_id_from_cert_der_spec:
  assumes "pki_utf8 p"
  shows "spiffe_id_from_cert_der p der = Some (case x509_parse p der of
      Inl e \<Rightarrow> Inl (Identity (''cert parse: '' @ e))
    | Inr exts \<Rightarrow> ok_or (Identity ''no SPIFFE URI in SAN extension'')
                    (first_some uri_identity (san_uris exts)))"
  using assms by (auto simp: spiffe_id_from_cert_der_def pki_utf8_def first_spiffe_ext_spec split: sum.split)

lemma cert_identity_canonical:
  assumes "pki_utf8 p" and "spiffe_id_from_cert_der p der = Some (Inr i)"
  shows "valid_id i" and "canonical_id i"
proof -
  from assms obtain exts where "x509_parse p der = Inr exts" "first_some uri_identity (san_uris exts) = Some i"
    by (auto simp: spiffe_id_from_cert_der_spec ok_or_def split: sum.splits option.splits)
  then obtain u where "u \<in> set (san_uris exts)" "uri_identity u = Some i" "valid_utf8 u"
    using assms(1) first_some_SomeD by (fastforce simp: pki_utf8_def list_all_iff)
  then have "SpiffeId_from_uri u = Some (Inr i)" "valid_utf8 u"
    by (auto simp: uri_identity_def split: option.splits sum.splits)
  then show "valid_id i" "canonical_id i" using SpiffeId_from_uri_canonical by blast+
qed

subsection \<open>The identity cache\<close>

definition cache_coherent :: "pki \<Rightarrow> globals \<Rightarrow> bool" where
  "cache_coherent p g = (\<forall>der i. g_cache g der = Some i \<longrightarrow> spiffe_id_from_cert_der p der = Some (Inr i))"

definition tls_ok :: "pki \<Rightarrow> globals \<Rightarrow> bool" where
  "tls_ok p g = (pki_utf8 p \<and> cache_coherent p g)"

text \<open>The identity of a session, read from its certificates without a cache.\<close>

definition session_identity :: "pki \<Rightarrow> tls_session \<Rightarrow> (InterlinkError, SpiffeId) result panicky" where
  "session_identity p s =
     (case peer_certificates s of
        None \<Rightarrow> Some (Inl (Identity ''no peer certificate''))
      | Some [] \<Rightarrow> Some (Inl (Identity ''empty certificate chain''))
      | Some (leaf # _) \<Rightarrow> spiffe_id_from_cert_der p leaf)"

lemma on_metrics_simps [simp]:
  "g_metrics (on_metrics f g) = f (g_metrics g)" "g_cache (on_metrics f g) = g_cache g"
  by (simp_all add: on_metrics_def)

lemma tls_ok_on_metrics [simp]: "tls_ok p (on_metrics f g) = tls_ok p g"
  by (simp add: tls_ok_def cache_coherent_def)

lemma extract_identity_uncached:
  assumes "tls_ok p g"
  shows "\<exists>r g'. extract_identity_from_tls_stream p keep s g = Some (r, g')
    \<and> session_identity p s = Some r \<and> tls_ok p g' \<and> g_metrics g' = g_metrics g"
proof (cases "peer_certificates s")
  case None
  then show ?thesis using assms by (simp add: extract_identity_from_tls_stream_def session_identity_def)
next
  case (Some certs)
  show ?thesis
  proof (cases certs)
    case Nil
    with Some show ?thesis using assms
      by (simp add: extract_identity_from_tls_stream_def session_identity_def)
  next
    case (Cons leaf rest)
    let ?g = "g\<lparr>g_cache := g_cache g |` keep\<rparr>"
    have ok: "tls_ok p ?g" using assms by (auto simp: tls_ok_def cache_coherent_def restrict_map_def split: if_splits)
    show ?thesis
    proof (cases "g_cache ?g leaf")
      case None
      obtain r where r: "spiffe_id_from_cert_der p leaf = Some r"
        using spiffe_id_from_cert_der_spec assms by (auto simp: tls_ok_def)
      have "tls_ok p (?g\<lparr>g_cache := (g_cache ?g)(leaf \<mapsto> i)\<rparr>)" if "r = Inr i" for i
        using ok r that by (auto simp: tls_ok_def cache_coherent_def)
      with r None Some Cons ok show ?thesis
        by (cases r) (auto simp: extract_identity_from_tls_stream_def session_identity_def Let_def)
    next
      case hit: (Some i)
      with ok have "spiffe_id_from_cert_der p leaf = Some (Inr i)" unfolding tls_ok_def cache_coherent_def by blast
      with hit Some Cons ok show ?thesis
        by (auto simp: extract_identity_from_tls_stream_def session_identity_def Let_def)
    qed
  qed
qed

lemma finish_handshake_spec:
  assumes "tls_ok p g"
  shows "\<exists>r g'. finish_handshake p keep out g = Some (r, g') \<and> tls_ok p g'
    \<and> (\<forall>ts. r = Inr ts \<longrightarrow> out = Established (ts_inner ts)
         \<and> session_identity p (ts_inner ts) = Some (Inr (ts_peer_identity ts)))
    \<and> (g_metrics g' = g_metrics g \<or> (\<exists>b. g_metrics g' = record_handshake_kind b (g_metrics g)))"
proof (cases out)
  case (Established s)
  obtain r g' where r: "extract_identity_from_tls_stream p keep s
      (on_metrics (record_handshake_kind (handshake_resumed s)) g) = Some (r, g')"
    "session_identity p s = Some r" "tls_ok p g'"
    "g_metrics g' = record_handshake_kind (handshake_resumed s) (g_metrics g)"
    using extract_identity_uncached [of p "on_metrics (record_handshake_kind (handshake_resumed s)) g" keep s]
      assms by auto
  then show ?thesis using Established by (cases r) (auto simp: finish_handshake_def)
qed (use assms in \<open>auto simp: finish_handshake_def\<close>)

text \<open>The same said of the certificate: the peer's leaf carries the identity.\<close>

definition leaf_names :: "pki \<Rightarrow> tls_session \<Rightarrow> SpiffeId \<Rightarrow> bool" where
  "leaf_names p s ident =
     (\<exists>leaf ints. peer_certificates s = Some (leaf # ints) \<and> spiffe_id_from_cert_der p leaf = Some (Inr ident))"

lemma leaf_names_iff: "leaf_names p s ident \<longleftrightarrow> session_identity p s = Some (Inr ident)"
  by (auto simp: leaf_names_def session_identity_def split: option.splits list.splits)

lemma session_identity_canonical:
  assumes "pki_utf8 p" and "session_identity p s = Some (Inr i)"
  shows "valid_id i \<and> canonical_id i"
  using assms cert_identity_canonical by (auto simp: session_identity_def split: option.splits list.splits)

subsection \<open>The handshake interface\<close>

text \<open>
  What the proxies rely on of a \<open>TlsHandshake\<close> object, for one call on one connection: it
  returns, it keeps the process state in order, the peer identity it reports is a well-formed
  SPIFFE identity, and of the metrics it touches at most the handshake kind.
\<close>

locale tls_endpoint =
  fixes shake :: "globals \<Rightarrow> ((InterlinkError, TlsStream) result \<times> globals) panicky"
    and ok :: "globals \<Rightarrow> bool"
  assumes shake_returns: "ok g \<Longrightarrow> \<exists>r g'. shake g = Some (r, g') \<and> ok g'"
    and shake_identity: "ok g \<Longrightarrow> shake g = Some (Inr ts, g') \<Longrightarrow>
      valid_id (ts_peer_identity ts) \<and> canonical_id (ts_peer_identity ts)"
    and shake_metrics: "ok g \<Longrightarrow> shake g = Some (r, g') \<Longrightarrow>
      g_metrics g' = g_metrics g \<or> (\<exists>b. g_metrics g' = record_handshake_kind b (g_metrics g))"
    and ok_metrics: "ok (on_metrics f g) = ok g"
begin

lemma shake_frame:
  assumes "ok g" and "shake g = Some (r, g')"
  shows "connections_active (g_metrics g') = connections_active (g_metrics g)"
    and "connections_total (g_metrics g') = connections_total (g_metrics g)"
    and "connection_duration (g_metrics g') = connection_duration (g_metrics g)"
    and "connection_errors_total (g_metrics g') = connection_errors_total (g_metrics g)"
  using shake_metrics [OF assms] by (auto simp: metrics_simps)

lemma shake_cases:
  assumes "ok g"
  obtains e g' where "shake g = Some (Inl e, g')" "ok g'"
  | ts g' where "shake g = Some (Inr ts, g')" "ok g'" "valid_id (ts_peer_identity ts)"
proof -
  obtain r g' where "shake g = Some (r, g')" "ok g'" using shake_returns [OF assms] by blast
  then show ?thesis using that shake_identity [OF assms] by (cases r) auto
qed

end

lemma finish_handshake_endpoint: "tls_endpoint (finish_handshake p keep out) (tls_ok p)"
proof
  fix g assume "tls_ok p g"
  then show "\<exists>r g'. finish_handshake p keep out g = Some (r, g') \<and> tls_ok p g'"
    using finish_handshake_spec by blast
next
  fix g ts g' assume ok: "tls_ok p g" and f: "finish_handshake p keep out g = Some (Inr ts, g')"
  then have "session_identity p (ts_inner ts) = Some (Inr (ts_peer_identity ts))"
    using finish_handshake_spec [OF ok, of keep out] by auto
  then show "valid_id (ts_peer_identity ts) \<and> canonical_id (ts_peer_identity ts)"
    using ok session_identity_canonical unfolding tls_ok_def by blast
next
  fix g r g' assume ok: "tls_ok p g" and f: "finish_handshake p keep out g = Some (r, g')"
  then show "g_metrics g' = g_metrics g \<or> (\<exists>b. g_metrics g' = record_handshake_kind b (g_metrics g))"
    using finish_handshake_spec [OF ok, of keep out] by auto
qed simp

lemma refusing_endpoint: "tls_endpoint (\<lambda>g. Some (Inl e, g)) (tls_ok p)"
  by unfold_locales auto

interpretation server_accept: tls_endpoint "TlsServer_accept p keep out self" "tls_ok p" for p keep out self
  using finish_handshake_endpoint [of p keep "out self"] by (simp add: TlsServer_accept_def [abs_def])

interpretation client_connect: tls_endpoint "TlsClient_connect p keep net out self addr" "tls_ok p"
  for p keep net out self addr
proof (cases "net self addr")
  case (Inl e)
  then show "tls_endpoint (TlsClient_connect p keep net out self addr) (tls_ok p)"
    using refusing_endpoint [of "Io e" p] by (simp add: TlsClient_connect_def [abs_def])
next
  case (Inr u)
  then show "tls_endpoint (TlsClient_connect p keep net out self addr) (tls_ok p)"
    using finish_handshake_endpoint [of p keep "out self addr"] by (simp add: TlsClient_connect_def [abs_def])
qed

interpretation client_accept: tls_endpoint TlsClient_accept "tls_ok p" for p
  using refusing_endpoint by (simp add: TlsClient_accept_def [abs_def])

interpretation server_connect: tls_endpoint TlsServer_connect "tls_ok p" for p
  using refusing_endpoint by (simp add: TlsServer_connect_def [abs_def])

subsection \<open>The verifier\<close>

lemma verify_server_cert_ok_iff:
  assumes "pki_utf8 p"
  shows "verify_server_cert p self ee ints now = Some (Inr ()) \<longleftrightarrow>
    is_ok (end_entity_parse p ee) \<and> is_ok (path_validate p ee (sv_roots self) ints now)
    \<and> (\<exists>i. spiffe_id_from_cert_der p ee = Some (Inr i) \<and> trust_domain i = sv_trust_domain self)"
proof -
  obtain r where r: "spiffe_id_from_cert_der p ee = Some r"
    using spiffe_id_from_cert_der_spec [OF assms] by blast
  show ?thesis
    by (cases "end_entity_parse p ee"; cases "path_validate p ee (sv_roots self) ints now"; cases r)
       (auto simp: verify_server_cert_def r)
qed

text \<open>
  The documented contract of rustls: a client session is only established on a chain its
  certificate verifier has accepted, and the session reports that chain.
\<close>

definition honours_verifier :: "pki \<Rightarrow> TlsClient \<Rightarrow> (TlsClient \<Rightarrow> SocketAddr \<Rightarrow> handshake_outcome) \<Rightarrow> bool" where
  "honours_verifier p self out =
     (\<forall>addr s. out self addr = Established s \<longrightarrow>
        (\<exists>ee ints now. peer_certificates s = Some (ee # ints)
           \<and> verify_server_cert p (client_checks self) ee ints now = Some (Inr ())))"

lemma TlsClient_connect_Inr:
  assumes "tls_ok p g" and "TlsClient_connect p keep net out self addr g = Some (Inr ts, g')"
  shows "out self addr = Established (ts_inner ts)"
    and "session_identity p (ts_inner ts) = Some (Inr (ts_peer_identity ts))"
proof -
  have "finish_handshake p keep (out self addr) g = Some (Inr ts, g')"
    using assms(2) by (auto simp: TlsClient_connect_def split: sum.splits)
  then show "out self addr = Established (ts_inner ts)"
    "session_identity p (ts_inner ts) = Some (Inr (ts_peer_identity ts))"
    using finish_handshake_spec [OF assms(1), of keep "out self addr"] by auto
qed

lemma client_peer_verified:
  assumes "tls_ok p g" and "honours_verifier p self out"
    and "TlsClient_connect p keep net out self addr g = Some (Inr ts, g')"
  shows "trust_domain (ts_peer_identity ts) = sv_trust_domain (client_checks self)
    \<and> (\<exists>ee ints now. peer_certificates (ts_inner ts) = Some (ee # ints)
         \<and> is_ok (path_validate p ee (sv_roots (client_checks self)) ints now)
         \<and> spiffe_id_from_cert_der p ee = Some (Inr (ts_peer_identity ts)))"
proof -
  note c = TlsClient_connect_Inr [OF assms(1,3)]
  from c(1) assms(2) obtain ee ints now where "peer_certificates (ts_inner ts) = Some (ee # ints)"
    "verify_server_cert p (client_checks self) ee ints now = Some (Inr ())"
    unfolding honours_verifier_def by blast
  moreover from this(1) c(2) have "spiffe_id_from_cert_der p ee = Some (Inr (ts_peer_identity ts))"
    by (simp add: session_identity_def)
  ultimately show ?thesis
    using assms(1) verify_server_cert_ok_iff [of p "client_checks self" ee ints now] by (auto simp: tls_ok_def)
qed

lemma add_roots_ok_iff:
  "add_roots p store cas = Inr store' \<longleftrightarrow> (\<forall>ca \<in> set cas. is_ok (root_add p ca)) \<and> store' = store @ cas"
proof (induction cas arbitrary: store)
  case (Cons ca cas)
  then show ?case by (cases "root_add p ca") auto
qed auto

subsection \<open>Properties\<close>

text \<open>
  C17. The identity cache is transparent: whatever it has evicted, as long as it only holds what
  earlier extractions put there, extracting a session's identity gives the result of reading the
  leaf certificate afresh, and the cache stays that way.
\<close>

theorem identity_cache_transparent:
  assumes "pki_utf8 p" and "cache_coherent p g"
  shows "\<exists>r g'. extract_identity_from_tls_stream p keep s g = Some (r, g')
    \<and> session_identity p s = Some r \<and> cache_coherent p g' \<and> g_metrics g' = g_metrics g"
  using extract_identity_uncached [of p g keep s] assms unfolding tls_ok_def by blast

text \<open>A PKI with one certificate that carries two URI names, for the witnesses.\<close>

definition sample_pki :: pki where
  "sample_pki =
     \<lparr>x509_parse = (\<lambda>der. if der = ''leaf'' then Inr [\<lparr>ext_oid = SAN_OID, ext_parsed = SubjectAlternativeName
                      [URI ''https://x'', OtherName ''ip'', URI ''spiffe://t/ns/n/sa/s'']\<rparr>] else Inl ''bad''),
      end_entity_parse = (\<lambda>_. Inr ()), path_validate = (\<lambda>_ _ _ _. Inr ()), root_add = (\<lambda>_. Inr ()),
      client_auth_cert = (\<lambda>_ _. Inr ()), single_cert = (\<lambda>_ _. Inr ()), client_verifier = (\<lambda>_. Inr ()),
      tls_text = (\<lambda>_. [])\<rparr>"

definition sample_id :: SpiffeId where
  "sample_id = SpiffeId_new ''t'' ''n'' ''s''"

definition sample_session :: tls_session where
  "sample_session = \<lparr>peer_certificates = Some [''leaf''], alpn_protocol = None, handshake_resumed = False\<rparr>"

definition sample_globals :: globals where
  "sample_globals = \<lparr>g_metrics = InterlinkMetrics_new, g_cache = Map.empty\<rparr>"

lemma sample_pki_utf8: "pki_utf8 sample_pki"
proof -
  have "san_uris exts = [''https://x'', ''spiffe://t/ns/n/sa/s'']" if "x509_parse sample_pki der = Inr exts" for der exts
    using that by (auto simp: sample_pki_def san_uris_def ext_uris_def uri_names_def split: if_splits)
  moreover have "list_all valid_utf8 [''https://x'', ''spiffe://t/ns/n/sa/s'']"
    by (simp add: valid_utf8_all_ascii byte_def)
  ultimately show ?thesis by (metis pki_utf8_def)
qed

lemma sample_cert: "spiffe_id_from_cert_der sample_pki ''leaf'' = Some (Inr sample_id)"
  by code_simp

lemma sample_coherent: "cache_coherent sample_pki sample_globals" "tls_ok sample_pki sample_globals"
  by (simp_all add: cache_coherent_def tls_ok_def sample_globals_def sample_pki_utf8)

theorem identity_cache_transparent_witness:
  "\<exists>g'. extract_identity_from_tls_stream sample_pki UNIV sample_session sample_globals = Some (Inr sample_id, g')"
proof -
  have "session_identity sample_pki sample_session = Some (Inr sample_id)"
    by (simp add: session_identity_def sample_session_def sample_cert)
  then show ?thesis using identity_cache_transparent [OF sample_pki_utf8 sample_coherent(1), of UNIV sample_session] by auto
qed

text \<open>
  A certificate's identity is the first URI name, over its subject-alternative-name extensions
  in order, that parses as a SPIFFE URI; it is canonical, and a certificate with none is an
  error.
\<close>

lemma cert_identity_is_first_spiffe_name:
  assumes "pki_utf8 p" and "x509_parse p der = Inr exts"
  shows "(spiffe_id_from_cert_der p der = Some (Inr i) \<longrightarrow>
       valid_id i \<and> canonical_id i
       \<and> (\<exists>us u vs. san_uris exts = us @ u # vs \<and> SpiffeId_from_uri u = Some (Inr i)
            \<and> (\<forall>x \<in> set us. uri_identity x = None)))
    \<and> (spiffe_id_from_cert_der p der = Some (Inl (Identity ''no SPIFFE URI in SAN extension'')) \<longleftrightarrow>
       (\<forall>u \<in> set (san_uris exts). uri_identity u = None))"
proof -
  have spec: "spiffe_id_from_cert_der p der = Some (ok_or (Identity ''no SPIFFE URI in SAN extension'')
      (first_some uri_identity (san_uris exts)))"
    using spiffe_id_from_cert_der_spec [OF assms(1)] assms(2) by simp
  have u: "SpiffeId_from_uri x = Some (Inr i)" if "uri_identity x = Some i" for x
    using that by (auto simp: uri_identity_def split: option.splits sum.splits)
  have "\<exists>us x vs. san_uris exts = us @ x # vs \<and> SpiffeId_from_uri x = Some (Inr i) \<and> (\<forall>y \<in> set us. uri_identity y = None)"
    if "spiffe_id_from_cert_der p der = Some (Inr i)"
    using that first_some_Some_split [of uri_identity "san_uris exts" i] u
    by (fastforce simp: spec ok_or_def split: option.splits)
  moreover have "spiffe_id_from_cert_der p der = Some (Inl (Identity ''no SPIFFE URI in SAN extension'')) \<longleftrightarrow>
      (\<forall>u \<in> set (san_uris exts). uri_identity u = None)"
    by (auto simp: spec ok_or_def first_some_None_iff [symmetric] split: option.splits)
  ultimately show ?thesis using cert_identity_canonical [OF assms(1)] by blast
qed

text \<open>
  C24. The server verifier fails closed: it accepts a certificate exactly when the certificate
  parses, its path validates to our roots, and its SPIFFE identity is in our trust domain.
\<close>

theorem verifier_accepts_iff:
  assumes "pki_utf8 p"
  shows "\<exists>r. verify_server_cert p self ee ints now = Some r \<and>
    (r = Inr () \<longleftrightarrow> is_ok (end_entity_parse p ee) \<and> is_ok (path_validate p ee (sv_roots self) ints now)
       \<and> (\<exists>i. spiffe_id_from_cert_der p ee = Some (Inr i) \<and> trust_domain i = sv_trust_domain self))"
proof -
  obtain r where r: "spiffe_id_from_cert_der p ee = Some r"
    using spiffe_id_from_cert_der_spec [OF assms] by blast
  then have "verify_server_cert p self ee ints now \<noteq> None"
    by (auto simp: verify_server_cert_def split: sum.split)
  then show ?thesis using verify_server_cert_ok_iff [OF assms, of self ee ints now] by auto
qed

theorem verifier_accepts_iff_witness:
  "verify_server_cert sample_pki (SpiffeServerVerifier_new [''ca''] ''t'') ''leaf'' [] 0 = Some (Inr ())"
proof -
  have "is_ok (end_entity_parse sample_pki ''leaf'')" "is_ok (path_validate sample_pki ''leaf'' [''ca''] [] 0)"
    "trust_domain sample_id = ''t''" by (simp_all add: sample_pki_def sample_id_def SpiffeId_new_def)
  with verifier_accepts_iff [OF sample_pki_utf8, of "SpiffeServerVerifier_new [''ca''] ''t''" "''leaf''" "[]" 0] sample_cert
  show ?thesis by (auto simp: SpiffeServerVerifier_new_def)
qed

text \<open>
  C21. Outbound authentication: when rustls honours the installed verifier, a connection the TLS
  client hands to the proxy has a peer of our trust domain, whose identity is the one its
  validated leaf certificate carries.
\<close>

theorem client_peer_authenticated:
  assumes "tls_ok p g" and "honours_verifier p self out"
    and "TlsClient_connect p keep net out self addr g = Some (Inr ts, g')"
  shows "trust_domain (ts_peer_identity ts) = sv_trust_domain (client_checks self)
    \<and> (\<exists>ee ints now. peer_certificates (ts_inner ts) = Some (ee # ints)
         \<and> is_ok (path_validate p ee (sv_roots (client_checks self)) ints now)
         \<and> spiffe_id_from_cert_der p ee = Some (Inr (ts_peer_identity ts)))"
  using assms by (rule client_peer_verified)

definition sample_client :: TlsClient where
  "sample_client = \<lparr>client_checks = SpiffeServerVerifier_new [''ca''] ''t'', client_auth = None, client_alpn = alpn_protocols\<rparr>"

theorem client_peer_authenticated_witness:
  "trust_domain sample_id = sv_trust_domain (client_checks sample_client)"
proof -
  let ?out = "\<lambda>_ _. Established sample_session" and ?addr = "SocketAddr_new (V4 10 0 0 1) 443"
  have "verify_server_cert sample_pki (client_checks sample_client) ''leaf'' [] 0 = Some (Inr ())" by code_simp
  then have h: "honours_verifier sample_pki sample_client ?out"
    by (auto simp: honours_verifier_def sample_session_def)
  have "\<exists>g'. TlsClient_connect sample_pki UNIV (\<lambda>_ _. Inr ()) ?out sample_client ?addr sample_globals =
      Some (Inr \<lparr>ts_inner = sample_session, ts_peer_identity = sample_id\<rparr>, g')"
    by (simp add: TlsClient_connect_def finish_handshake_def extract_identity_from_tls_stream_def
        sample_session_def sample_globals_def sample_cert Let_def)
  then obtain g' where "TlsClient_connect sample_pki UNIV (\<lambda>_ _. Inr ()) ?out sample_client ?addr sample_globals =
      Some (Inr \<lparr>ts_inner = sample_session, ts_peer_identity = sample_id\<rparr>, g')" by blast
  from client_peer_authenticated [OF sample_coherent(2) h this] show ?thesis by simp
qed

end
