(* ===== verification/Mux_Pool.thy ===== *)
theory Mux_Pool
  imports Handshake
begin

text \<open>
  The client half of \<open>src/proxy/mux.rs\<close>: the pool of multiplexed tunnels. What Rust shares by
  reference lives in heaps of the pool record: the live-stream counter of each tunnel, by its id,
  and the creation mutexes. A \<open>MuxStream\<close> holds one unit of its tunnel's counter until it is
  dropped. \<open>tun_session\<close> is the TLS session that \<open>register\<close> hands to the tunnel's driver, over which
  all its streams run. Each pool operation is one atomic step; the loads a pick compares are read
  at once.
\<close>

definition STREAMS_PER_TUNNEL :: nat where "STREAMS_PER_TUNNEL = 200"
definition MAX_TUNNELS_PER_PEER :: nat where "MAX_TUNNELS_PER_PEER = 16"

record Tunnel =
  tun_id :: nat
  tun_peer :: SpiffeId
  tun_session :: tls_session

record MuxPool =
  peers :: "SocketAddr \<rightharpoonup> Tunnel list"
  creating :: "SocketAddr \<rightharpoonup> nat"
  lock_held :: "nat \<Rightarrow> bool"
  lock_next :: nat
  live :: "nat \<Rightarrow> nat"
  tunnel_next :: nat

definition MuxPool_new :: MuxPool where
  "MuxPool_new = \<lparr>peers = Map.empty, creating = Map.empty, lock_held = (\<lambda>_. False), lock_next = 0,
                  live = (\<lambda>_. 0), tunnel_next = 0\<rparr>"

definition tunnel_load :: "MuxPool \<Rightarrow> Tunnel \<Rightarrow> nat" where
  "tunnel_load self t = live self (tun_id t)"

text \<open>\<open>Iterator::min_by_key\<close>: the first of the elements with the least key.\<close>

fun min_by_key :: "('a \<Rightarrow> nat) \<Rightarrow> 'a list \<Rightarrow> 'a option" where
  "min_by_key f [] = None"
| "min_by_key f (x # xs) = (case min_by_key f xs of None \<Rightarrow> Some x | Some y \<Rightarrow> if f x \<le> f y then Some x else Some y)"

definition pick_under_cap :: "MuxPool \<Rightarrow> SocketAddr \<Rightarrow> Tunnel option" where
  "pick_under_cap self addr =
     do { tunnels \<leftarrow> peers self addr;
          min_by_key (tunnel_load self) (filter (\<lambda>t. tunnel_load self t < STREAMS_PER_TUNNEL) tunnels) }"

definition pick_any :: "MuxPool \<Rightarrow> SocketAddr \<Rightarrow> Tunnel option" where
  "pick_any self addr = do { tunnels \<leftarrow> peers self addr; min_by_key (tunnel_load self) tunnels }"

definition can_grow :: "MuxPool \<Rightarrow> SocketAddr \<Rightarrow> bool" where
  "can_grow self addr =
     ((case peers self addr of None \<Rightarrow> 0 | Some ts \<Rightarrow> length ts) < MAX_TUNNELS_PER_PEER)"

definition evict :: "MuxPool \<Rightarrow> SocketAddr \<Rightarrow> Tunnel \<Rightarrow> MuxPool" where
  "evict self addr tunnel =
     (case peers self addr of
        Some tunnels \<Rightarrow>
          self\<lparr>peers := (peers self)(addr \<mapsto> filter (\<lambda>t. tun_id t \<noteq> tun_id tunnel) tunnels)\<rparr>
      | None \<Rightarrow> self)"

definition creation_lock :: "MuxPool \<Rightarrow> SocketAddr \<Rightarrow> MuxPool \<times> nat" where
  "creation_lock self addr =
     (case creating self addr of
        Some l \<Rightarrow> (self, l)
      | None \<Rightarrow>
          (self\<lparr>creating := (creating self)(addr \<mapsto> lock_next self),
                lock_held := (lock_held self)(lock_next self := False), lock_next := Suc (lock_next self)\<rparr>,
           lock_next self))"

definition register ::
  "MuxPool \<Rightarrow> SocketAddr \<Rightarrow> tls_session \<Rightarrow> SpiffeId \<Rightarrow> InterlinkMetrics \<Rightarrow> MuxPool \<times> Tunnel \<times> InterlinkMetrics" where
  "register self addr tls peer_identity m =
     (let tunnel = \<lparr>tun_id = tunnel_next self, tun_peer = peer_identity, tun_session = tls\<rparr> in
      (self\<lparr>peers := (peers self)(addr \<mapsto> (case peers self addr of None \<Rightarrow> [] | Some ts \<Rightarrow> ts) @ [tunnel]),
            live := (live self)(tunnel_next self := 0), tunnel_next := Suc (tunnel_next self)\<rparr>,
       tunnel, record_mux_tunnel_opened m))"

text \<open>\<open>open_stream\<close>: the reservation before it awaits the driver, and the drop of the guard.\<close>

definition reserve :: "MuxPool \<Rightarrow> Tunnel \<Rightarrow> MuxPool" where
  "reserve self t = self\<lparr>live := (live self)(tun_id t := live self (tun_id t) + 1)\<rparr>"

definition drop_guard :: "MuxPool \<Rightarrow> Tunnel \<Rightarrow> MuxPool" where
  "drop_guard self t = self\<lparr>live := (live self)(tun_id t := live self (tun_id t) - 1)\<rparr>"

text \<open>The four ways the wait for the driver's answer ends, and what \<open>open_stream\<close> makes of them.\<close>

datatype open_reply = Opened | QueueClosed | OpenError string | DriverGone

fun open_stream_result :: "open_reply \<Rightarrow> (IoError, unit) result" where
  "open_stream_result Opened = Inr ()"
| "open_stream_result QueueClosed = Inl \<lparr>io_kind = BrokenPipe, io_text = ''tunnel closed''\<rparr>"
| "open_stream_result (OpenError e) = Inl \<lparr>io_kind = IoOther, io_text = e\<rparr>"
| "open_stream_result DriverGone = Inl \<lparr>io_kind = BrokenPipe, io_text = ''tunnel driver exited''\<rparr>"

definition lock :: "MuxPool \<Rightarrow> nat \<Rightarrow> MuxPool option" where
  "lock self l = (if lock_held self l then None else Some (self\<lparr>lock_held := (lock_held self)(l := True)\<rparr>))"

definition unlock :: "MuxPool \<Rightarrow> nat option \<Rightarrow> MuxPool" where
  "unlock self guard = (case guard of None \<Rightarrow> self | Some l \<Rightarrow> self\<lparr>lock_held := (lock_held self)(l := False)\<rparr>)"

subsection \<open>Picking\<close>

definition tunnels :: "MuxPool \<Rightarrow> SocketAddr \<Rightarrow> Tunnel list" where
  "tunnels self addr = (case peers self addr of None \<Rightarrow> [] | Some ts \<Rightarrow> ts)"

lemma min_by_key_None [simp]: "min_by_key f xs = None \<longleftrightarrow> xs = []"
  by (cases xs) (auto split: option.splits)

lemma min_by_key_Some:
  "min_by_key f xs = Some x \<Longrightarrow> x \<in> set xs \<and> (\<forall>y \<in> set xs. f x \<le> f y)"
proof (induction xs arbitrary: x)
  case (Cons a xs)
  then show ?case by (cases "min_by_key f xs") (force split: if_splits)+
qed simp

lemma pick_under_cap_Some:
  assumes "pick_under_cap self addr = Some t"
  shows "t \<in> set (tunnels self addr)" and "tunnel_load self t < STREAMS_PER_TUNNEL"
    and "\<forall>u \<in> set (tunnels self addr). tunnel_load self t \<le> tunnel_load self u"
proof -
  from assms obtain ts where ts: "peers self addr = Some ts"
    "min_by_key (tunnel_load self) (filter (\<lambda>t. tunnel_load self t < STREAMS_PER_TUNNEL) ts) = Some t"
    by (auto simp: pick_under_cap_def bind_eq_Some_conv)
  note m = min_by_key_Some [OF ts(2)]
  then show "t \<in> set (tunnels self addr)" "tunnel_load self t < STREAMS_PER_TUNNEL"
    using ts(1) by (auto simp: tunnels_def)
  then show "\<forall>u \<in> set (tunnels self addr). tunnel_load self t \<le> tunnel_load self u"
    using m ts(1) by (force simp: tunnels_def)
qed

lemma pick_under_cap_None:
  "pick_under_cap self addr = None \<longleftrightarrow>
     (\<forall>u \<in> set (tunnels self addr). STREAMS_PER_TUNNEL \<le> tunnel_load self u)"
  by (cases "peers self addr") (auto simp: pick_under_cap_def tunnels_def filter_empty_conv not_less)

lemma pick_any_Some:
  "pick_any self addr = Some t \<Longrightarrow> t \<in> set (tunnels self addr) \<and>
     (\<forall>u \<in> set (tunnels self addr). tunnel_load self t \<le> tunnel_load self u)"
  using min_by_key_Some by (fastforce simp: pick_any_def tunnels_def bind_eq_Some_conv)

lemma pick_any_None: "pick_any self addr = None \<longleftrightarrow> tunnels self addr = []"
  by (cases "peers self addr") (auto simp: pick_any_def tunnels_def)

subsection \<open>The pool interface\<close>

text \<open>
  What the outbound proxy relies on of a tunnel pool: a pick is a member, growing appends one new
  tunnel to the peer, dropping removes by id from that peer only, and there is room as long as
  the peer has fewer tunnels than the cap.
\<close>

locale tunnel_pool =
  fixes tunnels_of :: "'p \<Rightarrow> SocketAddr \<Rightarrow> Tunnel list"
    and pick :: "'p \<Rightarrow> SocketAddr \<Rightarrow> Tunnel option"
    and grow :: "'p \<Rightarrow> SocketAddr \<Rightarrow> SpiffeId \<Rightarrow> 'p \<times> Tunnel"
    and remove :: "'p \<Rightarrow> SocketAddr \<Rightarrow> Tunnel \<Rightarrow> 'p"
    and room :: "'p \<Rightarrow> SocketAddr \<Rightarrow> bool"
    and cap :: nat
  assumes pick_member: "pick s a = Some t \<Longrightarrow> t \<in> set (tunnels_of s a)"
    and grow_tunnels: "grow s a i = (s', t) \<Longrightarrow>
      tunnels_of s' b = (if b = a then tunnels_of s a @ [t] else tunnels_of s b)"
    and grow_peer: "grow s a i = (s', t) \<Longrightarrow> tun_peer t = i"
    and remove_tunnels: "tunnels_of (remove s a t) b =
      (if b = a then filter (\<lambda>u. tun_id u \<noteq> tun_id t) (tunnels_of s a) else tunnels_of s b)"
    and room_iff: "room s a \<longleftrightarrow> length (tunnels_of s a) < cap"
begin

lemma bounded_grow:
  assumes "\<forall>b. length (tunnels_of s b) \<le> cap" and "room s a" and "grow s a i = (s', t)"
  shows "\<forall>b. length (tunnels_of s' b) \<le> cap"
  using assms by (auto simp: grow_tunnels [OF assms(3)] room_iff Suc_le_eq)

lemma remove_shrinks: "length (tunnels_of (remove s a t) b) \<le> length (tunnels_of s b)"
  by (simp add: remove_tunnels)

lemma bounded_remove:
  assumes "\<forall>b. length (tunnels_of s b) \<le> cap"
  shows "\<forall>b. length (tunnels_of (remove s a t) b) \<le> cap"
  using assms remove_shrinks order_trans by blast

lemma remove_member:
  "u \<in> set (tunnels_of (remove s a t) b) \<longleftrightarrow> u \<in> set (tunnels_of s b) \<and> \<not> (b = a \<and> tun_id u = tun_id t)"
  by (auto simp: remove_tunnels)

lemma peers_grow:
  assumes "\<forall>b. \<forall>u \<in> set (tunnels_of s b). Q (tun_peer u)" and "grow s a i = (s', t)" and "Q i"
  shows "\<forall>b. \<forall>u \<in> set (tunnels_of s' b). Q (tun_peer u)"
  using assms grow_peer [OF assms(2)] by (auto simp: grow_tunnels [OF assms(2)])

lemma peers_remove:
  assumes "\<forall>b. \<forall>u \<in> set (tunnels_of s b). Q (tun_peer u)"
  shows "\<forall>b. \<forall>u \<in> set (tunnels_of (remove s a t) b). Q (tun_peer u)"
  using assms by (auto simp: remove_member)

end

lemma tunnels_evict:
  "tunnels (evict self a t) b =
     (if b = a then filter (\<lambda>u. tun_id u \<noteq> tun_id t) (tunnels self a) else tunnels self b)"
  by (simp add: tunnels_def evict_def split: option.split)

definition register_tunnel :: "InterlinkMetrics \<Rightarrow> tls_session \<Rightarrow> MuxPool \<Rightarrow> SocketAddr \<Rightarrow> SpiffeId \<Rightarrow> MuxPool \<times> Tunnel" where
  "register_tunnel m tls self a i = (case register self a tls i m of (self', t, _) \<Rightarrow> (self', t))"

interpretation pool: tunnel_pool tunnels pick_under_cap "register_tunnel m tls" evict can_grow MAX_TUNNELS_PER_PEER
  for m tls
proof
  fix s a t b and t' :: Tunnel and s' :: MuxPool and i
  show "pick_under_cap s a = Some t' \<Longrightarrow> t' \<in> set (tunnels s a)" by (rule pick_under_cap_Some)
  show "tunnels (evict s a t) b =
      (if b = a then filter (\<lambda>u. tun_id u \<noteq> tun_id t) (tunnels s a) else tunnels s b)" by (rule tunnels_evict)
  show "can_grow s a \<longleftrightarrow> length (tunnels s a) < MAX_TUNNELS_PER_PEER"
    by (simp add: can_grow_def tunnels_def split: option.split)
  assume "register_tunnel m tls s a i = (s', t')"
  then show "tunnels s' b = (if b = a then tunnels s a @ [t'] else tunnels s b)" "tun_peer t' = i"
    by (auto simp: register_tunnel_def register_def tunnels_def Let_def split: option.split)
qed

lemma tunnels_frame [frame_simps]:
  "tunnels (reserve self t) b = tunnels self b" "tunnels (drop_guard self t) b = tunnels self b"
  "tunnels (unlock self g) b = tunnels self b" "lock self l = Some self' \<Longrightarrow> tunnels self' b = tunnels self b"
  "tunnels (fst (creation_lock self a)) b = tunnels self b"
  by (auto simp: tunnels_def reserve_def drop_guard_def unlock_def lock_def creation_lock_def
      split: option.split if_splits)

subsection \<open>Properties\<close>

text \<open>
  Load balancing: \<open>pick_under_cap\<close> returns a tunnel of the peer that is under the soft cap of
  200 streams and no more loaded than any other of the peer's tunnels, and returns none exactly
  when every tunnel of the peer is at the cap; \<open>pick_any\<close> returns a least-loaded one whenever
  there is any.
\<close>

lemma picks_least_loaded:
  "(case pick_under_cap self addr of
      Some t \<Rightarrow> t \<in> set (tunnels self addr) \<and> tunnel_load self t < 200
        \<and> (\<forall>u \<in> set (tunnels self addr). tunnel_load self t \<le> tunnel_load self u)
    | None \<Rightarrow> \<forall>u \<in> set (tunnels self addr). 200 \<le> tunnel_load self u)
   \<and> (case pick_any self addr of
      Some t \<Rightarrow> t \<in> set (tunnels self addr)
        \<and> (\<forall>u \<in> set (tunnels self addr). tunnel_load self t \<le> tunnel_load self u)
    | None \<Rightarrow> tunnels self addr = [])"
proof -
  have "STREAMS_PER_TUNNEL = 200" by (simp add: STREAMS_PER_TUNNEL_def)
  then show ?thesis
    using pick_under_cap_Some [of self addr] pick_under_cap_None [of self addr]
      pick_any_Some [of self addr] pick_any_None [of self addr]
    by (auto split: option.splits)
qed

definition sample_peer :: SocketAddr where
  "sample_peer = SocketAddr_new (V4 10 0 0 1) 4143"

definition sample_pool :: MuxPool where
  "sample_pool = fst (register_tunnel InterlinkMetrics_new sample_session (fst (register_tunnel InterlinkMetrics_new sample_session
      MuxPool_new sample_peer sample_id)) sample_peer sample_id)"

end
