(* ===== verification/Discovery.thy ===== *)
theory Discovery
  imports Net_Addr Spiffe_Id
begin

text \<open>
  \<open>src/discovery/dns.rs\<close>: DNS service discovery with a TTL cache and a leader elected per name
  through a one-permit semaphore. \<open>resolve\<close> runs in many tasks at once, so it is a state
  machine with one step between any two accesses to shared state; semaphores live in a heap
  (\<open>sd_permits\<close>), because tasks keep clones of them after the map has dropped its own. The
  resolver's answers and the clock are inputs of the steps.
\<close>

record ResolvedEndpoints =
  addrs :: "SocketAddr list"
  ep_spiffe_id :: "SpiffeId option"

record CacheEntry =
  ce_endpoints :: "ResolvedEndpoints option"
  expires_at :: nat

record ServiceDiscovery =
  sd_cache :: "string \<rightharpoonup> CacheEntry"
  sd_in_flight :: "string \<rightharpoonup> nat"
  sd_permits :: "nat \<Rightarrow> nat"
  sd_next :: nat
  sd_ttl :: nat

type_synonym resolve_result = "(InterlinkError, ResolvedEndpoints) result"
type_synonym lookup_result = "(InterlinkError, SocketAddr list) result"

definition DNS_CACHE_TTL :: nat where "DNS_CACHE_TTL = 30"

definition with_resolver :: "nat \<Rightarrow> ServiceDiscovery" where
  "with_resolver ttl =
     \<lparr>sd_cache = Map.empty, sd_in_flight = Map.empty, sd_permits = (\<lambda>_. 0), sd_next = 0, sd_ttl = ttl\<rparr>"

text \<open>
  The production resolver: hickory reads the system configuration and builds a resolver from it,
  either of which may fail. The resolver itself shows only in the answers of its lookups.
\<close>

definition HickoryResolver_new :: "(string, 'b) result \<Rightarrow> ('b \<Rightarrow> (string, 'r) result) \<Rightarrow> (string, 'r) result" where
  "HickoryResolver_new builder_tokio build = and_then builder_tokio build"

definition ServiceDiscovery_new :: "(string, 'b) result \<Rightarrow> ('b \<Rightarrow> (string, 'r) result) \<Rightarrow> (string, ServiceDiscovery) result" where
  "ServiceDiscovery_new builder_tokio build =
     and_then (HickoryResolver_new builder_tokio build) (\<lambda>resolver. Inr (with_resolver DNS_CACHE_TTL))"

lemma ServiceDiscovery_new_simps [simp]:
  "ServiceDiscovery_new (Inl e) build = Inl e"
  "ServiceDiscovery_new (Inr b) build = and_then (build b) (\<lambda>resolver. Inr (with_resolver DNS_CACHE_TTL))"
  "ServiceDiscovery_new r Inr = Inl e \<longleftrightarrow> r = Inl e"
  by (cases r; simp add: ServiceDiscovery_new_def HickoryResolver_new_def)+

text \<open>\<open>HickoryResolver::lookup\<close>: the third-party resolver yields addresses or a rendered error.\<close>

definition HickoryResolver_lookup :: "(string \<Rightarrow> (string, IpAddr list) result) \<Rightarrow> string \<Rightarrow> lookup_result" where
  "HickoryResolver_lookup lookup_ip name =
     and_then (map_err (\<lambda>e. DnsResolution (''lookup failed: '' @ e)) (lookup_ip name))
              (\<lambda>ips. Inr (map (\<lambda>ip. SocketAddr_new ip 0) ips))"

definition is_expired :: "nat \<Rightarrow> CacheEntry \<Rightarrow> bool" where
  "is_expired now e = (expires_at e \<le> now)"

definition resolve_inner :: "lookup_result \<Rightarrow> resolve_result" where
  "resolve_inner r = and_then r (\<lambda>a. Inr \<lparr>addrs = a, ep_spiffe_id = None\<rparr>)"

definition clear_cache :: "ServiceDiscovery \<Rightarrow> ServiceDiscovery" where
  "clear_cache self = self\<lparr>sd_cache := Map.empty\<rparr>"

subsection \<open>One task\<close>

datatype resolve_pc =
    RStart string
  | RElect string
  | RTry string nat
  | RLookup string nat
  | RStore string nat resolve_result
  | RRemove string nat resolve_result
  | RWait string nat
  | RRead string nat
  | RRelease string nat resolve_result
  | RDone string resolve_result

definition cached :: "ServiceDiscovery \<Rightarrow> nat \<Rightarrow> string \<Rightarrow> ResolvedEndpoints option" where
  "cached self now name =
     (case sd_cache self name of
        Some entry \<Rightarrow> if \<not> is_expired now entry then ce_endpoints entry else None
      | None \<Rightarrow> None)"

definition acquire :: "nat \<Rightarrow> ServiceDiscovery \<Rightarrow> ServiceDiscovery option" where
  "acquire sem self =
     (if 0 < sd_permits self sem
      then Some (self\<lparr>sd_permits := (sd_permits self)(sem := sd_permits self sem - 1)\<rparr>) else None)"

definition release :: "nat \<Rightarrow> ServiceDiscovery \<Rightarrow> ServiceDiscovery" where
  "release sem self = self\<lparr>sd_permits := (sd_permits self)(sem := sd_permits self sem + 1)\<rparr>"

fun resolve_step ::
  "nat \<Rightarrow> lookup_result \<Rightarrow> ServiceDiscovery \<Rightarrow> resolve_pc \<Rightarrow> (ServiceDiscovery \<times> resolve_pc) option" where
  "resolve_step now answer self (RStart name) =
     (case cached self now name of
        Some ep \<Rightarrow> Some (self, RDone name (Inr ep))
      | None \<Rightarrow> Some (self, RElect name))"
| "resolve_step now answer self (RElect name) =
     (case sd_in_flight self name of
        Some sem \<Rightarrow> Some (self, RTry name sem)
      | None \<Rightarrow>
          (let sem = sd_next self in
           Some (self\<lparr>sd_in_flight := (sd_in_flight self)(name \<mapsto> sem),
                      sd_permits := (sd_permits self)(sem := 1), sd_next := Suc sem\<rparr>, RTry name sem)))"
| "resolve_step now answer self (RTry name sem) =
     (case acquire sem self of
        Some self' \<Rightarrow> Some (self', RLookup name sem)
      | None \<Rightarrow> Some (self, RWait name sem))"
| "resolve_step now answer self (RLookup name sem) =
     Some (self, RStore name sem (resolve_inner answer))"
| "resolve_step now answer self (RStore name sem r) =
     Some (self\<lparr>sd_cache := (sd_cache self)
              (name \<mapsto> \<lparr>ce_endpoints = result_ok r, expires_at = now + sd_ttl self\<rparr>)\<rparr>, RRemove name sem r)"
| "resolve_step now answer self (RRemove name sem r) =
     Some (self\<lparr>sd_in_flight := (sd_in_flight self)(name := None)\<rparr>, RRelease name sem r)"
| "resolve_step now answer self (RWait name sem) =
     (case acquire sem self of
        Some self' \<Rightarrow> Some (self', RRead name sem)
      | None \<Rightarrow> None)"
| "resolve_step now answer self (RRead name sem) =
     Some (self, RRelease name sem
       (ok_or (DnsResolution ''lookup failed'')
              (case sd_cache self name of Some e \<Rightarrow> ce_endpoints e | None \<Rightarrow> None)))"
| "resolve_step now answer self (RRelease name sem r) = Some (release sem self, RDone name r)"
| "resolve_step now answer self (RDone name r) = None"

subsection \<open>Many tasks\<close>

text \<open>
  The service with its tasks; \<open>lookups\<close> is the log of the answers the resolver has given.
  Calls start, any task takes its next step, time passes and the cache may be cleared, in any
  order.
\<close>

record dns_system =
  disc :: ServiceDiscovery
  clock :: nat
  dns_tasks :: "nat \<rightharpoonup> resolve_pc"
  lookups :: "(string \<times> lookup_result) list"

definition logged :: "resolve_pc \<Rightarrow> lookup_result \<Rightarrow> (string \<times> lookup_result) list" where
  "logged pc answer = (case pc of RLookup name _ \<Rightarrow> [(name, answer)] | _ \<Rightarrow> [])"

definition advance :: "nat \<Rightarrow> lookup_result \<Rightarrow> dns_system \<Rightarrow> dns_system option" where
  "advance t answer s =
     do {
       pc \<leftarrow> dns_tasks s t;
       (self, pc') \<leftarrow> resolve_step (clock s) answer (disc s) pc;
       Some (s\<lparr>disc := self, dns_tasks := (dns_tasks s)(t \<mapsto> pc'), lookups := logged pc answer @ lookups s\<rparr>)
     }"

inductive dns_step :: "dns_system \<Rightarrow> dns_system \<Rightarrow> bool" where
  call: "dns_tasks s t = None \<Longrightarrow> dns_step s (s\<lparr>dns_tasks := (dns_tasks s)(t \<mapsto> RStart name)\<rparr>)"
| task: "advance t answer s = Some s' \<Longrightarrow> dns_step s s'"
| tick: "dns_step s (s\<lparr>clock := clock s + d\<rparr>)"
| clear: "dns_step s (s\<lparr>disc := clear_cache (disc s)\<rparr>)"

definition dns_start :: "nat \<Rightarrow> dns_system" where
  "dns_start ttl = \<lparr>disc = with_resolver ttl, clock = 0, dns_tasks = Map.empty, lookups = []\<rparr>"

inductive dns_reachable :: "nat \<Rightarrow> dns_system \<Rightarrow> bool" where
  initial: "dns_reachable ttl (dns_start ttl)"
| further: "dns_reachable ttl s \<Longrightarrow> dns_step s s' \<Longrightarrow> dns_reachable ttl s'"

subsection \<open>One permit per semaphore\<close>

fun holds :: "nat \<Rightarrow> resolve_pc \<Rightarrow> bool" where
  "holds sem (RLookup _ m) = (m = sem)"
| "holds sem (RStore _ m _) = (m = sem)"
| "holds sem (RRemove _ m _) = (m = sem)"
| "holds sem (RRead _ m) = (m = sem)"
| "holds sem (RRelease _ m _) = (m = sem)"
| "holds sem _ = False"

fun pc_sem :: "resolve_pc \<Rightarrow> nat option" where
  "pc_sem (RTry _ m) = Some m"
| "pc_sem (RLookup _ m) = Some m"
| "pc_sem (RStore _ m _) = Some m"
| "pc_sem (RRemove _ m _) = Some m"
| "pc_sem (RWait _ m) = Some m"
| "pc_sem (RRead _ m) = Some m"
| "pc_sem (RRelease _ m _) = Some m"
| "pc_sem _ = None"

definition holders :: "dns_system \<Rightarrow> nat \<Rightarrow> nat set" where
  "holders s sem = {t. \<exists>pc. dns_tasks s t = Some pc \<and> holds sem pc}"

definition known_sems :: "dns_system \<Rightarrow> bool" where
  "known_sems s =
     ((\<forall>t pc m. dns_tasks s t = Some pc \<longrightarrow> pc_sem pc = Some m \<longrightarrow> m < sd_next (disc s))
      \<and> (\<forall>n m. sd_in_flight (disc s) n = Some m \<longrightarrow> m < sd_next (disc s)))"

definition one_permit :: "dns_system \<Rightarrow> bool" where
  "one_permit s =
     (\<forall>sem < sd_next (disc s).
        sd_permits (disc s) sem = 1 \<and> holders s sem = {}
        \<or> sd_permits (disc s) sem = 0 \<and> (\<exists>t. holders s sem = {t}))"

lemma holds_pc_sem: "holds sem pc \<Longrightarrow> pc_sem pc = Some sem"
  by (cases pc) auto

lemma holders_unknown: "known_sems s \<Longrightarrow> sd_next (disc s) \<le> sem \<Longrightarrow> holders s sem = {}"
  by (fastforce simp: holders_def known_sems_def dest: holds_pc_sem)

lemma holders_task:
  assumes "dns_tasks s t = Some pc"
  shows "holders (s\<lparr>disc := d, dns_tasks := (dns_tasks s)(t \<mapsto> pc'), lookups := l\<rparr>) sem =
    (if holds sem pc' then insert t (holders s sem) else holders s sem - {t})"
  by (auto simp: holders_def)

lemma holders_member: "dns_tasks s t = Some pc \<Longrightarrow> t \<in> holders s sem \<longleftrightarrow> holds sem pc"
  by (simp add: holders_def)

lemma holders_frame [simp]:
  "holders (s\<lparr>clock := c\<rparr>) sem = holders s sem" "holders (s\<lparr>disc := d\<rparr>) sem = holders s sem"
  by (simp_all add: holders_def)

lemma resolve_step_next: "resolve_step now a d pc = Some (d', pc') \<Longrightarrow> sd_next d \<le> sd_next d'"
  by (induction now a d pc rule: resolve_step.induct)
     (auto simp: acquire_def release_def Let_def split: option.splits if_splits)

lemma resolve_step_sems:
  assumes "resolve_step now a d pc = Some (d', pc')"
    and "\<And>m. pc_sem pc = Some m \<Longrightarrow> m < sd_next d" and "\<And>n m. sd_in_flight d n = Some m \<Longrightarrow> m < sd_next d"
  shows "pc_sem pc' = Some m \<Longrightarrow> m < sd_next d'" and "sd_in_flight d' n = Some m \<Longrightarrow> m < sd_next d'"
  using assms
  by (induction now a d pc rule: resolve_step.induct)
     (auto simp: acquire_def release_def Let_def less_Suc_eq split: option.splits if_splits)

lemma advanceE:
  assumes "advance t a s = Some s'"
  obtains pc d' pc' where "dns_tasks s t = Some pc" "resolve_step (clock s) a (disc s) pc = Some (d', pc')"
    "s' = s\<lparr>disc := d', dns_tasks := (dns_tasks s)(t \<mapsto> pc'), lookups := logged pc a @ lookups s\<rparr>"
  using assms by (auto simp: advance_def bind_eq_Some_conv)

lemma known_sems_step:
  assumes "dns_step s s'" and "known_sems s"
  shows "known_sems s'"
  using assms(1)
proof cases
  case (task t a)
  then obtain pc d' pc' where t: "dns_tasks s t = Some pc"
    and st: "resolve_step (clock s) a (disc s) pc = Some (d', pc')"
    and s': "s' = s\<lparr>disc := d', dns_tasks := (dns_tasks s)(t \<mapsto> pc'), lookups := logged pc a @ lookups s\<rparr>"
    by (rule advanceE)
  have k: "\<And>m. pc_sem pc = Some m \<Longrightarrow> m < sd_next (disc s)"
    "\<And>n m. sd_in_flight (disc s) n = Some m \<Longrightarrow> m < sd_next (disc s)"
    using assms(2) t by (auto simp: known_sems_def)
  note sems = resolve_step_sems [OF st k]
  have "m < sd_next d'" if "dns_tasks s t' = Some p" "pc_sem p = Some m" for t' p m
    using assms(2) that resolve_step_next [OF st] unfolding known_sems_def by (meson less_le_trans)
  then show ?thesis unfolding s' known_sems_def using sems by auto
qed (use assms(2) in \<open>auto simp: known_sems_def clear_cache_def\<close>)

text \<open>What a step does to the permits, by whether its task held one before and after.\<close>

lemma resolve_step_permits:
  assumes "resolve_step now a d pc = Some (d', pc')" and "sem < sd_next d"
  shows "holds sem pc \<and> holds sem pc' \<and> sd_permits d' sem = sd_permits d sem
    \<or> \<not> holds sem pc \<and> \<not> holds sem pc' \<and> sd_permits d' sem = sd_permits d sem
    \<or> \<not> holds sem pc \<and> holds sem pc' \<and> 0 < sd_permits d sem \<and> sd_permits d' sem = sd_permits d sem - 1
    \<or> holds sem pc \<and> \<not> holds sem pc' \<and> sd_permits d' sem = sd_permits d sem + 1"
  using assms
  by (induction now a d pc rule: resolve_step.induct)
     (auto simp: acquire_def release_def Let_def split: option.splits if_splits)

lemma resolve_step_fresh:
  assumes "resolve_step now a d pc = Some (d', pc')" and "sd_next d \<le> sem" and "sem < sd_next d'"
  shows "sd_permits d' sem = 1 \<and> \<not> holds sem pc'"
  using assms
  by (induction now a d pc rule: resolve_step.induct)
     (auto simp: acquire_def release_def Let_def split: option.splits if_splits)

lemma permit_step:
  fixes P P' :: nat and H H' :: "nat set"
  assumes "P = 1 \<and> H = {} \<or> P = 0 \<and> (\<exists>u. H = {u})" and "t \<in> H \<longleftrightarrow> h"
    and "h \<and> h' \<and> P' = P \<or> \<not> h \<and> \<not> h' \<and> P' = P \<or> \<not> h \<and> h' \<and> 0 < P \<and> P' = P - 1
      \<or> h \<and> \<not> h' \<and> P' = P + 1"
    and "H' = (if h' then insert t H else H - {t})"
  shows "P' = 1 \<and> H' = {} \<or> P' = 0 \<and> (\<exists>u. H' = {u})"
proof (cases "P = 1 \<and> H = {}")
  case True
  with assms(2-4) show ?thesis by (cases h') auto
next
  case False
  with assms(1) obtain u where "P = 0" "H = {u}" by blast
  with assms(2-4) show ?thesis by (cases h; cases h') auto
qed

lemma one_permit_step:
  assumes "dns_step s s'" and "known_sems s" and "one_permit s"
  shows "one_permit s'"
  using assms(1)
proof cases
  case (call t name)
  then have "holders s' sem = holders s sem" for sem by (auto simp: holders_def)
  then show ?thesis using assms(3) call by (simp add: one_permit_def)
next
  case (task t a)
  then obtain pc d' pc' where t: "dns_tasks s t = Some pc"
    and st: "resolve_step (clock s) a (disc s) pc = Some (d', pc')"
    and s': "s' = s\<lparr>disc := d', dns_tasks := (dns_tasks s)(t \<mapsto> pc'), lookups := logged pc a @ lookups s\<rparr>"
    by (rule advanceE)
  show ?thesis unfolding one_permit_def
  proof (intro allI impI)
    fix sem assume sem: "sem < sd_next (disc s')"
    have h: "holders s' sem = (if holds sem pc' then insert t (holders s sem) else holders s sem - {t})"
      unfolding s' by (rule holders_task [OF t])
    show "sd_permits (disc s') sem = 1 \<and> holders s' sem = {}
        \<or> sd_permits (disc s') sem = 0 \<and> (\<exists>t. holders s' sem = {t})"
    proof (cases "sem < sd_next (disc s)")
      case True
      with assms(3) have o: "sd_permits (disc s) sem = 1 \<and> holders s sem = {}
          \<or> sd_permits (disc s) sem = 0 \<and> (\<exists>t. holders s sem = {t})" by (simp add: one_permit_def)
      have m: "t \<in> holders s sem \<longleftrightarrow> holds sem pc" by (rule holders_member [OF t])
      have "disc s' = d'" by (simp add: s')
      then show ?thesis using permit_step [OF o m _ h] resolve_step_permits [OF st True] by simp
    next
      case False
      then have "holders s sem = {}" using holders_unknown [OF assms(2)] by simp
      then show ?thesis using resolve_step_fresh [OF st, of sem] False sem h unfolding s' by simp
    qed
  qed
qed (use assms(3) in \<open>auto simp: one_permit_def clear_cache_def\<close>)

lemma dns_start_inv: "known_sems (dns_start ttl)" "one_permit (dns_start ttl)"
  by (simp_all add: dns_start_def with_resolver_def known_sems_def one_permit_def)

lemma dns_reachable_inv: "dns_reachable ttl s \<Longrightarrow> known_sems s \<and> one_permit s"
  by (induction rule: dns_reachable.induct)
     (auto simp: dns_start_inv intro: known_sems_step one_permit_step)

lemma lookup_unique:
  assumes "dns_reachable ttl s" and "dns_tasks s t = Some pc" and "dns_tasks s t' = Some pc'"
    and "holds sem pc" and "holds sem pc'"
  shows "t = t'"
proof -
  from assms(1) have i: "known_sems s" "one_permit s" using dns_reachable_inv by blast+
  have "sem < sd_next (disc s)" using i(1) assms(2,4) holds_pc_sem by (auto simp: known_sems_def)
  then have "holders s sem = {} \<or> (\<exists>u. holders s sem = {u})" using i(2) by (auto simp: one_permit_def)
  moreover have "t \<in> holders s sem" "t' \<in> holders s sem" using assms(2-5) by (auto simp: holders_def)
  ultimately show ?thesis by auto
qed

subsection \<open>Answers are the resolver's\<close>

fun pc_result :: "resolve_pc \<Rightarrow> (string \<times> resolve_result) option" where
  "pc_result (RStore n _ r) = Some (n, r)"
| "pc_result (RRemove n _ r) = Some (n, r)"
| "pc_result (RRelease n _ r) = Some (n, r)"
| "pc_result (RDone n r) = Some (n, r)"
| "pc_result _ = None"

definition genuine :: "(string \<times> lookup_result) list \<Rightarrow> string \<Rightarrow> ResolvedEndpoints \<Rightarrow> bool" where
  "genuine ls n ep = ((n, Inr (addrs ep)) \<in> set ls \<and> ep_spiffe_id ep = None)"

definition genuine_cache :: "(string \<times> lookup_result) list \<Rightarrow> ServiceDiscovery \<Rightarrow> bool" where
  "genuine_cache ls d =
     (\<forall>n e ep. sd_cache d n = Some e \<longrightarrow> ce_endpoints e = Some ep \<longrightarrow> genuine ls n ep)"

definition genuine_pc :: "(string \<times> lookup_result) list \<Rightarrow> resolve_pc \<Rightarrow> bool" where
  "genuine_pc ls pc = (\<forall>n ep. pc_result pc = Some (n, Inr ep) \<longrightarrow> genuine ls n ep)"

lemma cached_genuine: "genuine_cache ls d \<Longrightarrow> cached d now n = Some ep \<Longrightarrow> genuine ls n ep"
  by (auto simp: genuine_cache_def cached_def split: option.splits if_splits)

lemma resolve_inner_Inr: "resolve_inner a = Inr ep \<longleftrightarrow> a = Inr (addrs ep) \<and> ep_spiffe_id ep = None"
  by (cases a) (auto simp: resolve_inner_def)

lemma resolve_step_genuine:
  assumes "resolve_step now a d pc = Some (d', pc')" and "genuine_cache ls d" and "genuine_pc ls pc"
  shows "genuine_cache (logged pc a @ ls) d' \<and> genuine_pc (logged pc a @ ls) pc'"
proof (cases pc)
  case (RStart n)
  with assms show ?thesis
    by (auto simp: logged_def genuine_pc_def split: option.splits intro: cached_genuine)
next
  case (RElect n)
  with assms show ?thesis
    by (auto simp: logged_def genuine_pc_def genuine_cache_def Let_def split: option.splits)
next
  case (RTry n m)
  with assms show ?thesis
    by (auto simp: logged_def genuine_pc_def genuine_cache_def acquire_def split: option.splits if_splits)
next
  case (RLookup n m)
  with assms show ?thesis
    by (auto simp: logged_def genuine_pc_def genuine_cache_def genuine_def resolve_inner_Inr)
next
  case (RStore n m r)
  with assms show ?thesis
    by (cases r) (auto simp: logged_def genuine_pc_def genuine_cache_def split: if_splits)
next
  case (RWait n m)
  with assms show ?thesis
    by (auto simp: logged_def genuine_pc_def genuine_cache_def acquire_def split: option.splits if_splits)
next
  case (RRead n m)
  with assms show ?thesis
    by (auto simp: logged_def genuine_pc_def genuine_cache_def ok_or_def split: option.splits)
qed (use assms in \<open>auto simp: logged_def genuine_pc_def genuine_cache_def release_def\<close>)

definition genuine_system :: "dns_system \<Rightarrow> bool" where
  "genuine_system s =
     (genuine_cache (lookups s) (disc s) \<and> (\<forall>t pc. dns_tasks s t = Some pc \<longrightarrow> genuine_pc (lookups s) pc))"

lemma genuine_step:
  assumes "dns_step s s'" and "genuine_system s"
  shows "genuine_system s'"
  using assms(1)
proof cases
  case (task t a)
  then obtain pc d' pc' where t: "dns_tasks s t = Some pc"
    and st: "resolve_step (clock s) a (disc s) pc = Some (d', pc')"
    and s': "s' = s\<lparr>disc := d', dns_tasks := (dns_tasks s)(t \<mapsto> pc'), lookups := logged pc a @ lookups s\<rparr>"
    by (rule advanceE)
  have g: "genuine_cache (logged pc a @ lookups s) d'" "genuine_pc (logged pc a @ lookups s) pc'"
    using resolve_step_genuine [OF st] assms(2) t by (auto simp: genuine_system_def)
  have "genuine_pc (logged pc a @ lookups s) p" if "dns_tasks s u = Some p" for u p
    using that assms(2) unfolding genuine_system_def genuine_pc_def genuine_def by auto
  then show ?thesis unfolding s' genuine_system_def using g by auto
qed (use assms(2) in \<open>auto simp: genuine_system_def genuine_cache_def genuine_pc_def clear_cache_def\<close>)

lemma genuine_start: "genuine_system (dns_start ttl)"
  by (simp add: dns_start_def with_resolver_def genuine_system_def genuine_cache_def)

lemma dns_reachable_genuine: "dns_reachable ttl s \<Longrightarrow> genuine_system s"
  by (induction rule: dns_reachable.induct) (auto intro: genuine_start genuine_step)

subsection \<open>Progress\<close>

lemma holder_advances:
  assumes "dns_tasks s t = Some pc" and "holds sem pc"
  shows "\<exists>s'. advance t a s = Some s'"
  using assms by (cases pc) (auto simp: advance_def)

lemma advance_blocked:
  assumes "dns_tasks s t = Some pc" and "advance t a s = None"
  shows "(\<exists>n r. pc = RDone n r) \<or> (\<exists>n sem. pc = RWait n sem \<and> sd_permits (disc s) sem = 0)"
  using assms
  by (cases pc) (auto simp: advance_def acquire_def Let_def bind_eq_None_conv split: option.splits if_splits)

lemma some_task_advances:
  assumes "dns_reachable ttl s" and t: "dns_tasks s t = Some pc" and "\<And>n r. pc \<noteq> RDone n r"
  shows "\<exists>t' s'. advance t' a s = Some s'"
proof (cases "advance t a s")
  case None
  then obtain n sem where w: "pc = RWait n sem" "sd_permits (disc s) sem = 0"
    using advance_blocked [OF t] assms(3) by blast
  have i: "known_sems s" "one_permit s" using assms(1) dns_reachable_inv by blast+
  then have "sem < sd_next (disc s)" using t w by (auto simp: known_sems_def)
  then obtain u where "holders s sem = {u}" using i(2) w(2) by (auto simp: one_permit_def)
  then obtain p where "dns_tasks s u = Some p" "holds sem p" by (auto simp: holders_def)
  then show ?thesis using holder_advances by blast
qed blast

subsection \<open>One call on its own\<close>

fun resolve_alone ::
  "nat \<Rightarrow> nat \<Rightarrow> lookup_result \<Rightarrow> ServiceDiscovery \<Rightarrow> resolve_pc \<Rightarrow> (ServiceDiscovery \<times> resolve_result) option" where
  "resolve_alone 0 now a self pc = None"
| "resolve_alone (Suc fuel) now a self pc =
     (case pc of
        RDone _ r \<Rightarrow> Some (self, r)
      | _ \<Rightarrow> do { (self, pc) \<leftarrow> resolve_step now a self pc; resolve_alone fuel now a self pc })"

lemma resolve_alone_hit:
  "cached self now name = Some ep \<Longrightarrow> resolve_alone (Suc (Suc k)) now a self (RStart name) = Some (self, Inr ep)"
  by simp

lemma resolve_alone_miss:
  assumes "cached self now name = None" and "sd_in_flight self name = None"
  shows "resolve_alone 8 now a self (RStart name) = Some
    (self\<lparr>sd_cache := (sd_cache self)(name \<mapsto>
            \<lparr>ce_endpoints = result_ok (resolve_inner a), expires_at = now + sd_ttl self\<rparr>),
          sd_permits := (sd_permits self)(sd_next self := 1), sd_next := Suc (sd_next self)\<rparr>, resolve_inner a)"
proof -
  have f: "(sd_in_flight self)(name := None) = sd_in_flight self" using assms(2) by (simp add: fun_upd_idem)
  show ?thesis
    by (simp add: eval_nat_numeral assms acquire_def release_def Let_def f)
qed

subsection \<open>Schedules\<close>

text \<open>A schedule as a list of events, to replay a concrete interleaving.\<close>

datatype dns_event = Call nat string | Turn nat lookup_result | Tick nat | ClearCache

fun dns_exec :: "dns_event list \<Rightarrow> dns_system \<Rightarrow> dns_system option" where
  "dns_exec [] s = Some s"
| "dns_exec (Call t name # evs) s =
     (if dns_tasks s t = None then dns_exec evs (s\<lparr>dns_tasks := (dns_tasks s)(t \<mapsto> RStart name)\<rparr>) else None)"
| "dns_exec (Turn t answer # evs) s = do { s \<leftarrow> advance t answer s; dns_exec evs s }"
| "dns_exec (Tick d # evs) s = dns_exec evs (s\<lparr>clock := clock s + d\<rparr>)"
| "dns_exec (ClearCache # evs) s = dns_exec evs (s\<lparr>disc := clear_cache (disc s)\<rparr>)"

lemma dns_exec_reachable: "dns_reachable ttl s \<Longrightarrow> dns_exec evs s = Some s' \<Longrightarrow> dns_reachable ttl s'"
proof (induction evs s rule: dns_exec.induct)
  case (3 t answer evs s)
  from "3.prems"(2) obtain s1 where s1: "advance t answer s = Some s1" "dns_exec evs s1 = Some s'"
    by (auto simp: bind_eq_Some_conv)
  then have "dns_reachable ttl s1" using "3.prems"(1) dns_step.task dns_reachable.further by blast
  with s1 "3.IH" show ?case by blast
qed (auto split: if_splits intro: dns_reachable.further dns_step.intros)

text \<open>
  A task that has cloned a semaphore keeps it when the leader removes it from the map: after a
  failed lookup a second leader is elected on a new semaphore while the first one's is taken up
  again.
\<close>

definition two_leaders :: "dns_event list" where
  "two_leaders =
     (let fail = Inl (DnsResolution ''down'') in
      [Call 1 ''svc'', Call 2 ''svc'', Turn 1 fail, Turn 1 fail, Turn 1 fail,
       Turn 2 fail, Turn 2 fail, Turn 1 fail, Turn 1 fail, Turn 1 fail, Turn 1 fail,
       Call 3 ''svc'', Turn 3 fail, Turn 3 fail, Turn 3 fail, Turn 2 fail])"

lemma two_leaders_run:
  "\<exists>s. dns_exec two_leaders (dns_start 30) = Some s \<and> dns_tasks s 2 = Some (RLookup ''svc'' 0)
     \<and> dns_tasks s 3 = Some (RLookup ''svc'' 1)"
  by (simp add: two_leaders_def dns_start_def with_resolver_def advance_def cached_def is_expired_def
      acquire_def release_def resolve_inner_def Let_def)

theorem lookups_overlap:
  "\<exists>s. dns_reachable 30 s \<and> dns_tasks s 2 = Some (RLookup ''svc'' 0) \<and> dns_tasks s 3 = Some (RLookup ''svc'' 1)"
  using two_leaders_run dns_exec_reachable dns_reachable.initial by blast

subsection \<open>Properties\<close>

text \<open>
  C19. Whatever the interleaving of calls, clock and cache clears, a semaphore is held by at most one
  task, from the moment the task takes the permit until it gives it back: while the leader looks the
  name up, stores the answer and withdraws the semaphore from the table, and while a waiter that was
  woken reads the cache. The permit of a semaphore is out exactly while such a task exists.
\<close>

theorem one_leader_per_semaphore:
  assumes "dns_reachable ttl s"
  shows "(dns_tasks s t = Some pc \<longrightarrow> dns_tasks s t' = Some pc' \<longrightarrow> holds sem pc \<longrightarrow> holds sem pc' \<longrightarrow> t = t')
    \<and> (sem < sd_next (disc s) \<longrightarrow> sd_permits (disc s) sem = (if \<exists>u p. dns_tasks s u = Some p \<and> holds sem p then 0 else 1))"
proof (intro conjI impI)
  assume "sem < sd_next (disc s)"
  then have "sd_permits (disc s) sem = 1 \<and> holders s sem = {} \<or> sd_permits (disc s) sem = 0 \<and> (\<exists>t. holders s sem = {t})"
    using dns_reachable_inv [OF assms] by (simp add: one_permit_def)
  then show "sd_permits (disc s) sem = (if \<exists>u p. dns_tasks s u = Some p \<and> holds sem p then 0 else 1)"
    by (auto simp: holders_def)
qed (rule lookup_unique [OF assms])

text \<open>One task looks a name up while another one waits for the same semaphore.\<close>

definition one_leader_run :: dns_system where
  "one_leader_run = the (dns_exec [Call 1 ''svc'', Call 2 ''svc'', Turn 1 (Inr []), Turn 1 (Inr []), Turn 1 (Inr []), Turn 1 (Inr []),
     Turn 2 (Inr []), Turn 2 (Inr []), Turn 2 (Inr [])] (dns_start 30))"

lemma one_leader_run_facts:
  "dns_reachable 30 one_leader_run" "dns_tasks one_leader_run 1 = Some (RStore ''svc'' 0 (Inr \<lparr>addrs = [], ep_spiffe_id = None\<rparr>))"
  "dns_tasks one_leader_run 2 = Some (RWait ''svc'' 0)" "sd_next (disc one_leader_run) = 1"
proof -
  let ?es = "[Call 1 ''svc'', Call 2 ''svc'', Turn 1 (Inr []), Turn 1 (Inr []), Turn 1 (Inr []), Turn 1 (Inr []),
     Turn 2 (Inr []), Turn 2 (Inr []), Turn 2 (Inr [])]"
  have "\<exists>s. dns_exec ?es (dns_start 30) = Some s
      \<and> dns_tasks s 1 = Some (RStore ''svc'' 0 (Inr \<lparr>addrs = [], ep_spiffe_id = None\<rparr>))
      \<and> dns_tasks s 2 = Some (RWait ''svc'' 0) \<and> sd_next (disc s) = 1"
    by (simp add: dns_start_def with_resolver_def advance_def cached_def acquire_def resolve_inner_def Let_def)
  then obtain s where s: "dns_exec ?es (dns_start 30) = Some s"
      "dns_tasks s 1 = Some (RStore ''svc'' 0 (Inr \<lparr>addrs = [], ep_spiffe_id = None\<rparr>))"
      "dns_tasks s 2 = Some (RWait ''svc'' 0)" "sd_next (disc s) = 1" by blast
  then have "one_leader_run = s" by (simp only: one_leader_run_def option.sel)
  with s show "dns_reachable 30 one_leader_run"
    "dns_tasks one_leader_run 1 = Some (RStore ''svc'' 0 (Inr \<lparr>addrs = [], ep_spiffe_id = None\<rparr>))"
    "dns_tasks one_leader_run 2 = Some (RWait ''svc'' 0)" "sd_next (disc one_leader_run) = 1"
    using dns_exec_reachable [OF dns_reachable.initial] by blast+
qed

theorem one_leader_per_semaphore_witness:
  "sd_permits (disc one_leader_run) 0 = 0 \<and> holders one_leader_run 0 = {1}"
proof (rule conjI)
  note run = one_leader_run_facts(1) and held = one_leader_run_facts(2)
  have out: "\<exists>u p. dns_tasks one_leader_run u = Some p \<and> holds 0 p"
    by (intro exI conjI, rule held) simp
  have "(0 :: nat) < sd_next (disc one_leader_run)" using one_leader_run_facts(4) by simp
  then show "sd_permits (disc one_leader_run) 0 = 0"
    using one_leader_per_semaphore [OF run, of 0 _ 0 _ 0, THEN conjunct2] out by (simp only: if_True simp_thms)
  have "t = 1" if "dns_tasks one_leader_run t = Some pc" "holds 0 pc" for t pc
    by (rule one_leader_per_semaphore [OF run, THEN conjunct1, rule_format, OF that(1) held that(2)]) simp
  moreover have "1 \<in> holders one_leader_run 0" using held by (simp add: holders_def)
  ultimately show "holders one_leader_run 0 = {1}" unfolding holders_def by blast
qed

text \<open>
  C20. Discovery never makes endpoints up: a call that returns endpoints for a name returns a list
  the resolver has answered for that very name, and no peer identity.
\<close>

theorem resolved_endpoints_genuine:
  assumes "dns_reachable ttl s" and "dns_tasks s t = Some (RDone name (Inr ep))"
  shows "(name, Inr (addrs ep)) \<in> set (lookups s) \<and> ep_spiffe_id ep = None"
  using dns_reachable_genuine [OF assms(1)] assms(2)
  by (auto simp: genuine_system_def genuine_pc_def genuine_def)

theorem resolved_endpoints_genuine_witness:
  "\<exists>s :: dns_system. dns_tasks s 1 = Some (RDone ''svc'' (Inr \<lparr>addrs = [], ep_spiffe_id = None\<rparr>))
     \<and> (''svc'', Inr []) \<in> set (lookups s)"
proof -
  let ?ep = "\<lparr>addrs = [], ep_spiffe_id = None\<rparr>"
  have "\<exists>s. dns_exec (Call 1 ''svc'' # replicate 7 (Turn 1 (Inr []))) (dns_start 30) = Some s
      \<and> dns_tasks s 1 = Some (RDone ''svc'' (Inr ?ep))"
    by (simp add: eval_nat_numeral dns_start_def with_resolver_def advance_def cached_def acquire_def release_def
        resolve_inner_def Let_def)
  then obtain s where s: "dns_reachable 30 s" "dns_tasks s 1 = Some (RDone ''svc'' (Inr ?ep))"
    using dns_exec_reachable [OF dns_reachable.initial] by blast
  have "(''svc'', Inr []) \<in> set (lookups s)" using resolved_endpoints_genuine [OF s] by simp
  with s(2) show ?thesis by blast
qed

text \<open>
  C38. Discovery cannot deadlock: while some call has not returned, some task can take a step,
  whatever the resolver answers.
\<close>

theorem resolve_never_stuck:
  assumes "dns_reachable ttl s" and "dns_tasks s t = Some pc" and "\<forall>n r. pc \<noteq> RDone n r"
  shows "\<exists>t' s'. advance t' answer s = Some s'"
  using assms some_task_advances by blast

theorem resolve_never_stuck_witness: "\<exists>t' s'. advance t' (Inr []) one_leader_run = Some s'"
  using resolve_never_stuck [OF one_leader_run_facts(1,2)] by simp

text \<open>
  An uncontended call returns within eight steps: a live cache entry as it is and without a
  lookup, otherwise the resolver's answer, which it caches for the TTL when it is a success (a
  failure is never served from the cache), leaving no lookup in flight.
\<close>

lemma resolve_uncontended:
  assumes "sd_in_flight self name = None"
  shows "\<exists>self' r. resolve_alone 8 now answer self (RStart name) = Some (self', r)
    \<and> r = (case cached self now name of Some ep \<Rightarrow> Inr ep | None \<Rightarrow> resolve_inner answer)
    \<and> sd_in_flight self' = sd_in_flight self
    \<and> (cached self now name = None \<longrightarrow>
         (\<forall>later. cached self' later name =
            (if later < now + sd_ttl self then result_ok (resolve_inner answer) else None)))"
proof (cases "cached self now name")
  case None
  then show ?thesis
    using resolve_alone_miss [OF None assms, of answer] by (simp add: cached_def is_expired_def not_le)
next
  case (Some ep)
  then show ?thesis using resolve_alone_hit [OF Some, of 6 answer] by (simp add: eval_nat_numeral)
qed

end
