(* ===== verification/Proto_Detect.thy ===== *)
theory Proto_Detect
  imports Common_Error
begin

text \<open>
  \<open>src/protocol/mod.rs\<close>: sniffing the application protocol from the first plaintext bytes, and
  the check of an HTTP/1.1 request line. Both work on byte slices, where indexing below the
  length cannot panic.
\<close>

datatype DetectedProtocol = Http11 | Http2 | Tcp

abbreviation sp :: char where "sp \<equiv> CHR '' ''"
abbreviation cr :: string where "cr \<equiv> [CHR 0x0D]"

definition detect :: "bytes \<Rightarrow> DetectedProtocol" where
  "detect buf =
     (if length buf < 8 then Tcp
      else if starts_with buf ''PRI * HTTP/2'' then Http2
      else if 4 \<le> length buf \<and> is_ascii_uppercase (buf ! 0)
      then (case position (\<lambda>b. b = sp) buf of
              Some pos \<Rightarrow>
                (if 3 \<le> pos \<and> pos \<le> 7
                 then (let method = take pos buf in
                       if list_all is_ascii_uppercase method then Http11 else Tcp)
                 else Tcp)
            | None \<Rightarrow> Tcp)
      else Tcp)"

definition validate_http11_request_line :: "bytes \<Rightarrow> (InterlinkError, unit) result" where
  "validate_http11_request_line line =
     (case splitn 3 (\<lambda>b. b = sp) line of
        method # target # version # _ \<Rightarrow>
          if method = [] \<or> \<not> list_all (\<lambda>b. is_ascii_uppercase b \<or> b = CHR ''-'') method
          then Inl (Protocol ''invalid method token'')
          else if target = [] then Inl (Protocol ''empty request-target'')
          else
            (let version_trimmed = (case strip_suffix version cr of None \<Rightarrow> version | Some v \<Rightarrow> v) in
             if version_trimmed \<noteq> ''HTTP/1.0'' \<and> version_trimmed \<noteq> ''HTTP/1.1''
             then Inl (Protocol ''unsupported HTTP version'')
             else Inr ())
      | _ \<Rightarrow> Inl (Protocol ''malformed request line''))"

subsection \<open>Detection\<close>

lemma uppercase_not_sp: "is_ascii_uppercase b \<Longrightarrow> b \<noteq> sp"
  by (auto simp: is_ascii_uppercase_def byte_def)

text \<open>A buffer that opens with a method token: three to seven capitals and a space.\<close>

definition method_start :: "bytes \<Rightarrow> bool" where
  "method_start buf =
     (\<exists>m r. buf = m @ sp # r \<and> 3 \<le> length m \<and> length m \<le> 7 \<and> list_all is_ascii_uppercase m)"

lemma method_start_position:
  "method_start buf \<longleftrightarrow>
     (\<exists>pos. position (\<lambda>b. b = sp) buf = Some pos \<and> 3 \<le> pos \<and> pos \<le> 7
            \<and> list_all is_ascii_uppercase (take pos buf))" (is "_ \<longleftrightarrow> ?R")
proof
  assume "method_start buf"
  then obtain m r where m: "buf = m @ sp # r" "3 \<le> length m" "length m \<le> 7"
    "list_all is_ascii_uppercase m" by (auto simp: method_start_def)
  then have "\<forall>b \<in> set m. b \<noteq> sp" using uppercase_not_sp by (auto simp: list_all_iff)
  with m show ?R by simp
next
  assume ?R
  then obtain pos where pos: "position (\<lambda>b. b = sp) buf = Some pos" "3 \<le> pos" "pos \<le> 7"
    "list_all is_ascii_uppercase (take pos buf)" by blast
  then have "buf = take pos buf @ sp # drop (Suc pos) buf" "length (take pos buf) = pos"
    using position_Some_take [OF pos(1)] position_Some_iff [of "\<lambda>b. b = sp" buf pos] by (metis, simp)
  then show "method_start buf" unfolding method_start_def using pos by metis
qed

lemma method_start_first: "method_start buf \<Longrightarrow> is_ascii_uppercase (buf ! 0)"
  by (auto simp: method_start_def list_all_iff nth_append)

lemma detect_cases:
  "detect buf =
     (if length buf < 8 then Tcp
      else if starts_with buf ''PRI * HTTP/2'' then Http2
      else if method_start buf then Http11 else Tcp)"
proof -
  have "(case position (\<lambda>b. b = sp) buf of
           Some pos \<Rightarrow> if 3 \<le> pos \<and> pos \<le> 7
             then (let method = take pos buf in if list_all is_ascii_uppercase method then Http11 else Tcp)
             else Tcp
         | None \<Rightarrow> Tcp) = (if method_start buf then Http11 else Tcp)"
    by (auto simp: method_start_position Let_def split: option.split)
  then show ?thesis unfolding detect_def using method_start_first [of buf] by simp
qed

lemma method_start_append: "method_start buf \<Longrightarrow> method_start (buf @ rest)"
  unfolding method_start_def by (metis append.assoc append_Cons)

lemma starts_with_extend: "starts_with buf p \<Longrightarrow> starts_with (buf @ rest) p"
  by (auto simp: starts_with_iff)

text \<open>Reading on can only turn an HTTP/1.1 verdict into HTTP/2, and only within the preface.\<close>

lemma detect_extend:
  assumes "detect buf \<noteq> Tcp"
  shows "detect (buf @ rest) = detect buf \<or>
    detect buf = Http11 \<and> detect (buf @ rest) = Http2 \<and> length buf < 12"
proof (cases "starts_with buf ''PRI * HTTP/2''")
  case True
  with assms have "\<not> length buf < 8" by (auto simp: detect_cases)
  with True show ?thesis using starts_with_extend [OF True, of rest] by (simp add: detect_cases)
next
  case False
  with assms have b: "8 \<le> length buf" "method_start buf" "detect buf = Http11"
    by (auto simp: detect_cases split: if_splits)
  have "length buf < 12" if "starts_with (buf @ rest) ''PRI * HTTP/2''"
  proof (rule ccontr)
    assume "\<not> length buf < 12"
    with that have "starts_with buf ''PRI * HTTP/2''" by (simp add: starts_with_def)
    with False show False ..
  qed
  then show ?thesis using b method_start_append [OF b(2)] by (auto simp: detect_cases)
qed

subsection \<open>Request lines\<close>

lemma splitn_3:
  "splitn 3 P s =
     (case position P s of None \<Rightarrow> [s]
      | Some i \<Rightarrow> take i s #
          (case position P (drop (Suc i) s) of None \<Rightarrow> [drop (Suc i) s]
           | Some j \<Rightarrow> [take j (drop (Suc i) s), drop (Suc j) (drop (Suc i) s)]))"
  by (simp add: numeral_3_eq_3 split: option.split)

lemma splitn_3_fields:
  "splitn 3 P s = [a, b, c] \<longleftrightarrow>
     (\<exists>x y. s = a @ x # b @ y # c \<and> P x \<and> P y \<and> (\<forall>z \<in> set a \<union> set b. \<not> P z))" (is "?L \<longleftrightarrow> ?R")
proof
  assume ?L
  then obtain i j where i: "position P s = Some i" "a = take i s"
    and j: "position P (drop (Suc i) s) = Some j" "b = take j (drop (Suc i) s)"
      "c = drop (Suc j) (drop (Suc i) s)"
    by (auto simp: splitn_3 split: option.splits)
  obtain x where "s = a @ x # drop (Suc i) s" "P x" "\<forall>z \<in> set a. \<not> P z"
    using position_Some_take [OF i(1)] i(2) by blast
  moreover obtain y where "drop (Suc i) s = b @ y # c" "P y" "\<forall>z \<in> set b. \<not> P z"
    using position_Some_take [OF j(1)] j(2,3) by blast
  ultimately have "s = a @ x # b @ y # c \<and> P x \<and> P y \<and> (\<forall>z \<in> set a \<union> set b. \<not> P z)" by auto
  then show ?R by blast
next
  assume ?R
  then obtain x y where s: "s = a @ x # b @ y # c" "P x" "P y" "\<forall>z \<in> set a. \<not> P z" "\<forall>z \<in> set b. \<not> P z"
    by blast
  have "position P (a @ x # b @ y # c) = Some (length a)" "position P (b @ y # c) = Some (length b)"
    using s by (simp_all only: position_append_found)
  then show ?L unfolding splitn_3 s(1) by simp
qed

lemma strip_cr:
  "(case strip_suffix v cr of None \<Rightarrow> v | Some w \<Rightarrow> w) = t \<longleftrightarrow> v = t @ cr \<or> (v = t \<and> \<not> ends_with v cr)"
  by (auto simp: strip_suffix_def ends_with_iff split: option.split)

definition http_version_ok :: "bytes \<Rightarrow> bool" where
  "http_version_ok v = (v \<in> {''HTTP/1.0'', ''HTTP/1.1'', ''HTTP/1.0'' @ cr, ''HTTP/1.1'' @ cr})"

lemma http_version_ok_strip:
  "http_version_ok v \<longleftrightarrow>
     (case strip_suffix v cr of None \<Rightarrow> v | Some w \<Rightarrow> w) \<in> {''HTTP/1.0'', ''HTTP/1.1''}"
  unfolding insert_iff empty_iff strip_cr http_version_ok_def by (auto simp: ends_with_def)

definition request_line_form :: "bytes \<Rightarrow> bool" where
  "request_line_form line =
     (\<exists>method target version. line = method @ sp # target @ sp # version
        \<and> method \<noteq> [] \<and> list_all (\<lambda>b. is_ascii_uppercase b \<or> b = CHR ''-'') method
        \<and> target \<noteq> [] \<and> sp \<notin> set target \<and> http_version_ok version)"

lemma splitn_3_malformed:
  assumes "\<nexists>a b c. splitn 3 P s = [a, b, c]"
  shows "\<exists>a. splitn 3 P s = [a] \<or> (\<exists>b. splitn 3 P s = [a, b])"
  using assms by (auto simp: splitn_3 split: option.splits)

lemma method_no_sp:
  "list_all (\<lambda>b. is_ascii_uppercase b \<or> b = CHR ''-'') method \<Longrightarrow> \<forall>z \<in> set method. z \<noteq> sp"
  using uppercase_not_sp by (auto simp: list_all_iff)

lemma validate_http11_request_line_ok:
  "validate_http11_request_line line = Inr () \<longleftrightarrow> request_line_form line"
proof (cases "\<exists>a b c. splitn 3 (\<lambda>b. b = sp) line = [a, b, c]")
  case False
  then have "validate_http11_request_line line = Inl (Protocol ''malformed request line'')"
    using splitn_3_malformed [of "\<lambda>b. b = sp" line] by (auto simp: validate_http11_request_line_def)
  moreover have "\<not> request_line_form line"
  proof
    assume "request_line_form line"
    then obtain m t v where l: "line = m @ sp # t @ sp # v" "sp \<notin> set t"
      "list_all (\<lambda>b. is_ascii_uppercase b \<or> b = CHR ''-'') m" by (auto simp: request_line_form_def)
    then have "splitn 3 (\<lambda>b. b = sp) line = [m, t, v]"
      using method_no_sp [OF l(3)] unfolding splitn_3_fields by auto
    with False show False by blast
  qed
  ultimately show ?thesis by simp
next
  case True
  then obtain a b c where s: "splitn 3 (\<lambda>b. b = sp) line = [a, b, c]" by blast
  then have f: "line = a @ sp # b @ sp # c" "\<forall>z \<in> set a \<union> set b. z \<noteq> sp"
    using splitn_3_fields [of "\<lambda>b. b = sp" line a b c] by auto
  have u: "m = a \<and> t = b \<and> v = c" if "line = m @ sp # t @ sp # v" "sp \<notin> set t"
    "list_all (\<lambda>b. is_ascii_uppercase b \<or> b = CHR ''-'') m" for m t v
    using that s method_no_sp [OF that(3)] splitn_3_fields [of "\<lambda>b. b = sp" line m t v] by auto
  have "validate_http11_request_line line = Inr () \<longleftrightarrow>
      a \<noteq> [] \<and> list_all (\<lambda>b. is_ascii_uppercase b \<or> b = CHR ''-'') a \<and> b \<noteq> [] \<and> http_version_ok c"
    unfolding validate_http11_request_line_def s http_version_ok_strip by (auto simp: Let_def)
  also have "\<dots> \<longleftrightarrow> request_line_form line"
    unfolding request_line_form_def using f u by blast
  finally show ?thesis .
qed

subsection \<open>Properties\<close>

text \<open>
  \<open>ProtocolDetector::detect\<close> is decided by three tests: fewer than eight bytes are TCP, the
  HTTP/2 preface is HTTP/2, and of the rest exactly the buffers that open with three to seven
  capital letters and a space are HTTP/1.1.
\<close>

lemma detect_classifies:
  "(detect buf = Http2 \<longleftrightarrow> 8 \<le> length buf \<and> (\<exists>r. buf = ''PRI * HTTP/2'' @ r))
   \<and> (detect buf = Http11 \<longleftrightarrow> 8 \<le> length buf \<and> (\<nexists>r. buf = ''PRI * HTTP/2'' @ r)
        \<and> (\<exists>m r. buf = m @ sp # r \<and> 3 \<le> length m \<and> length m \<le> 7 \<and> list_all is_ascii_uppercase m))"
  unfolding detect_cases starts_with_iff method_start_def by simp

text \<open>
  Reading more bytes never changes a verdict other than TCP, except that a buffer of fewer
  than twelve bytes inside the HTTP/2 preface is first taken for HTTP/1.1.
\<close>

lemma detect_stable:
  assumes "detect buf \<noteq> Tcp"
  shows "detect (buf @ rest) = detect buf \<or>
    detect buf = Http11 \<and> detect (buf @ rest) = Http2 \<and> length buf < 12"
  using assms by (rule detect_extend)

text \<open>
  \<open>validate_http11_request_line\<close> accepts exactly the lines \<open>method SP target SP version\<close> whose
  method is a non-empty run of capitals and hyphens, whose target is non-empty and free of
  spaces, and whose version is HTTP/1.0 or HTTP/1.1, with at most one carriage return after it.
\<close>

lemma request_line_accepts_exactly:
  "validate_http11_request_line line = Inr () \<longleftrightarrow>
     (\<exists>method target version. line = method @ sp # target @ sp # version
        \<and> method \<noteq> [] \<and> list_all (\<lambda>b. is_ascii_uppercase b \<or> b = CHR ''-'') method
        \<and> target \<noteq> [] \<and> sp \<notin> set target
        \<and> version \<in> {''HTTP/1.0'', ''HTTP/1.1'', ''HTTP/1.0'' @ cr, ''HTTP/1.1'' @ cr})"
  using validate_http11_request_line_ok unfolding request_line_form_def http_version_ok_def .

end
