(* ===== verification/Inbound.thy ===== *)
theory Inbound
  imports Handshake Discovery Proto_Detect
begin

text \<open>
  \<open>src/proxy/tcp.rs\<close>, the inbound proxy, with the inbound half of \<open>src/proxy/mux.rs\<close>
  (\<open>serve_tunnel\<close> and the relay of one stream). A handler is a function of the process state
  that returns the new state and the list of what it did to the network; what the network, the
  TLS endpoint and the resolver answer is in \<open>inbound_env\<close>. Logging is left out.
\<close>

record TcpProxy =
  in_default_upstream :: "UpstreamTarget option"
  in_gate :: gate
  in_listen_port :: "16 word"
  in_policy :: PolicyEngine
  in_discovery :: bool
  in_shutdown :: "bool option"
  in_local_id :: SpiffeId

definition TcpProxy_new_with_discovery ::
  "semaphore_new \<Rightarrow> ProxyConfig \<Rightarrow> 16 word \<Rightarrow> PolicyEngine \<Rightarrow> bool \<Rightarrow> TcpProxy panicky" where
  "TcpProxy_new_with_discovery sem config port policy discovery =
     (let max_conn = (case px_max_connections config of None \<Rightarrow> 1024 | Some n \<Rightarrow> n) in
      do {
        local_id \<leftarrow> proxy_local_id config;
        _ \<leftarrow> sem (unat max_conn);
        Some \<lparr>in_default_upstream = from_config (px_default_upstream config),
              in_gate = gate_new (unat max_conn), in_listen_port = port, in_policy = policy,
              in_discovery = discovery, in_shutdown = None, in_local_id = local_id\<rparr>
      })"

definition TcpProxy_new :: "semaphore_new \<Rightarrow> ProxyConfig \<Rightarrow> PolicyEngine \<Rightarrow> TcpProxy panicky" where
  "TcpProxy_new sem config policy = TcpProxy_new_with_discovery sem config INBOUND_PROXY policy False"

definition TcpProxy_new_with_port :: "semaphore_new \<Rightarrow> ProxyConfig \<Rightarrow> 16 word \<Rightarrow> PolicyEngine \<Rightarrow> TcpProxy panicky" where
  "TcpProxy_new_with_port sem config port policy = TcpProxy_new_with_discovery sem config port policy False"

definition tcp_with_discovery :: "TcpProxy \<Rightarrow> TcpProxy" where
  "tcp_with_discovery self = self\<lparr>in_discovery := True\<rparr>"

definition tcp_with_shutdown :: "TcpProxy \<Rightarrow> bool \<Rightarrow> TcpProxy" where
  "tcp_with_shutdown self current = self\<lparr>in_shutdown := Some current\<rparr>"

subsection \<open>Resolving the upstream\<close>

definition tcp_resolve_upstream ::
  "TcpProxy \<Rightarrow> (string \<Rightarrow> resolve_result) \<Rightarrow> UpstreamTarget \<Rightarrow> (InterlinkError, SocketAddr) result" where
  "tcp_resolve_upstream self resolve upstream =
     (case upstream of
        Socket addr \<Rightarrow> Inr addr
      | Host name port \<Rightarrow>
          if \<not> in_discovery self
          then Inl (DnsResolution (''cannot resolve hostname '' @ [CHR 0x27] @ display_upstream upstream
                 @ [CHR 0x27] @ '' without discovery''))
          else and_then (resolve name) (\<lambda>resolved.
               and_then (ok_or (DnsResolution (''no endpoints for '' @ display_upstream upstream))
                               (case addrs resolved of [] \<Rightarrow> None | a # _ \<Rightarrow> Some a)) (\<lambda>first.
               Inr (SocketAddr_new (addr_ip first) (case port of None \<Rightarrow> addr_port first | Some p \<Rightarrow> p)))))"

subsection \<open>Accepting\<close>

datatype accept_outcome = NoUpstream | Saturated | Spawned UpstreamTarget

definition tcp_choose_upstream :: "TcpProxy \<Rightarrow> SocketAddr option \<Rightarrow> UpstreamTarget option" where
  "tcp_choose_upstream self original_dst =
     (case in_default_upstream self of
        Some upstream \<Rightarrow> Some upstream
      | None \<Rightarrow> map_option Socket original_dst)"

definition tcp_handle_accept ::
  "TcpProxy \<Rightarrow> SocketAddr option \<Rightarrow> InterlinkMetrics \<Rightarrow> TcpProxy \<times> InterlinkMetrics \<times> accept_outcome" where
  "tcp_handle_accept self original_dst m =
     (case tcp_choose_upstream self original_dst of
        None \<Rightarrow> (self, m, NoUpstream)
      | Some upstream \<Rightarrow>
          (case admit (in_gate self) of
             Some g \<Rightarrow> (self\<lparr>in_gate := g\<rparr>, m, Spawned upstream)
           | None \<Rightarrow> (self, record_saturation_rejection m, Saturated)))"

subsection \<open>Tunnels\<close>

datatype effect =
    Dial SocketAddr
  | CloseUpstream
  | SpawnStream nat SocketAddr
  | ToUpstream bytes
  | RelayUpstream SocketAddr

text \<open>
  \<open>items\<close> is what \<open>poll_next_inbound\<close> yields, in order: streams (named by a number) or an error;
  the end of the list is the end of the session.
\<close>

fun serve_tunnel :: "(IoError, nat) result list \<Rightarrow> SocketAddr \<Rightarrow> globals \<Rightarrow> globals \<times> effect list" where
  "serve_tunnel [] upstream g = (g, [])"
| "serve_tunnel (Inl e # items) upstream g = (g, [])"
| "serve_tunnel (Inr stream # items) upstream g =
     (case serve_tunnel items upstream (on_metrics record_mux_stream g) of
        (g, effs) \<Rightarrow> (g, SpawnStream stream upstream # effs))"

definition relay_stream_to_upstream ::
  "(SocketAddr \<Rightarrow> (IoError, unit) result) \<Rightarrow> (IoError, 64 word \<times> 64 word) result \<Rightarrow> duration
     \<Rightarrow> SocketAddr \<Rightarrow> globals \<Rightarrow> globals \<times> effect list" where
  "relay_stream_to_upstream connect copied elapsed upstream g =
     (let g = on_metrics record_connection_start g in
      case connect upstream of
        Inl e \<Rightarrow> (on_metrics record_connection_failed g, [Dial upstream])
      | Inr _ \<Rightarrow> (on_metrics (record_relay_result copied elapsed) g, [Dial upstream, RelayUpstream upstream]))"

subsection \<open>One connection\<close>

record inbound_env =
  ie_resolve :: "string \<Rightarrow> resolve_result"
  ie_accept :: "globals \<Rightarrow> ((InterlinkError, TlsStream) result \<times> globals) panicky"
  ie_connect :: "SocketAddr \<Rightarrow> (IoError, unit) result"
  ie_read :: "(IoError, bytes) result"
  ie_write :: "bytes \<Rightarrow> (IoError, unit) result"
  ie_copied :: "(IoError, 64 word \<times> 64 word) result"
  ie_streams :: "(IoError, nat) result list"
  ie_handshake_time :: duration
  ie_elapsed :: duration

text \<open>The relay of a connection that did not negotiate the multiplexer.\<close>

definition tcp_relay :: "inbound_env \<Rightarrow> SocketAddr \<Rightarrow> globals \<Rightarrow> globals \<times> effect list" where
  "tcp_relay env upstream g =
     (case ie_read env of
        Inl e \<Rightarrow> (on_metrics record_connection_failed g, [])
      | Inr detect_buf \<Rightarrow>
          (if detect_buf = [] then (on_metrics record_connection_failed g, [])
           else let detected = detect detect_buf in
             (case ie_write env detect_buf of
                Inl e \<Rightarrow> (on_metrics record_connection_failed g, [ToUpstream detect_buf])
              | Inr _ \<Rightarrow> (on_metrics (record_relay_result (ie_copied env) (ie_elapsed env)) g,
                          [ToUpstream detect_buf, RelayUpstream upstream]))))"

text \<open>What follows the policy check: a tunnel session or the plain relay.\<close>

definition tcp_serve :: "inbound_env \<Rightarrow> TlsStream \<Rightarrow> SocketAddr \<Rightarrow> globals \<Rightarrow> globals \<times> effect list" where
  "tcp_serve env tls_stream upstream g =
     (if negotiated_alpn (ts_inner tls_stream) = Some ALPN_MUX
      then (case serve_tunnel (ie_streams env) upstream g of
              (g, effs) \<Rightarrow> (on_metrics record_tunnel_closed g, CloseUpstream # effs))
      else tcp_relay env upstream g)"

definition tcp_handle_connection ::
  "TcpProxy \<Rightarrow> inbound_env \<Rightarrow> UpstreamTarget \<Rightarrow> globals \<Rightarrow> (globals \<times> effect list) panicky" where
  "tcp_handle_connection self env target g =
     (let g = on_metrics record_connection_start g in
      case tcp_resolve_upstream self (ie_resolve env) target of
        Inl e \<Rightarrow> Some (on_metrics record_connection_failed g, [])
      | Inr upstream \<Rightarrow> do {
          (tls_result, g) \<leftarrow> ie_accept env g;
          (let upstream_result = ie_connect env upstream in
           case tls_result of
             Inl e \<Rightarrow>
               Some (on_metrics (\<lambda>m. record_connection_failed (record_handshake_error m)) g,
                     Dial upstream # (if is_ok upstream_result then [CloseUpstream] else []))
           | Inr tls_stream \<Rightarrow>
               (let g = on_metrics (record_handshake (ie_handshake_time env)) g in
                case upstream_result of
                  Inl e \<Rightarrow> Some (on_metrics record_connection_failed g, [Dial upstream])
                | Inr _ \<Rightarrow> do {
                    decision \<leftarrow> evaluate (in_policy self) (ts_peer_identity tls_stream) (in_local_id self);
                    (let g = on_metrics (record_policy decision) g in
                     case decision of
                       Deny reason \<Rightarrow>
                         Some (on_metrics record_connection_failed g, [Dial upstream, CloseUpstream])
                     | Allow \<Rightarrow>
                         (case tcp_serve env tls_stream upstream g of
                            (g, effs) \<Rightarrow> Some (g, Dial upstream # effs)))
                  }))
        })"

text \<open>The end of the spawned task: the counter and the permit are given back.\<close>

definition tcp_finish :: "TcpProxy \<Rightarrow> TcpProxy" where
  "tcp_finish self = self\<lparr>in_gate := finish_connection (in_gate self)\<rparr>"

subsection \<open>Starting\<close>

text \<open>
  \<open>run\<close> up to its accept loops: \<open>None\<close> when the proxy is disabled or no acceptor could bind,
  otherwise the number of acceptors; \<open>binds i\<close> is the outcome of the i-th bind.
\<close>

definition tcp_start :: "TcpProxy \<Rightarrow> nat \<Rightarrow> (nat \<Rightarrow> SocketAddr \<Rightarrow> (IoError, unit) result) \<Rightarrow> nat option" where
  "tcp_start self acceptors binds =
     (let addr = SocketAddr_new (V4 0 0 0 0) (in_listen_port self) in
      if in_listen_port self = 0 then None
      else let listeners = filter (\<lambda>i. is_ok (binds i addr)) [0..<acceptors] in
           if listeners = [] then None else Some (length listeners))"

subsection \<open>Accounting and authorization of one connection\<close>

lemma serve_tunnel_metrics:
  "connections_active (g_metrics (fst (serve_tunnel items upstream g))) = connections_active (g_metrics g)"
  "connections_total (g_metrics (fst (serve_tunnel items upstream g))) = connections_total (g_metrics g)"
  "connection_duration (g_metrics (fst (serve_tunnel items upstream g))) = connection_duration (g_metrics g)"
  by (induction items upstream g rule: serve_tunnel.induct) (simp_all add: metrics_simps case_prod_beta)

lemma serve_tunnel_cache [simp]: "g_cache (fst (serve_tunnel items upstream g)) = g_cache g"
  by (induction items upstream g rule: serve_tunnel.induct) (simp_all add: case_prod_beta)

lemma serve_tunnel_effects: "set (snd (serve_tunnel items upstream g)) \<subseteq> {SpawnStream n upstream | n. True}"
  by (induction items upstream g rule: serve_tunnel.induct) (auto split: prod.splits)

text \<open>
  How a relay or tunnel is accounted: the active gauge goes down by one; a relay counts as one
  finished connection, and only a successful one leaves a duration; a tunnel counts as none.
\<close>

definition accounted :: "inbound_env \<Rightarrow> globals \<Rightarrow> globals \<Rightarrow> effect list \<Rightarrow> bool" where
  "accounted env g g' effs =
     (connections_active (g_metrics g') = connections_active (g_metrics g)
      \<and> (connections_total (g_metrics g') = connections_total (g_metrics g) + 1
         \<or> connections_total (g_metrics g') = connections_total (g_metrics g) \<and> CloseUpstream \<in> set effs)
      \<and> (connection_duration (g_metrics g') = connection_duration (g_metrics g)
         \<or> connection_duration (g_metrics g') = ie_elapsed env # connection_duration (g_metrics g)
           \<and> is_ok (ie_copied env) \<and> (\<exists>a. RelayUpstream a \<in> set effs)))"

lemma tcp_serve_accounted:
  assumes "tcp_serve env ts upstream g1 = (g', effs)"
    and "connections_active (g_metrics g1) = connections_active (g_metrics g) + 1"
    and "connections_total (g_metrics g1) = connections_total (g_metrics g)"
    and "connection_duration (g_metrics g1) = connection_duration (g_metrics g)"
  shows "accounted env g g' effs \<and> g_cache g' = g_cache g1"
proof (cases "negotiated_alpn (ts_inner ts) = Some ALPN_MUX")
  case True
  obtain g2 effs2 where t: "serve_tunnel (ie_streams env) upstream g1 = (g2, effs2)" by (meson surj_pair)
  then have "connections_active (g_metrics g2) = connections_active (g_metrics g1)"
    "connections_total (g_metrics g2) = connections_total (g_metrics g1)"
    "connection_duration (g_metrics g2) = connection_duration (g_metrics g1)" "g_cache g2 = g_cache g1"
    using serve_tunnel_metrics [of "ie_streams env" upstream g1] serve_tunnel_cache [of "ie_streams env" upstream g1]
    by simp_all
  moreover have "g' = on_metrics record_tunnel_closed g2" "effs = CloseUpstream # effs2"
    using assms(1) True t by (simp_all add: tcp_serve_def)
  ultimately show ?thesis using assms(2-4) by (simp add: accounted_def metrics_simps)
next
  case False
  then have "tcp_relay env upstream g1 = (g', effs)" using assms(1) by (simp add: tcp_serve_def)
  then show ?thesis using assms(2-4)
    by (auto simp: tcp_relay_def accounted_def metrics_simps Let_def split: sum.splits if_splits)
qed

text \<open>An effect that carries application data, or opens the way for some, to the upstream.\<close>

fun carries_data :: "effect \<Rightarrow> bool" where
  "carries_data (Dial _) = False"
| "carries_data CloseUpstream = False"
| "carries_data _ = True"

context tls_endpoint
begin

lemma inbound_connection:
  assumes "ok g" and "wf_engine (in_policy self)" and "valid_id (in_local_id self)"
    and accept: "ie_accept env = shake"
  shows "\<exists>g' effs. tcp_handle_connection self env target g = Some (g', effs) \<and> ok g'
    \<and> accounted env g g' effs
    \<and> ((\<exists>e \<in> set effs. carries_data e) \<longrightarrow>
         (\<exists>ts g2. shake (on_metrics record_connection_start g) = Some (Inr ts, g2)
            \<and> evaluate (in_policy self) (ts_peer_identity ts) (in_local_id self) = Some Allow))"
proof (cases "tcp_resolve_upstream self (ie_resolve env) target")
  case (Inl e)
  then show ?thesis using assms(1) ok_metrics
    by (simp add: tcp_handle_connection_def accounted_def metrics_simps)
next
  case (Inr upstream)
  let ?g1 = "on_metrics record_connection_start g"
  have ok1: "ok ?g1" using assms(1) ok_metrics by simp
  show ?thesis
  proof (cases rule: shake_cases [OF ok1])
    case (1 e g2)
    then show ?thesis using Inr accept ok_metrics shake_frame [OF ok1 1(1)]
      by (auto simp: tcp_handle_connection_def accounted_def metrics_simps Let_def)
  next
    case (2 ts g2)
    note frame = shake_frame [OF ok1 2(1)]
    show ?thesis
    proof (cases "ie_connect env upstream")
      case (Inl e)
      then show ?thesis using Inr 2 accept ok_metrics frame
        by (auto simp: tcp_handle_connection_def accounted_def metrics_simps Let_def)
    next
      case c: (Inr u)
      obtain d where d: "evaluate (in_policy self) (ts_peer_identity ts) (in_local_id self) = Some d"
        using evaluate_policy_spec [OF assms(2) 2(3) assms(3)] by blast
      let ?g3 = "on_metrics (record_policy d) (on_metrics (record_handshake (ie_handshake_time env)) g2)"
      show ?thesis
      proof (cases d)
        case (Deny r)
        then show ?thesis using Inr 2 c d accept ok_metrics frame
          by (auto simp: tcp_handle_connection_def accounted_def metrics_simps Let_def)
      next
        case Allow
        obtain g' effs where s: "tcp_serve env ts upstream ?g3 = (g', effs)" by (meson surj_pair)
        have a: "accounted env g g' effs" "g_cache g' = g_cache ?g3"
          using tcp_serve_accounted [OF s, of g] frame by (simp_all add: metrics_simps)
        have "g' = on_metrics (\<lambda>_. g_metrics g') ?g3" using a(2) by (simp add: on_metrics_def)
        then have "ok g'" using 2(2) ok_metrics by metis
        moreover have "tcp_handle_connection self env target g = Some (g', Dial upstream # effs)"
          using Inr 2 c d Allow s accept by (simp add: tcp_handle_connection_def Let_def)
        moreover have "accounted env g g' (Dial upstream # effs)" using a(1) by (auto simp: accounted_def)
        ultimately show ?thesis using 2(1) d Allow by auto
      qed
    qed
  qed
qed

end

subsection \<open>Properties\<close>

text \<open>
  C4. No plaintext before authorization: if handling an inbound connection writes or relays any
  data to the upstream, or serves tunnel streams towards it, then the mTLS handshake succeeded
  and the policy allows the identity that the peer's own certificate carries to reach this
  workload.
\<close>

theorem inbound_data_needs_allow:
  assumes "tls_ok p g" and "wf_engine (in_policy self)" and "valid_id (in_local_id self)"
    and "ie_accept env = TlsServer_accept p keep out srv"
    and "tcp_handle_connection self env target g = Some (g', effs)" and "\<exists>e \<in> set effs. carries_data e"
  shows "\<exists>s i. out srv = Established s \<and> session_identity p s = Some (Inr i)
    \<and> evaluate (in_policy self) i (in_local_id self) = Some Allow"
proof -
  let ?g1 = "on_metrics record_connection_start g"
  obtain ts g2 where ts: "TlsServer_accept p keep out srv ?g1 = Some (Inr ts, g2)"
    "evaluate (in_policy self) (ts_peer_identity ts) (in_local_id self) = Some Allow"
    using server_accept.inbound_connection [OF assms(1-4), of target] assms(5,6) by auto
  have "tls_ok p ?g1" using assms(1) by simp
  from finish_handshake_spec [OF this, of keep "out srv"] ts(1)
  have "out srv = Established (ts_inner ts)" "session_identity p (ts_inner ts) = Some (Inr (ts_peer_identity ts))"
    by (auto simp: TlsServer_accept_def)
  with ts(2) show ?thesis by blast
qed

text \<open>
  C25. Every inbound connection is accounted exactly once: whatever the resolver, the peer, the
  upstream and the policy do, the handler returns, the active-connections gauge is back where it
  was, the connection is counted once unless it was a tunnel, and a duration is observed only for
  a relay that ended well.
\<close>

theorem inbound_connection_accounted:
  assumes "tls_ok p g" and "wf_engine (in_policy self)" and "valid_id (in_local_id self)"
    and "ie_accept env = TlsServer_accept p keep out srv"
  shows "\<exists>g' effs. tcp_handle_connection self env target g = Some (g', effs) \<and> tls_ok p g'
    \<and> connections_active (g_metrics g') = connections_active (g_metrics g)
    \<and> (connections_total (g_metrics g') = connections_total (g_metrics g) + 1
       \<or> connections_total (g_metrics g') = connections_total (g_metrics g) \<and> CloseUpstream \<in> set effs)
    \<and> (connection_duration (g_metrics g') = connection_duration (g_metrics g)
       \<or> connection_duration (g_metrics g') = ie_elapsed env # connection_duration (g_metrics g)
         \<and> is_ok (ie_copied env) \<and> (\<exists>a. RelayUpstream a \<in> set effs))"
  using server_accept.inbound_connection [OF assms, of target] unfolding accounted_def by blast

text \<open>An inbound proxy and a connection that is let through, for the witnesses.\<close>

definition sample_proxy :: TcpProxy where
  "sample_proxy =
     \<lparr>in_default_upstream = None, in_gate = gate_new 1, in_listen_port = 4143, in_policy = sample_engine,
      in_discovery = False, in_shutdown = None, in_local_id = sample_id\<rparr>"

definition sample_server :: TlsServer where
  "sample_server = \<lparr>server_roots = [''ca''], server_cert = ''crt'', server_key = ''key'', server_alpn = alpn_protocols\<rparr>"

definition sample_accept :: "globals \<Rightarrow> ((InterlinkError, TlsStream) result \<times> globals) panicky" where
  "sample_accept = TlsServer_accept sample_pki UNIV (\<lambda>_. Established sample_session) sample_server"

definition sample_env :: inbound_env where
  "sample_env =
     \<lparr>ie_resolve = (\<lambda>_. Inl (DnsResolution [])), ie_accept = sample_accept, ie_connect = (\<lambda>_. Inr ()),
      ie_read = Inr ''GET / HTTP/1.1'', ie_write = (\<lambda>_. Inr ()), ie_copied = Inr (7, 11), ie_streams = [],
      ie_handshake_time = 3, ie_elapsed = 9\<rparr>"

definition sample_target :: UpstreamTarget where
  "sample_target = Socket (SocketAddr_new (V4 127 0 0 1) 8080)"

lemma sample_id_valid: "valid_id sample_id"
  by (simp add: sample_id_def valid_id_def SpiffeId_new_def valid_utf8_all_ascii byte_def)

lemma sample_allowed: "evaluate sample_engine sample_id sample_id = Some Allow"
  by code_simp

lemma sample_run:
  "\<exists>g'. tcp_handle_connection sample_proxy sample_env sample_target sample_globals =
     Some (g', [Dial (SocketAddr_new (V4 127 0 0 1) 8080), ToUpstream ''GET / HTTP/1.1'',
                RelayUpstream (SocketAddr_new (V4 127 0 0 1) 8080)])"
  by (simp add: tcp_handle_connection_def sample_proxy_def sample_env_def sample_target_def tcp_resolve_upstream_def
      sample_accept_def TlsServer_accept_def finish_handshake_def extract_identity_from_tls_stream_def
      sample_session_def sample_globals_def sample_cert sample_allowed tcp_serve_def negotiated_alpn_def
      tcp_relay_def Let_def)

theorem inbound_data_needs_allow_witness:
  "\<exists>s i. Established sample_session = Established s \<and> session_identity sample_pki s = Some (Inr i)
     \<and> evaluate sample_engine i sample_id = Some Allow"
proof -
  obtain g' where r: "tcp_handle_connection sample_proxy sample_env sample_target sample_globals =
     Some (g', [Dial (SocketAddr_new (V4 127 0 0 1) 8080), ToUpstream ''GET / HTTP/1.1'',
                RelayUpstream (SocketAddr_new (V4 127 0 0 1) 8080)])" (is "_ = Some (_, ?effs)")
    using sample_run by blast
  have p: "in_policy sample_proxy = sample_engine" "in_local_id sample_proxy = sample_id"
    "ie_accept sample_env = TlsServer_accept sample_pki UNIV (\<lambda>_. Established sample_session) sample_server"
    by (simp_all add: sample_proxy_def sample_env_def sample_accept_def)
  have w: "wf_engine (in_policy sample_proxy)" "valid_id (in_local_id sample_proxy)"
    using sample_wf sample_id_valid by (simp_all add: p)
  have "\<exists>e \<in> set ?effs. carries_data e" by simp
  from inbound_data_needs_allow [OF sample_coherent(2) w p(3) r this] show ?thesis by (simp add: p)
qed

theorem inbound_connection_accounted_witness:
  "\<exists>g' effs. tcp_handle_connection sample_proxy sample_env sample_target sample_globals = Some (g', effs)
     \<and> connections_active (g_metrics g') = 0"
proof -
  have p: "ie_accept sample_env = TlsServer_accept sample_pki UNIV (\<lambda>_. Established sample_session) sample_server"
    by (simp add: sample_env_def sample_accept_def)
  have w: "wf_engine (in_policy sample_proxy)" "valid_id (in_local_id sample_proxy)"
    using sample_wf sample_id_valid by (simp_all add: sample_proxy_def)
  have "connections_active (g_metrics sample_globals) = 0"
    by (simp add: sample_globals_def InterlinkMetrics_new_def)
  then show ?thesis
    using inbound_connection_accounted [OF sample_coherent(2) w p, of sample_target] by metis
qed

text \<open>
  The accept path of the inbound proxy keeps its limit and never blocks: it uses the configured
  upstream, or the original destination when none is configured; with neither it drops the
  connection; it spawns a handler exactly when a permit is free and otherwise counts one
  rejection; a finished handler returns its permit.
\<close>

lemma inbound_accept_outcome:
  assumes "gate_inv n (in_gate self)" and "tcp_handle_accept self dst m = (self', m', out)"
  shows "gate_inv n (in_gate self')
    \<and> (out = NoUpstream \<longleftrightarrow> in_default_upstream self = None \<and> dst = None)
    \<and> (out = Saturated \<longrightarrow> active_connections (in_gate self) = n
         \<and> saturation_rejections_total m' = saturation_rejections_total m + 1)
    \<and> (\<forall>u. out = Spawned u \<longrightarrow> tcp_choose_upstream self dst = Some u
         \<and> active_connections (in_gate self') = active_connections (in_gate self) + 1
         \<and> gate_inv n (in_gate (tcp_finish self')) \<and> m' = m)
    \<and> active_connections (in_gate self') \<le> n"
  using assms gate_inv_admit [OF assms(1)] admit_refuses_iff [OF assms(1)] gate_inv_finish
  by (auto simp: tcp_handle_accept_def tcp_choose_upstream_def tcp_finish_def gate_inv_def admit_def
      finish_connection_def record_saturation_rejection_def split: option.splits if_splits)

end
