(* ===== verification/Outbound.thy ===== *)
theory Outbound
  imports Mux_Pool Discovery Inbound
begin

text \<open>
  \<open>src/proxy/outbound.rs\<close>: the outbound proxy. Many connection handlers share the tunnel pool, the
  policy and the process state, so \<open>handle_connection\<close> with \<open>route\<close>, \<open>try_tunnel_stream\<close> and
  \<open>establish\<close> is a state machine: one program point (\<open>route_pc\<close>) between any two accesses to
  shared state, and \<open>outbound_step\<close> interleaves the tasks with each other, with drivers that
  evict their tunnel, and with the replies of peers.
\<close>

record OutboundProxy =
  out_gate :: gate
  out_default_upstream :: "UpstreamTarget option"
  out_mux_enabled :: bool
  out_listen_port :: "16 word"
  out_policy :: PolicyEngine
  out_discovery :: bool
  out_shutdown :: "bool option"
  out_local_id :: SpiffeId

definition OutboundProxy_new_with_discovery ::
  "semaphore_new \<Rightarrow> ProxyConfig \<Rightarrow> 16 word \<Rightarrow> PolicyEngine \<Rightarrow> bool \<Rightarrow> OutboundProxy panicky" where
  "OutboundProxy_new_with_discovery sem config port policy discovery =
     (let max_conn = (case px_max_connections config of None \<Rightarrow> 1024 | Some n \<Rightarrow> n) in
      do {
        local_id \<leftarrow> proxy_local_id config;
        _ \<leftarrow> sem (unat max_conn);
        Some \<lparr>out_gate = gate_new (unat max_conn), out_default_upstream = from_config (px_default_upstream config),
              out_mux_enabled = px_mux config, out_listen_port = port, out_policy = policy,
              out_discovery = discovery, out_shutdown = None, out_local_id = local_id\<rparr>
      })"

definition OutboundProxy_new :: "semaphore_new \<Rightarrow> ProxyConfig \<Rightarrow> PolicyEngine \<Rightarrow> OutboundProxy panicky" where
  "OutboundProxy_new sem config policy = OutboundProxy_new_with_discovery sem config OUTBOUND_PROXY policy False"

definition OutboundProxy_new_with_port :: "semaphore_new \<Rightarrow> ProxyConfig \<Rightarrow> 16 word \<Rightarrow> PolicyEngine \<Rightarrow> OutboundProxy panicky" where
  "OutboundProxy_new_with_port sem config port policy = OutboundProxy_new_with_discovery sem config port policy False"

definition outbound_with_discovery :: "OutboundProxy \<Rightarrow> OutboundProxy" where
  "outbound_with_discovery self = self\<lparr>out_discovery := True\<rparr>"

definition outbound_with_shutdown :: "OutboundProxy \<Rightarrow> bool \<Rightarrow> OutboundProxy" where
  "outbound_with_shutdown self current = self\<lparr>out_shutdown := Some current\<rparr>"

definition outbound_resolve_upstream ::
  "OutboundProxy \<Rightarrow> (string \<Rightarrow> resolve_result) \<Rightarrow> UpstreamTarget \<Rightarrow> (InterlinkError, SocketAddr) result" where
  "outbound_resolve_upstream self resolve upstream =
     (case upstream of
        Socket addr \<Rightarrow> Inr addr
      | Host name port \<Rightarrow>
          if \<not> out_discovery self
          then Inl (DnsResolution (''cannot resolve hostname '' @ [CHR 0x27] @ display_upstream upstream
                 @ [CHR 0x27] @ '' without discovery''))
          else and_then (resolve name) (\<lambda>resolved.
               and_then (ok_or (DnsResolution (''no endpoints for '' @ display_upstream upstream))
                               (case addrs resolved of [] \<Rightarrow> None | a # _ \<Rightarrow> Some a)) (\<lambda>first.
               Inr (SocketAddr_new (addr_ip first) (case port of None \<Rightarrow> addr_port first | Some p \<Rightarrow> p)))))"

subsection \<open>Accepting\<close>

datatype outbound_accept = OutNoUpstream | OutSaturated | OutSpawned UpstreamTarget

definition outbound_choose_upstream :: "OutboundProxy \<Rightarrow> SocketAddr option \<Rightarrow> UpstreamTarget option" where
  "outbound_choose_upstream self original_dst =
     (case (case original_dst of
              Some sa \<Rightarrow> if addr_port sa \<noteq> out_listen_port self then Some sa else None
            | None \<Rightarrow> None) of
        Some sa \<Rightarrow> Some (Socket sa)
      | None \<Rightarrow> out_default_upstream self)"

definition outbound_handle_accept ::
  "OutboundProxy \<Rightarrow> SocketAddr option \<Rightarrow> InterlinkMetrics \<Rightarrow> OutboundProxy \<times> InterlinkMetrics \<times> outbound_accept" where
  "outbound_handle_accept self original_dst m =
     (case outbound_choose_upstream self original_dst of
        None \<Rightarrow> (self, m, OutNoUpstream)
      | Some upstream \<Rightarrow>
          (case admit (out_gate self) of
             Some g \<Rightarrow> (self\<lparr>out_gate := g\<rparr>, m, OutSpawned upstream)
           | None \<Rightarrow> (self, record_saturation_rejection m, OutSaturated)))"

definition outbound_finish :: "OutboundProxy \<Rightarrow> OutboundProxy" where
  "outbound_finish self = self\<lparr>out_gate := finish_connection (out_gate self)\<rparr>"

definition outbound_start ::
  "OutboundProxy \<Rightarrow> nat \<Rightarrow> (nat \<Rightarrow> SocketAddr \<Rightarrow> (IoError, unit) result) \<Rightarrow> nat option" where
  "outbound_start self acceptors binds =
     (let addr = SocketAddr_new (V4 0 0 0 0) (out_listen_port self) in
      if out_listen_port self = 0 then None
      else let listeners = filter (\<lambda>i. is_ok (binds i addr)) [0..<acceptors] in
           if listeners = [] then None else Some (length listeners))"

subsection \<open>One connection\<close>

datatype Route = MuxStream Tunnel | Legacy TlsStream | Denied | Failed

datatype route_pc =
    Begin UpstreamTarget
  | Resolving UpstreamTarget
  | Routing SocketAddr
  | Attempt SocketAddr nat
  | TryTunnel SocketAddr nat Tunnel
  | AwaitStream SocketAddr nat Tunnel
  | AwaitLock SocketAddr nat nat
  | Recheck SocketAddr nat nat
  | CheckRoom SocketAddr nat nat
  | PickAny SocketAddr nat
  | Establish SocketAddr "nat option"
  | Registered SocketAddr "nat option" Tunnel
  | AwaitFresh SocketAddr "nat option" Tunnel
  | Routed Route
  | Finished
  | Panicked

text \<open>
  The answers a step may consume: the resolver, the TLS client, the tunnel driver and the relay,
  with the times they took.
\<close>

record outbound_input =
  oi_resolve :: "string \<Rightarrow> resolve_result"
  oi_connect :: "SocketAddr \<Rightarrow> globals \<Rightarrow> ((InterlinkError, TlsStream) result \<times> globals) panicky"
  oi_reply :: open_reply
  oi_copied :: "(IoError, 64 word \<times> 64 word) result"
  oi_handshake_time :: duration
  oi_elapsed :: duration

definition try_tunnel_stream ::
  "OutboundProxy \<Rightarrow> SocketAddr \<Rightarrow> nat \<Rightarrow> Tunnel \<Rightarrow> MuxPool \<Rightarrow> globals \<Rightarrow> MuxPool \<times> globals \<times> route_pc" where
  "try_tunnel_stream self upstream k tunnel pool g =
     (case evaluate (out_policy self) (out_local_id self) (tun_peer tunnel) of
        None \<Rightarrow> (pool, g, Panicked)
      | Some decision \<Rightarrow>
          (let g = on_metrics (record_policy decision) g in
           case decision of
             Deny reason \<Rightarrow> (pool, g, Routed Denied)
           | Allow \<Rightarrow> (reserve pool tunnel, g, AwaitStream upstream k tunnel)))"

definition establish ::
  "OutboundProxy \<Rightarrow> outbound_input \<Rightarrow> SocketAddr \<Rightarrow> nat option \<Rightarrow> MuxPool \<Rightarrow> globals \<Rightarrow> MuxPool \<times> globals \<times> route_pc" where
  "establish self inp upstream guard pool g =
     (case oi_connect inp upstream g of
        None \<Rightarrow> (pool, g, Panicked)
      | Some (Inl e, g) \<Rightarrow> (unlock pool guard, on_metrics record_handshake_error g, Routed Failed)
      | Some (Inr tls_stream, g) \<Rightarrow>
          (let g = on_metrics (record_handshake (oi_handshake_time inp)) g;
               upstream_id = ts_peer_identity tls_stream in
           case evaluate (out_policy self) (out_local_id self) upstream_id of
             None \<Rightarrow> (pool, g, Panicked)
           | Some decision \<Rightarrow>
               (let g = on_metrics (record_policy decision) g in
                case decision of
                  Deny reason \<Rightarrow> (unlock pool guard, g, Routed Denied)
                | Allow \<Rightarrow>
                    if negotiated_alpn (ts_inner tls_stream) = Some ALPN_MUX
                    then (case register pool upstream (ts_inner tls_stream) upstream_id (g_metrics g) of
                            (pool, tunnel, m) \<Rightarrow> (pool, on_metrics (\<lambda>_. m) g, Registered upstream guard tunnel))
                    else (unlock pool guard, g, Routed (Legacy tls_stream)))))"

definition finish_route :: "outbound_input \<Rightarrow> Route \<Rightarrow> MuxPool \<Rightarrow> globals \<Rightarrow> MuxPool \<times> globals \<times> route_pc" where
  "finish_route inp r pool g =
     (case r of
        MuxStream tunnel \<Rightarrow>
          (drop_guard pool tunnel,
           on_metrics (record_relay_result (oi_copied inp) (oi_elapsed inp)) g, Finished)
      | Legacy tls \<Rightarrow> (pool, on_metrics (record_relay_result (oi_copied inp) (oi_elapsed inp)) g, Finished)
      | Denied \<Rightarrow> (pool, on_metrics record_connection_failed g, Finished)
      | Failed \<Rightarrow> (pool, on_metrics record_connection_failed g, Finished))"

fun route_step ::
  "OutboundProxy \<Rightarrow> outbound_input \<Rightarrow> MuxPool \<Rightarrow> globals \<Rightarrow> route_pc \<Rightarrow> (MuxPool \<times> globals \<times> route_pc) option" where
  "route_step self inp pool g (Begin target) =
     Some (pool, on_metrics record_connection_start g, Resolving target)"
| "route_step self inp pool g (Resolving target) =
     (case outbound_resolve_upstream self (oi_resolve inp) target of
        Inl e \<Rightarrow> Some (pool, on_metrics record_connection_failed g, Finished)
      | Inr upstream \<Rightarrow> Some (pool, g, Routing upstream))"
| "route_step self inp pool g (Routing upstream) =
     Some (pool, g, if out_mux_enabled self then Attempt upstream 4 else Establish upstream None)"
| "route_step self inp pool g (Attempt upstream 0) = Some (pool, g, Routed Failed)"
| "route_step self inp pool g (Attempt upstream (Suc k)) =
     (case pick_under_cap pool upstream of
        Some tunnel \<Rightarrow> Some (pool, g, TryTunnel upstream k tunnel)
      | None \<Rightarrow> (case creation_lock pool upstream of (pool, l) \<Rightarrow> Some (pool, g, AwaitLock upstream k l)))"
| "route_step self inp pool g (TryTunnel upstream k tunnel) =
     Some (try_tunnel_stream self upstream k tunnel pool g)"
| "route_step self inp pool g (AwaitStream upstream k tunnel) =
     (case open_stream_result (oi_reply inp) of
        Inr _ \<Rightarrow> Some (pool, on_metrics record_mux_stream g, Routed (MuxStream tunnel))
      | Inl e \<Rightarrow> Some (evict (drop_guard pool tunnel) upstream tunnel, g, Attempt upstream k))"
| "route_step self inp pool g (AwaitLock upstream k l) =
     (case lock pool l of
        Some pool \<Rightarrow> Some (pool, g, Recheck upstream k l)
      | None \<Rightarrow> None)"
| "route_step self inp pool g (Recheck upstream k l) =
     (case pick_under_cap pool upstream of
        Some tunnel \<Rightarrow> Some (unlock pool (Some l), g, TryTunnel upstream k tunnel)
      | None \<Rightarrow> Some (pool, g, CheckRoom upstream k l))"
| "route_step self inp pool g (CheckRoom upstream k l) =
     (if can_grow pool upstream then Some (pool, g, Establish upstream (Some l))
      else Some (unlock pool (Some l), g, PickAny upstream k))"
| "route_step self inp pool g (PickAny upstream k) =
     (case pick_any pool upstream of
        Some tunnel \<Rightarrow> Some (pool, g, TryTunnel upstream k tunnel)
      | None \<Rightarrow> Some (pool, g, Attempt upstream k))"
| "route_step self inp pool g (Establish upstream guard) = Some (establish self inp upstream guard pool g)"
| "route_step self inp pool g (Registered upstream guard tunnel) =
     Some (reserve pool tunnel, g, AwaitFresh upstream guard tunnel)"
| "route_step self inp pool g (AwaitFresh upstream guard tunnel) =
     (case open_stream_result (oi_reply inp) of
        Inr _ \<Rightarrow> Some (unlock pool guard, on_metrics record_mux_stream g, Routed (MuxStream tunnel))
      | Inl e \<Rightarrow> Some (unlock (evict (drop_guard pool tunnel) upstream tunnel) guard, g, Routed Failed))"
| "route_step self inp pool g (Routed r) = Some (finish_route inp r pool g)"
| "route_step self inp pool g Finished = None"
| "route_step self inp pool g Panicked = None"

subsection \<open>The system\<close>

record outbound_system =
  ob_pool :: MuxPool
  ob_globals :: globals
  ob_tasks :: "nat \<rightharpoonup> route_pc"

text \<open>
  A step: a connection arrives, a task moves on with some input whose TLS connect is that of a
  client endpoint (the identity cache may drop entries as it connects), or a tunnel's driver ends
  and evicts it.
\<close>

definition client_input :: "pki \<Rightarrow> outbound_input \<Rightarrow> bool" where
  "client_input p inp = (\<exists>keep net out cl. oi_connect inp = TlsClient_connect p keep net out cl)"

inductive outbound_step :: "pki \<Rightarrow> OutboundProxy \<Rightarrow> outbound_system \<Rightarrow> outbound_system \<Rightarrow> bool"
  for p :: pki and self :: OutboundProxy where
  arrive: "ob_tasks s t = None \<Longrightarrow>
    outbound_step p self s (s\<lparr>ob_tasks := (ob_tasks s)(t \<mapsto> Begin target)\<rparr>)"
| move: "ob_tasks s t = Some pc \<Longrightarrow> client_input p inp \<Longrightarrow>
    route_step self inp (ob_pool s) (ob_globals s) pc = Some (pool, g, pc') \<Longrightarrow>
    outbound_step p self s \<lparr>ob_pool = pool, ob_globals = g, ob_tasks = (ob_tasks s)(t \<mapsto> pc')\<rparr>"
| driver_exit: "outbound_step p self s (s\<lparr>ob_pool := evict (ob_pool s) addr tunnel\<rparr>)"

definition outbound_init :: "globals \<Rightarrow> outbound_system" where
  "outbound_init g = \<lparr>ob_pool = MuxPool_new, ob_globals = g, ob_tasks = Map.empty\<rparr>"

inductive outbound_reachable :: "pki \<Rightarrow> OutboundProxy \<Rightarrow> globals \<Rightarrow> outbound_system \<Rightarrow> bool"
  for p :: pki and self :: OutboundProxy and g :: globals where
  initial: "outbound_reachable p self g (outbound_init g)"
| further: "outbound_reachable p self g s \<Longrightarrow> outbound_step p self s s' \<Longrightarrow> outbound_reachable p self g s'"

subsection \<open>Program points\<close>

fun slot :: "nat \<Rightarrow> route_pc \<Rightarrow> bool" where
  "slot tid (AwaitStream _ _ t) = (tun_id t = tid)"
| "slot tid (AwaitFresh _ _ t) = (tun_id t = tid)"
| "slot tid (Routed (MuxStream t)) = (tun_id t = tid)"
| "slot tid _ = False"

fun holds_lock :: "nat \<Rightarrow> route_pc \<Rightarrow> bool" where
  "holds_lock l (Recheck _ _ m) = (m = l)"
| "holds_lock l (CheckRoom _ _ m) = (m = l)"
| "holds_lock l (Establish _ guard) = (guard = Some l)"
| "holds_lock l (Registered _ guard _) = (guard = Some l)"
| "holds_lock l (AwaitFresh _ guard _) = (guard = Some l)"
| "holds_lock l _ = False"

text \<open>The lock a program point has in hand or waits for, with the peer it belongs to.\<close>

fun pc_lock :: "route_pc \<Rightarrow> (SocketAddr \<times> nat) option" where
  "pc_lock (AwaitLock a _ l) = Some (a, l)"
| "pc_lock (Recheck a _ l) = Some (a, l)"
| "pc_lock (CheckRoom a _ l) = Some (a, l)"
| "pc_lock (Establish a guard) = map_option (Pair a) guard"
| "pc_lock (Registered a guard _) = map_option (Pair a) guard"
| "pc_lock (AwaitFresh a guard _) = map_option (Pair a) guard"
| "pc_lock _ = None"

fun pc_tunnel :: "route_pc \<Rightarrow> Tunnel option" where
  "pc_tunnel (TryTunnel _ _ t) = Some t"
| "pc_tunnel (AwaitStream _ _ t) = Some t"
| "pc_tunnel (Registered _ _ t) = Some t"
| "pc_tunnel (AwaitFresh _ _ t) = Some t"
| "pc_tunnel (Routed (MuxStream t)) = Some t"
| "pc_tunnel _ = None"

text \<open>The peer a program point has been authorized to talk to.\<close>

fun authorized_peer :: "route_pc \<Rightarrow> SpiffeId option" where
  "authorized_peer (AwaitStream _ _ t) = Some (tun_peer t)"
| "authorized_peer (Registered _ _ t) = Some (tun_peer t)"
| "authorized_peer (AwaitFresh _ _ t) = Some (tun_peer t)"
| "authorized_peer (Routed (MuxStream t)) = Some (tun_peer t)"
| "authorized_peer (Routed (Legacy ts)) = Some (ts_peer_identity ts)"
| "authorized_peer _ = None"

definition in_progress :: "route_pc \<Rightarrow> bool" where
  "in_progress pc = (case pc of Begin _ \<Rightarrow> False | Finished \<Rightarrow> False | Panicked \<Rightarrow> False | _ \<Rightarrow> True)"

lemma holds_lock_pc_lock: "holds_lock l pc \<Longrightarrow> \<exists>a. pc_lock pc = Some (a, l)"
  by (cases pc) auto

lemma slot_pc_tunnel: "slot tid pc \<Longrightarrow> \<exists>t. pc_tunnel pc = Some t \<and> tun_id t = tid"
  by (cases "(tid, pc)" rule: slot.cases) auto

subsection \<open>What one step does\<close>

lemmas pool_defs = reserve_def drop_guard_def evict_def lock_def unlock_def creation_lock_def register_def Let_def

text \<open>Every step that changes a tunnel's counter moves its task into or out of a slot.\<close>

lemma route_step_live:
  assumes "route_step self inp pool g pc = Some (pool', g', pc')"
    and "slot tid pc \<Longrightarrow> 0 < live pool tid" and "live pool (tunnel_next pool) = 0"
  shows "live pool' tid + (if slot tid pc then 1 else 0) = live pool tid + (if slot tid pc' then 1 else 0)"
  using assms
  by (induction self inp pool g pc rule: route_step.induct)
     (auto simp: pool_defs try_tunnel_stream_def establish_def finish_route_def
       split: option.splits sum.splits Decision.splits if_splits prod.splits Route.splits)

lemmas step_defs = pool_defs try_tunnel_stream_def establish_def finish_route_def

lemmas step_splits = option.splits sum.splits Decision.splits if_splits prod.splits Route.splits

text \<open>Every step that changes a mutex moves its task into or out of the critical section.\<close>

lemma route_step_lock:
  assumes "route_step self inp pool g pc = Some (pool', g', pc')" and "pc' \<noteq> Panicked"
    and "holds_lock l pc \<Longrightarrow> lock_held pool l" and "\<not> lock_held pool (lock_next pool)"
  shows "(if lock_held pool' l then 1 else 0 :: nat) + (if holds_lock l pc then 1 else 0)
    = (if lock_held pool l then 1 else 0) + (if holds_lock l pc' then 1 else 0)"
  using assms
  by (induction self inp pool g pc rule: route_step.induct) (auto simp: step_defs split: step_splits)

text \<open>The locks in hand are those of their peers, and the map of locks only grows.\<close>

lemma route_step_creating:
  assumes "route_step self inp pool g pc = Some (pool', g', pc')" and "creating pool a = Some l"
  shows "creating pool' a = Some l"
  using assms
  by (induction self inp pool g pc rule: route_step.induct) (auto simp: step_defs split: step_splits)

lemma route_step_pc_lock:
  assumes "route_step self inp pool g pc = Some (pool', g', pc')"
    and "\<And>a l. pc_lock pc = Some (a, l) \<Longrightarrow> creating pool a = Some l" and "pc_lock pc' = Some (a, l)"
  shows "creating pool' a = Some l"
  using assms
  by (induction self inp pool g pc rule: route_step.induct) (auto simp: step_defs split: step_splits)

lemma route_step_lock_next:
  assumes "route_step self inp pool g pc = Some (pool', g', pc')"
    and "\<And>a l. creating pool a = Some l \<Longrightarrow> l < lock_next pool" and "creating pool' a = Some l"
  shows "l < lock_next pool'"
  using assms
  by (induction self inp pool g pc rule: route_step.induct) (auto simp: step_defs less_Suc_eq split: step_splits)

text \<open>Tunnels come from the registry, with the identity of the connection they carry.\<close>

lemma route_step_tunnel_next:
  assumes "route_step self inp pool g pc = Some (pool', g', pc')"
  shows "tunnel_next pool \<le> tunnel_next pool'"
  using assms
  by (induction self inp pool g pc rule: route_step.induct) (auto simp: step_defs split: step_splits)

lemma route_step_active:
  assumes "route_step self inp pool g pc = Some (pool', g', pc')" and "pc' \<noteq> Panicked"
    and "\<And>addr r h. oi_connect inp addr g = Some (r, h) \<Longrightarrow>
      connections_active (g_metrics h) = connections_active (g_metrics g)"
  shows "connections_active (g_metrics g') + (if in_progress pc then 1 else 0)
    = connections_active (g_metrics g) + (if in_progress pc' then 1 else 0)"
  using assms
  by (induction self inp pool g pc rule: route_step.induct)
     (auto simp: step_defs metrics_simps in_progress_def split: step_splits)

definition wf_tunnel :: "MuxPool \<Rightarrow> Tunnel \<Rightarrow> bool" where
  "wf_tunnel pool t = (valid_id (tun_peer t) \<and> tun_id t < tunnel_next pool)"

definition wf_pool :: "MuxPool \<Rightarrow> bool" where
  "wf_pool pool = (\<forall>b. \<forall>u \<in> set (tunnels pool b). wf_tunnel pool u)"

lemma wf_tunnel_mono: "wf_tunnel pool t \<Longrightarrow> tunnel_next pool \<le> tunnel_next pool' \<Longrightarrow> wf_tunnel pool' t"
  by (auto simp: wf_tunnel_def)

lemma pool_op_frame [frame_simps]:
  "tunnel_next (reserve pool t) = tunnel_next pool" "tunnel_next (drop_guard pool t) = tunnel_next pool"
  "tunnel_next (evict pool a t) = tunnel_next pool" "tunnel_next (unlock pool guard) = tunnel_next pool"
  "tunnel_next (fst (creation_lock pool a)) = tunnel_next pool"
  "lock pool l = Some pool' \<Longrightarrow> tunnel_next pool' = tunnel_next pool"
  by (auto simp: pool_defs split: option.splits if_splits)

lemma tunnels_register:
  assumes "register pool a tls i m = (pool', t, m')"
  shows "tunnels pool' b = (if b = a then tunnels pool a @ [t] else tunnels pool b)"
    and "tun_peer t = i" and "tun_id t = tunnel_next pool" and "tunnel_next pool' = Suc (tunnel_next pool)"
    and "tun_session t = tls"
  using assms by (auto simp: register_def tunnels_def Let_def split: option.splits)

lemma picked_member:
  "pick_under_cap pool a = Some t \<Longrightarrow> \<exists>a. t \<in> set (tunnels pool a)"
  "pick_any pool a = Some t \<Longrightarrow> \<exists>a. t \<in> set (tunnels pool a)"
  using pick_under_cap_Some(1) pick_any_Some by blast+

text \<open>The peers' tunnels change by eviction, and by registration in \<open>establish\<close> only.\<close>

lemma establish_tunnels:
  assumes "establish self inp a guard pool g = (pool', g', pc')"
  shows "(\<forall>b. tunnels pool' b = tunnels pool b) \<and> tunnel_next pool' = tunnel_next pool \<and> pc_tunnel pc' = None
    \<or> (\<exists>ts h t. oi_connect inp a g = Some (Inr ts, h) \<and> pc' = Registered a guard t
         \<and> tun_peer t = ts_peer_identity ts \<and> tun_session t = ts_inner ts \<and> tun_id t = tunnel_next pool
         \<and> tunnel_next pool' = Suc (tunnel_next pool)
         \<and> tunnels pool' = (tunnels pool)(a := tunnels pool a @ [t]))"
  using assms unfolding establish_def
  by (auto simp: Let_def fun_eq_iff frame_simps tunnels_register split: option.splits sum.splits Decision.splits if_splits prod.splits)

lemma creation_lock_frame:
  assumes "creation_lock pool a = (pool', l)"
  shows "tunnels pool' b = tunnels pool b" and "tunnel_next pool' = tunnel_next pool"
  using tunnels_frame(5) [of pool a b] pool_op_frame(5) [of pool a] assms by simp_all

lemma route_step_tunnels:
  assumes "route_step self inp pool g pc = Some (pool', g', pc')" and "\<And>a guard. pc \<noteq> Establish a guard"
  shows "set (tunnels pool' b) \<subseteq> set (tunnels pool b) \<and> length (tunnels pool' b) \<le> length (tunnels pool b)
    \<and> tunnel_next pool' = tunnel_next pool"
  using assms
  by (induction self inp pool g pc rule: route_step.induct)
     (auto simp: try_tunnel_stream_def finish_route_def frame_simps tunnels_evict creation_lock_frame Let_def
       split: step_splits)

lemma route_step_tunnel:
  assumes "route_step self inp pool g pc = Some (pool', g', pc')" and "\<And>a guard. pc \<noteq> Establish a guard"
    and "pc_tunnel pc' = Some t"
  shows "pc_tunnel pc = Some t \<or> (\<exists>a. t \<in> set (tunnels pool a))"
  using assms
  by (induction self inp pool g pc rule: route_step.induct)
     (auto simp: try_tunnel_stream_def finish_route_def Let_def
       intro: picked_member split: step_splits)

lemma route_step_wf:
  assumes step: "route_step self inp pool g pc = Some (pool', g', pc')" and wf: "wf_pool pool"
    and pc: "\<And>t. pc_tunnel pc = Some t \<Longrightarrow> wf_tunnel pool t"
    and conn: "\<And>addr ts h. oi_connect inp addr g = Some (Inr ts, h) \<Longrightarrow> valid_id (ts_peer_identity ts)"
  shows "wf_pool pool'" and "pc_tunnel pc' = Some t \<Longrightarrow> wf_tunnel pool' t"
proof -
  have "wf_pool pool' \<and> (\<forall>t. pc_tunnel pc' = Some t \<longrightarrow> wf_tunnel pool' t)"
  proof (cases "\<exists>a guard. pc = Establish a guard")
    case True
    then obtain a guard where "pc = Establish a guard" by blast
    with step have est: "establish self inp a guard pool g = (pool', g', pc')" by simp
    show ?thesis
      using establish_tunnels [OF est] wf conn [of a]
      by (elim disjE) (auto simp: wf_pool_def wf_tunnel_def less_Suc_eq split: if_splits)
  next
    case False
    then have ne: "\<And>a guard. pc \<noteq> Establish a guard" by blast
    show ?thesis
      using route_step_tunnels [OF step ne] route_step_tunnel [OF step ne] wf pc
      by (force simp: wf_pool_def wf_tunnel_def)
  qed
  then show "wf_pool pool'" "pc_tunnel pc' = Some t \<Longrightarrow> wf_tunnel pool' t" by blast+
qed

text \<open>Authorization: a task speaks to a peer only on a decision \<open>Allow\<close> for that peer.\<close>

lemma route_step_authorized:
  assumes "route_step self inp pool g pc = Some (pool', g', pc')"
    and "\<And>i. authorized_peer pc = Some i \<Longrightarrow> evaluate (out_policy self) (out_local_id self) i = Some Allow"
    and "authorized_peer pc' = Some i"
  shows "evaluate (out_policy self) (out_local_id self) i = Some Allow"
  using assms
  by (induction self inp pool g pc rule: route_step.induct)
     (auto simp: try_tunnel_stream_def establish_def finish_route_def register_def Let_def split: step_splits)

lemma route_step_legacy:
  assumes "route_step self inp pool g pc = Some (pool', g', Routed (Legacy ts))"
  shows "\<exists>addr h. oi_connect inp addr g = Some (Inr ts, h)"
  using assms
  by (induction self inp pool g pc rule: route_step.induct)
     (auto simp: try_tunnel_stream_def establish_def finish_route_def register_def Let_def split: step_splits)

lemma authorized_peer_source:
  "authorized_peer pc = Some i \<Longrightarrow>
     (\<exists>t. pc_tunnel pc = Some t \<and> i = tun_peer t) \<or> (\<exists>ts. pc = Routed (Legacy ts) \<and> i = ts_peer_identity ts)"
  by (induction pc rule: authorized_peer.induct) auto

lemma route_step_safe:
  assumes "route_step self inp pool g pc = Some (pool', g', pc')"
    and "\<And>t. pc_tunnel pc = Some t \<Longrightarrow> evaluate (out_policy self) (out_local_id self) (tun_peer t) \<noteq> None"
    and "\<And>addr. oi_connect inp addr g \<noteq> None"
    and "\<And>addr ts h. oi_connect inp addr g = Some (Inr ts, h) \<Longrightarrow>
      evaluate (out_policy self) (out_local_id self) (ts_peer_identity ts) \<noteq> None"
  shows "pc' \<noteq> Panicked"
  using assms
  by (induction self inp pool g pc rule: route_step.induct)
     (auto simp: try_tunnel_stream_def establish_def finish_route_def Let_def split: step_splits,
      (metis option.distinct(1))+)

text \<open>A new tunnel is registered only with the peer's lock in hand and room below the cap.\<close>

definition room_held :: "MuxPool \<Rightarrow> route_pc \<Rightarrow> bool" where
  "room_held pool pc = (\<forall>a guard. pc = Establish a guard \<longrightarrow>
     guard \<noteq> None \<and> length (tunnels pool a) < MAX_TUNNELS_PER_PEER)"

lemma route_step_room:
  assumes "route_step self inp pool g pc = Some (pool', g', pc')" and "out_mux_enabled self"
  shows "room_held pool' pc'"
  using assms
  by (induction self inp pool g pc rule: route_step.induct)
     (auto simp: room_held_def try_tunnel_stream_def establish_def finish_route_def Let_def pool.room_iff
       split: step_splits)

lemma route_step_bounded:
  assumes step: "route_step self inp pool g pc = Some (pool', g', pc')" and room: "room_held pool pc"
    and bound: "\<forall>b. length (tunnels pool b) \<le> MAX_TUNNELS_PER_PEER"
  shows "length (tunnels pool' b) \<le> MAX_TUNNELS_PER_PEER"
proof (cases "\<exists>a guard. pc = Establish a guard")
  case True
  then obtain a guard where pc: "pc = Establish a guard" by blast
  with step have "establish self inp a guard pool g = (pool', g', pc')" by simp
  from establish_tunnels [OF this] room bound show ?thesis by (auto simp: pc room_held_def Suc_le_eq)
next
  case False
  then have "\<And>a guard. pc \<noteq> Establish a guard" by blast
  from route_step_tunnels [OF step this, of b] bound show ?thesis by (meson order_trans)
qed

lemma route_step_tls:
  assumes "route_step self inp pool g pc = Some (pool', g', pc')" and "tls_ok p g"
    and "\<And>addr r h. oi_connect inp addr g = Some (r, h) \<Longrightarrow> tls_ok p h"
  shows "tls_ok p g'"
  using assms
  by (induction self inp pool g pc rule: route_step.induct)
     (auto simp: try_tunnel_stream_def establish_def finish_route_def register_def Let_def split: step_splits)

lemma client_input_endpoint: "client_input p inp \<Longrightarrow> tls_endpoint (oi_connect inp addr) (tls_ok p)"
  unfolding client_input_def using client_connect.tls_endpoint_axioms by auto

lemma client_input_connect:
  assumes "client_input p inp" and "tls_ok p g"
  shows "oi_connect inp addr g \<noteq> None" and "oi_connect inp addr g = Some (r, h) \<Longrightarrow> tls_ok p h"
    and "oi_connect inp addr g = Some (r, h) \<Longrightarrow> connections_active (g_metrics h) = connections_active (g_metrics g)"
    and "oi_connect inp addr g = Some (Inr ts, h) \<Longrightarrow> valid_id (ts_peer_identity ts)"
proof -
  note tls = client_input_endpoint [OF assms(1), of addr]
  obtain r' h' where "oi_connect inp addr g = Some (r', h')" "tls_ok p h'"
    using tls_endpoint.shake_returns [OF tls assms(2)] by blast
  then show "oi_connect inp addr g \<noteq> None" "oi_connect inp addr g = Some (r, h) \<Longrightarrow> tls_ok p h" by simp_all
  show "oi_connect inp addr g = Some (r, h) \<Longrightarrow> connections_active (g_metrics h) = connections_active (g_metrics g)"
    by (rule tls_endpoint.shake_frame(1) [OF tls assms(2)])
  show "oi_connect inp addr g = Some (Inr ts, h) \<Longrightarrow> valid_id (ts_peer_identity ts)"
    using tls_endpoint.shake_identity [OF tls assms(2)] by blast
qed

subsection \<open>The invariant\<close>

definition task_ok :: "OutboundProxy \<Rightarrow> MuxPool \<Rightarrow> route_pc \<Rightarrow> bool" where
  "task_ok self pool pc = (pc \<noteq> Panicked
     \<and> (\<forall>u. pc_tunnel pc = Some u \<longrightarrow> wf_tunnel pool u)
     \<and> (\<forall>a l. pc_lock pc = Some (a, l) \<longrightarrow> creating pool a = Some l)
     \<and> (\<forall>i. authorized_peer pc = Some i \<longrightarrow>
          valid_id i \<and> evaluate (out_policy self) (out_local_id self) i = Some Allow))"

definition tasks_ok :: "OutboundProxy \<Rightarrow> outbound_system \<Rightarrow> bool" where
  "tasks_ok self s = (\<forall>t pc. ob_tasks s t = Some pc \<longrightarrow> task_ok self (ob_pool s) pc)"

definition pool_ok :: "MuxPool \<Rightarrow> bool" where
  "pool_ok pool = (wf_pool pool \<and> (\<forall>a l. creating pool a = Some l \<longrightarrow> l < lock_next pool))"

definition counted :: "globals \<Rightarrow> outbound_system \<Rightarrow> bool" where
  "counted g0 s = ((\<forall>tid. live (ob_pool s) tid = count_tasks (slot tid) (ob_tasks s))
     \<and> (\<forall>l. (if lock_held (ob_pool s) l then 1 else 0) = count_tasks (holds_lock l) (ob_tasks s))
     \<and> connections_active (g_metrics (ob_globals s)) =
         connections_active (g_metrics g0) + int (count_tasks in_progress (ob_tasks s)))"

definition outbound_inv :: "pki \<Rightarrow> OutboundProxy \<Rightarrow> globals \<Rightarrow> outbound_system \<Rightarrow> bool" where
  "outbound_inv p self g0 s = (finite (dom (ob_tasks s)) \<and> tls_ok p (ob_globals s) \<and> pool_ok (ob_pool s)
     \<and> tasks_ok self s \<and> counted g0 s)"

definition sound_proxy :: "OutboundProxy \<Rightarrow> bool" where
  "sound_proxy self = (wf_engine (out_policy self) \<and> valid_id (out_local_id self))"

lemma sound_proxy_evaluate:
  "sound_proxy self \<Longrightarrow> valid_id i \<Longrightarrow> evaluate (out_policy self) (out_local_id self) i \<noteq> None"
  by (simp add: sound_proxy_def evaluate_policy_spec)

lemma task_ok_mono:
  assumes "task_ok self pool pc" and "tunnel_next pool \<le> tunnel_next pool'"
    and "\<And>a l. creating pool a = Some l \<Longrightarrow> creating pool' a = Some l"
  shows "task_ok self pool' pc"
  using assms by (auto simp: task_ok_def intro: wf_tunnel_mono)

lemma route_step_task_ok:
  assumes step: "route_step self inp pool g pc = Some (pool', g', pc')" and inp: "client_input p inp"
    and ok: "sound_proxy self" "tls_ok p g" "pool_ok pool" "task_ok self pool pc"
  shows "task_ok self pool' pc'" and "pool_ok pool'"
proof -
  have wf: "wf_pool pool" and tun: "\<And>t. pc_tunnel pc = Some t \<Longrightarrow> wf_tunnel pool t"
    and lk: "\<And>a l. pc_lock pc = Some (a, l) \<Longrightarrow> creating pool a = Some l"
    and au: "\<And>i. authorized_peer pc = Some i \<Longrightarrow> evaluate (out_policy self) (out_local_id self) i = Some Allow"
    and nx: "\<And>a l. creating pool a = Some l \<Longrightarrow> l < lock_next pool"
    using ok(3,4) by (auto simp: pool_ok_def task_ok_def)
  note conn = client_input_connect [OF inp ok(2)]
  have ev: "\<And>t. pc_tunnel pc = Some t \<Longrightarrow> evaluate (out_policy self) (out_local_id self) (tun_peer t) \<noteq> None"
    using tun sound_proxy_evaluate [OF ok(1)] by (auto simp: wf_tunnel_def)
  have "pc' \<noteq> Panicked"
    by (rule route_step_safe [OF step ev conn(1)]) (use conn(4) sound_proxy_evaluate [OF ok(1)] in auto)
  moreover have "valid_id i" if "authorized_peer pc' = Some i" for i
    using authorized_peer_source [OF that] route_step_wf(2) [OF step wf tun conn(4)] route_step_legacy [of self inp pool g pc]
      step conn(4) by (auto simp: wf_tunnel_def)
  ultimately show "task_ok self pool' pc'"
    using route_step_wf(2) [OF step wf tun conn(4)] route_step_pc_lock [OF step lk]
      route_step_authorized [OF step au] by (simp add: task_ok_def)
  show "pool_ok pool'"
    using route_step_wf(1) [OF step wf tun conn(4)] route_step_lock_next [OF step nx] by (simp add: pool_ok_def)
qed

lemma counted_fresh:
  assumes "outbound_inv p self g0 s"
  shows "live (ob_pool s) (tunnel_next (ob_pool s)) = 0" and "\<not> lock_held (ob_pool s) (lock_next (ob_pool s))"
proof -
  have ok: "\<And>t pc. ob_tasks s t = Some pc \<Longrightarrow> task_ok self (ob_pool s) pc" and "pool_ok (ob_pool s)"
    and live: "\<And>tid. live (ob_pool s) tid = count_tasks (slot tid) (ob_tasks s)"
    and held: "\<And>l. (if lock_held (ob_pool s) l then 1 else 0) = count_tasks (holds_lock l) (ob_tasks s)"
    using assms by (auto simp: outbound_inv_def tasks_ok_def counted_def)
  have "\<not> slot (tunnel_next (ob_pool s)) pc" if "ob_tasks s t = Some pc" for t pc
    using ok [OF that] slot_pc_tunnel [of "tunnel_next (ob_pool s)" pc] by (auto simp: task_ok_def wf_tunnel_def)
  then show "live (ob_pool s) (tunnel_next (ob_pool s)) = 0" unfolding live by (rule count_tasks_zero)
  have "\<not> holds_lock (lock_next (ob_pool s)) pc" if "ob_tasks s t = Some pc" for t pc
    using ok [OF that] holds_lock_pc_lock [of "lock_next (ob_pool s)" pc] \<open>pool_ok (ob_pool s)\<close>
    unfolding task_ok_def pool_ok_def by (metis less_irrefl)
  then have "count_tasks (holds_lock (lock_next (ob_pool s))) (ob_tasks s) = 0" by (rule count_tasks_zero)
  with held [of "lock_next (ob_pool s)"] show "\<not> lock_held (ob_pool s) (lock_next (ob_pool s))"
    by (auto split: if_splits)
qed

lemma held_by_one:
  assumes "outbound_inv p self g0 s" and "ob_tasks s t = Some pc" and "ob_tasks s u = Some pd"
    and "holds_lock l pc" and "holds_lock l pd"
  shows "t = u"
proof (rule count_tasks_unique [OF _ _ assms(2,4) assms(3,5)])
  show "finite (dom (ob_tasks s))" using assms(1) by (simp add: outbound_inv_def)
  have "count_tasks (holds_lock l) (ob_tasks s) = (if lock_held (ob_pool s) l then 1 else 0)"
    using assms(1) by (simp add: outbound_inv_def counted_def)
  then show "count_tasks (holds_lock l) (ob_tasks s) \<le> 1" by simp
qed

lemma counted_move:
  assumes inv: "outbound_inv p self g0 s" and t: "ob_tasks s t = Some pc" and inp: "client_input p inp"
    and step: "route_step self inp (ob_pool s) (ob_globals s) pc = Some (pool, g, pc')" and ne: "pc' \<noteq> Panicked"
  shows "counted g0 \<lparr>ob_pool = pool, ob_globals = g, ob_tasks = (ob_tasks s)(t \<mapsto> pc')\<rparr>"
proof -
  have fin: "finite (dom (ob_tasks s))" and tls: "tls_ok p (ob_globals s)"
    and live: "\<And>tid. live (ob_pool s) tid = count_tasks (slot tid) (ob_tasks s)"
    and held: "\<And>l. (if lock_held (ob_pool s) l then 1 else 0) = count_tasks (holds_lock l) (ob_tasks s)"
    and act: "connections_active (g_metrics (ob_globals s)) =
         connections_active (g_metrics g0) + int (count_tasks in_progress (ob_tasks s))"
    using inv by (auto simp: outbound_inv_def counted_def)
  note move = count_tasks_move [OF fin t, where q = pc']
  have active: "connections_active (g_metrics g) + (if in_progress pc then 1 else 0)
      = connections_active (g_metrics (ob_globals s)) + (if in_progress pc' then 1 else 0)"
    by (rule route_step_active [OF step ne]) (rule client_input_connect(3) [OF inp tls])
  have "live pool tid = count_tasks (slot tid) ((ob_tasks s)(t \<mapsto> pc'))" for tid
  proof -
    have "0 < live (ob_pool s) tid" if "slot tid pc"
      using count_tasks_pos [OF fin t, of "slot tid"] that live by simp
    from route_step_live [OF step this counted_fresh(1) [OF inv]] move [of "slot tid"] live [of tid]
    show ?thesis by linarith
  qed
  moreover have "(if lock_held pool l then 1 else 0) = count_tasks (holds_lock l) ((ob_tasks s)(t \<mapsto> pc'))" for l
  proof -
    have "lock_held (ob_pool s) l" if "holds_lock l pc"
      using count_tasks_pos [OF fin t, of "holds_lock l"] that held [of l] by (auto split: if_splits)
    from route_step_lock [OF step ne this counted_fresh(2) [OF inv]] move [of "holds_lock l"] held [of l]
    show ?thesis by linarith
  qed
  moreover have "connections_active (g_metrics g) =
      connections_active (g_metrics g0) + int (count_tasks in_progress ((ob_tasks s)(t \<mapsto> pc')))"
    using active move [of in_progress] act by (auto split: if_splits)
  ultimately show ?thesis by (simp add: counted_def)
qed

lemma outbound_inv_move:
  assumes inv: "outbound_inv p self g0 s" and sound: "sound_proxy self"
    and t: "ob_tasks s t = Some pc" and inp: "client_input p inp"
    and step: "route_step self inp (ob_pool s) (ob_globals s) pc = Some (pool, g, pc')"
  shows "outbound_inv p self g0 \<lparr>ob_pool = pool, ob_globals = g, ob_tasks = (ob_tasks s)(t \<mapsto> pc')\<rparr>"
proof -
  have fin: "finite (dom (ob_tasks s))" and tls: "tls_ok p (ob_globals s)" and pool: "pool_ok (ob_pool s)"
    and tasks: "\<And>u pd. ob_tasks s u = Some pd \<Longrightarrow> task_ok self (ob_pool s) pd"
    using inv by (auto simp: outbound_inv_def tasks_ok_def)
  note ok = route_step_task_ok [OF step inp sound tls pool tasks [OF t]]
  have "task_ok self pool pd" if "((ob_tasks s)(t \<mapsto> pc')) u = Some pd" for u pd
    using that ok(1) task_ok_mono [OF tasks route_step_tunnel_next [OF step] route_step_creating [OF step]]
    by (auto split: if_splits)
  moreover have "tls_ok p g"
    by (rule route_step_tls [OF step tls]) (rule client_input_connect(2) [OF inp tls])
  moreover have "pc' \<noteq> Panicked" using ok(1) by (simp add: task_ok_def)
  ultimately show ?thesis
    using fin ok(2) counted_move [OF inv t inp step] by (simp add: outbound_inv_def tasks_ok_def)
qed

lemma evict_frame [frame_simps]:
  "live (evict pool a t) = live pool" "lock_held (evict pool a t) = lock_held pool"
  "creating (evict pool a t) = creating pool" "lock_next (evict pool a t) = lock_next pool"
  by (simp_all add: evict_def split: option.splits)

lemma pool_ok_evict: "pool_ok pool \<Longrightarrow> pool_ok (evict pool a t)"
  by (auto simp: pool_ok_def wf_pool_def wf_tunnel_def pool.remove_member frame_simps)

lemma outbound_inv_step:
  assumes "outbound_step p self s s'" and "sound_proxy self" and "outbound_inv p self g0 s"
  shows "outbound_inv p self g0 s'"
  using assms(1)
proof cases
  case (arrive t target)
  have fin: "finite (dom (ob_tasks s))" using assms(3) by (simp add: outbound_inv_def)
  note new = count_tasks_new [OF fin arrive(2), where q = "Begin target"]
  have "task_ok self (ob_pool s) (Begin target)" by (simp add: task_ok_def)
  then show ?thesis
    using assms(3) by (auto simp: arrive(1) outbound_inv_def tasks_ok_def counted_def new in_progress_def)
next
  case (move t pc inp pool g pc')
  then show ?thesis using outbound_inv_move [OF assms(3,2)] by simp
next
  case (driver_exit addr tunnel)
  have "task_ok self (evict (ob_pool s) addr tunnel) pc" if "task_ok self (ob_pool s) pc" for pc
    by (rule task_ok_mono [OF that]) (simp_all add: frame_simps)
  then show ?thesis
    using assms(3) by (auto simp: driver_exit outbound_inv_def tasks_ok_def counted_def frame_simps pool_ok_evict)
qed

lemma outbound_inv_init: "tls_ok p g \<Longrightarrow> outbound_inv p self g (outbound_init g)"
  by (simp add: outbound_inv_def outbound_init_def tasks_ok_def counted_def pool_ok_def wf_pool_def MuxPool_new_def
      tunnels_def)

lemma outbound_reachable_inv:
  assumes "outbound_reachable p self g s" and "sound_proxy self" and "tls_ok p g"
  shows "outbound_inv p self g s"
  using assms(1) by induction (use assms in \<open>auto intro: outbound_inv_init outbound_inv_step\<close>)

subsection \<open>Peers and their certificates\<close>

text \<open>
  The identity a stream is authorized by is the one in the certificate of the session it runs over,
  however long ago the tunnel was established.
\<close>

definition tunnel_proven :: "pki \<Rightarrow> Tunnel \<Rightarrow> bool" where
  "tunnel_proven p t = (session_identity p (tun_session t) = Some (Inr (tun_peer t)))"

definition route_proven :: "pki \<Rightarrow> route_pc \<Rightarrow> bool" where
  "route_proven p pc = ((\<forall>t. pc_tunnel pc = Some t \<longrightarrow> tunnel_proven p t)
     \<and> (\<forall>ts. pc = Routed (Legacy ts) \<longrightarrow> session_identity p (ts_inner ts) = Some (Inr (ts_peer_identity ts))))"

definition sessions_proven :: "pki \<Rightarrow> outbound_system \<Rightarrow> bool" where
  "sessions_proven p s = ((\<forall>a. \<forall>t \<in> set (tunnels (ob_pool s) a). tunnel_proven p t)
     \<and> (\<forall>t pc. ob_tasks s t = Some pc \<longrightarrow> route_proven p pc))"

lemma client_input_session:
  assumes "client_input p inp" and "tls_ok p g" and "oi_connect inp addr g = Some (Inr ts, h)"
  shows "session_identity p (ts_inner ts) = Some (Inr (ts_peer_identity ts))"
  using assms TlsClient_connect_Inr(2) [OF assms(2)] unfolding client_input_def by metis

lemma route_step_proven:
  assumes step: "route_step self inp pool g pc = Some (pool', g', pc')"
    and conn: "\<And>addr ts h. oi_connect inp addr g = Some (Inr ts, h) \<Longrightarrow>
      session_identity p (ts_inner ts) = Some (Inr (ts_peer_identity ts))"
    and pool: "\<And>a t. t \<in> set (tunnels pool a) \<Longrightarrow> tunnel_proven p t" and pc: "route_proven p pc"
  shows "(\<forall>a. \<forall>t \<in> set (tunnels pool' a). tunnel_proven p t) \<and> route_proven p pc'"
proof -
  have "session_identity p (ts_inner ts) = Some (Inr (ts_peer_identity ts))" if "pc' = Routed (Legacy ts)" for ts
    using route_step_legacy step that conn by blast
  moreover have "(\<forall>a. \<forall>t \<in> set (tunnels pool' a). tunnel_proven p t) \<and> (\<forall>t. pc_tunnel pc' = Some t \<longrightarrow> tunnel_proven p t)"
  proof (cases "\<exists>a guard. pc = Establish a guard")
    case True
    then obtain a guard where "pc = Establish a guard" by blast
    with step have est: "establish self inp a guard pool g = (pool', g', pc')" by simp
    show ?thesis
      using establish_tunnels [OF est] pool conn [of a]
      by (elim disjE) (auto simp: tunnel_proven_def split: if_splits)
  next
    case False
    then have ne: "\<And>a guard. pc \<noteq> Establish a guard" by blast
    have "set (tunnels pool' a) \<subseteq> set (tunnels pool a)" for a using route_step_tunnels [OF step ne, of a] by blast
    then show ?thesis using route_step_tunnel [OF step ne] pool pc unfolding route_proven_def by blast
  qed
  ultimately show ?thesis by (simp add: route_proven_def)
qed

lemma sessions_proven_step:
  assumes "outbound_step p self s s'" and "tls_ok p (ob_globals s)" and "sessions_proven p s"
  shows "sessions_proven p s'"
  using assms(1)
proof cases
  case (arrive t target)
  then show ?thesis using assms(3) by (auto simp: sessions_proven_def route_proven_def)
next
  case (move t pc inp pool g pc')
  have "(\<forall>a. \<forall>t \<in> set (tunnels pool a). tunnel_proven p t) \<and> route_proven p pc'"
    by (rule route_step_proven [OF move(4) client_input_session [OF move(3) assms(2)]])
       (use assms(3) move(2) in \<open>auto simp: sessions_proven_def\<close>)
  then show ?thesis using assms(3) move(1) by (auto simp: sessions_proven_def)
next
  case (driver_exit addr tunnel)
  then show ?thesis using assms(3) by (auto simp: sessions_proven_def tunnels_evict split: if_splits)
qed

lemma outbound_reachable_proven:
  assumes "outbound_reachable p self g s" and "sound_proxy self" and "tls_ok p g"
  shows "sessions_proven p s"
  using assms(1)
proof induction
  case initial
  then show ?case by (simp add: sessions_proven_def outbound_init_def tunnels_def MuxPool_new_def)
next
  case (further s s')
  then have "tls_ok p (ob_globals s)" using outbound_reachable_inv [OF _ assms(2,3)] by (auto simp: outbound_inv_def)
  with further show ?case by (blast intro: sessions_proven_step)
qed

subsection \<open>The cap on tunnels\<close>

definition bounded_inv :: "outbound_system \<Rightarrow> bool" where
  "bounded_inv s = ((\<forall>b. length (tunnels (ob_pool s) b) \<le> MAX_TUNNELS_PER_PEER)
     \<and> (\<forall>t pc. ob_tasks s t = Some pc \<longrightarrow> room_held (ob_pool s) pc))"

lemma route_step_not_grown:
  assumes step: "route_step self inp pool g pc = Some (pool', g', pc')" and "\<And>guard. pc \<noteq> Establish a guard"
  shows "length (tunnels pool' a) \<le> length (tunnels pool a)"
proof (cases "\<exists>b guard. pc = Establish b guard")
  case True
  then obtain b guard where pc: "pc = Establish b guard" by blast
  with step have est: "establish self inp b guard pool g = (pool', g', pc')" by simp
  have "a \<noteq> b" using assms(2) pc by blast
  with establish_tunnels [OF est] show ?thesis by auto
next
  case False
  then show ?thesis using route_step_tunnels [OF step, of a] by blast
qed

lemma bounded_inv_room:
  assumes "bounded_inv s" and "ob_tasks s t = Some (Establish a guard)"
  shows "\<exists>l. guard = Some l \<and> length (tunnels (ob_pool s) a) < MAX_TUNNELS_PER_PEER"
proof -
  have "room_held (ob_pool s) (Establish a guard)" using assms by (simp add: bounded_inv_def)
  then show ?thesis by (auto simp: room_held_def)
qed

lemma outbound_inv_lock:
  assumes "outbound_inv p self g0 s" and "ob_tasks s t = Some pc" and "pc_lock pc = Some (a, l)"
  shows "creating (ob_pool s) a = Some l"
proof -
  have "task_ok self (ob_pool s) pc" using assms by (simp add: outbound_inv_def tasks_ok_def)
  then show ?thesis using assms(3) by (simp add: task_ok_def)
qed

lemma room_held_move:
  assumes inv: "outbound_inv p self g0 s" and bnd: "bounded_inv s"
    and step: "route_step self inp (ob_pool s) (ob_globals s) pc = Some (pool, g, pc')"
    and t: "ob_tasks s t = Some pc" and u: "ob_tasks s u = Some pd" and ne: "u \<noteq> t"
  shows "room_held pool pd"
proof -
  have "guard \<noteq> None \<and> length (tunnels pool a) < MAX_TUNNELS_PER_PEER" if pd: "pd = Establish a guard" for a guard
  proof -
    obtain l where l: "guard = Some l" and room: "length (tunnels (ob_pool s) a) < MAX_TUNNELS_PER_PEER"
      using bounded_inv_room [OF bnd] u pd by blast
    have "pc \<noteq> Establish a guard'" for guard'
    proof
      assume pc: "pc = Establish a guard'"
      obtain l' where l': "guard' = Some l'" using bounded_inv_room [OF bnd] t pc by blast
      have "creating (ob_pool s) a = Some l" "creating (ob_pool s) a = Some l'"
        using outbound_inv_lock [OF inv t, of a l'] outbound_inv_lock [OF inv u, of a l] by (simp_all add: pd pc l l')
      then have "t = u" using held_by_one [OF inv t u, of l] by (simp add: pd pc l l')
      with ne show False by simp
    qed
    from route_step_not_grown [OF step this] l room show ?thesis by simp
  qed
  then show ?thesis by (simp add: room_held_def)
qed

lemma bounded_inv_step:
  assumes "outbound_step p self s s'" and "outbound_inv p self g0 s" and "out_mux_enabled self" and "bounded_inv s"
  shows "bounded_inv s'"
  using assms(1)
proof cases
  case (arrive t target)
  then show ?thesis using assms(4) by (auto simp: bounded_inv_def room_held_def)
next
  case (move t pc inp pool g pc')
  have "room_held pool pd" if "((ob_tasks s)(t \<mapsto> pc')) u = Some pd" for u pd
    using that route_step_room [OF move(4) assms(3)] room_held_move [OF assms(2,4) move(4,2)]
    by (auto split: if_splits)
  moreover have "room_held (ob_pool s) pc" "\<forall>b. length (tunnels (ob_pool s) b) \<le> MAX_TUNNELS_PER_PEER"
    using assms(4) move(2) by (auto simp: bounded_inv_def)
  ultimately show ?thesis using route_step_bounded [OF move(4)] by (simp add: bounded_inv_def move(1))
next
  case (driver_exit addr tunnel)
  have le: "length (tunnels (evict (ob_pool s) addr tunnel) b) \<le> length (tunnels (ob_pool s) b)" for b
    by (rule pool.remove_shrinks)
  then have "room_held (evict (ob_pool s) addr tunnel) pc" if "room_held (ob_pool s) pc" for pc
    using that le_less_trans by (fastforce simp: room_held_def)
  then show ?thesis
    using assms(4) le order_trans [OF le] by (auto simp: bounded_inv_def driver_exit)
qed

lemma outbound_reachable_bounded:
  assumes "outbound_reachable p self g s" and "sound_proxy self" and "tls_ok p g" and "out_mux_enabled self"
  shows "bounded_inv s"
  using assms(1)
proof induction
  case initial
  show ?case by (simp add: bounded_inv_def outbound_init_def MuxPool_new_def tunnels_def)
next
  case (further s s')
  then show ?case using bounded_inv_step outbound_reachable_inv assms by blast
qed

subsection \<open>Progress\<close>

text \<open>How many of its own steps a task has left at most.\<close>

fun route_rank :: "route_pc \<Rightarrow> nat" where
  "route_rank (Begin _) = 33"
| "route_rank (Resolving _) = 32"
| "route_rank (Routing _) = 31"
| "route_rank (Attempt _ k) = 7 * k + 2"
| "route_rank (AwaitStream _ k _) = 7 * k + 3"
| "route_rank (TryTunnel _ k _) = 7 * k + 4"
| "route_rank (PickAny _ k) = 7 * k + 5"
| "route_rank (CheckRoom _ k _) = 7 * k + 6"
| "route_rank (Recheck _ k _) = 7 * k + 7"
| "route_rank (AwaitLock _ k _) = 7 * k + 8"
| "route_rank (Establish _ _) = 4"
| "route_rank (Registered _ _ _) = 3"
| "route_rank (AwaitFresh _ _ _) = 2"
| "route_rank (Routed _) = 1"
| "route_rank Finished = 0"
| "route_rank Panicked = 0"

lemma route_step_rank:
  "route_step self inp pool g pc = Some (pool', g', pc') \<Longrightarrow> route_rank pc' < route_rank pc"
  by (induction self inp pool g pc rule: route_step.induct)
     (auto simp: try_tunnel_stream_def establish_def finish_route_def register_def Let_def split: step_splits)

lemma route_step_blocked:
  "route_step self inp pool g pc = None \<longleftrightarrow>
     pc = Finished \<or> pc = Panicked \<or> (\<exists>a k l. pc = AwaitLock a k l \<and> lock_held pool l)"
  by (induction self inp pool g pc rule: route_step.induct) (auto simp: lock_def split: step_splits)

lemma lock_has_holder:
  assumes "outbound_inv p self g0 s" and "lock_held (ob_pool s) l"
  shows "\<exists>t pc. ob_tasks s t = Some pc \<and> holds_lock l pc"
proof -
  have "count_tasks (holds_lock l) (ob_tasks s) = 1"
    using assms by (auto simp: outbound_inv_def counted_def dest: spec [of _ l])
  then show ?thesis using count_tasks_zero [of "ob_tasks s" "holds_lock l"] by fastforce
qed

subsection \<open>One handler on its own\<close>

text \<open>A handler run by itself for at most \<open>n\<close> steps, with the same answers throughout.\<close>

fun route_run ::
  "OutboundProxy \<Rightarrow> outbound_input \<Rightarrow> nat \<Rightarrow> MuxPool \<times> globals \<times> route_pc \<Rightarrow> MuxPool \<times> globals \<times> route_pc" where
  "route_run self inp 0 c = c"
| "route_run self inp (Suc n) (pool, g, pc) =
     (case route_step self inp pool g pc of
        None \<Rightarrow> (pool, g, pc)
      | Some c \<Rightarrow> route_run self inp n c)"

lemma route_run_reachable:
  assumes "outbound_reachable p self g0 s" and "ob_tasks s t = Some pc" and "client_input p inp"
    and "route_run self inp n (ob_pool s, ob_globals s, pc) = (pool, g, pc')"
  shows "outbound_reachable p self g0 \<lparr>ob_pool = pool, ob_globals = g, ob_tasks = (ob_tasks s)(t \<mapsto> pc')\<rparr>"
  using assms
proof (induction n arbitrary: s pc)
  case 0
  then show ?case by (cases s) (auto simp: fun_upd_idem)
next
  case (Suc n)
  show ?case
  proof (cases "route_step self inp (ob_pool s) (ob_globals s) pc")
    case None
    with Suc.prems show ?thesis by (cases s) (auto simp: fun_upd_idem)
  next
    case (Some c)
    obtain pool1 g1 pc1 where c: "c = (pool1, g1, pc1)" by (cases c)
    let ?s = "\<lparr>ob_pool = pool1, ob_globals = g1, ob_tasks = (ob_tasks s)(t \<mapsto> pc1)\<rparr> :: outbound_system"
    have "outbound_reachable p self g0 ?s"
      using Suc.prems(1) outbound_step.move [OF Suc.prems(2,3) Some [unfolded c]] by (rule outbound_reachable.further)
    from Suc.IH [OF this _ Suc.prems(3), of pc1] Suc.prems(4) Some c show ?thesis
      by (simp add: fun_upd_same del: fun_upd_apply)
  qed
qed

lemma route_run_new_task:
  assumes "outbound_reachable p self g0 s" and "ob_tasks s t = None" and "client_input p inp"
    and "route_run self inp n (ob_pool s, ob_globals s, Begin target) = (pool, g, pc')"
  shows "outbound_reachable p self g0 \<lparr>ob_pool = pool, ob_globals = g, ob_tasks = (ob_tasks s)(t \<mapsto> pc')\<rparr>"
proof -
  have "outbound_reachable p self g0 (s\<lparr>ob_tasks := (ob_tasks s)(t \<mapsto> Begin target)\<rparr>)"
    using assms(1) outbound_step.arrive [OF assms(2)] by (rule outbound_reachable.further)
  from route_run_reachable [OF this _ assms(3), of t "Begin target" n] assms(4) show ?thesis by simp
qed

lemma route_run_finishes:
  assumes "outbound_inv p self g0 s" and "sound_proxy self" and "client_input p inp" and "ob_tasks s t = Some pc"
    and "\<And>u pd l. ob_tasks s u = Some pd \<Longrightarrow> u \<noteq> t \<Longrightarrow> \<not> holds_lock l pd" and "route_rank pc \<le> n"
  shows "\<exists>pool g. route_run self inp n (ob_pool s, ob_globals s, pc) = (pool, g, Finished)"
  using assms
proof (induction n arbitrary: s pc)
  case 0
  then have "task_ok self (ob_pool s) pc" by (simp add: outbound_inv_def tasks_ok_def)
  with 0 show ?case by (cases pc) (auto simp: task_ok_def)
next
  case (Suc n)
  show ?case
  proof (cases "route_step self inp (ob_pool s) (ob_globals s) pc")
    case None
    have "task_ok self (ob_pool s) pc" using Suc.prems by (simp add: outbound_inv_def tasks_ok_def)
    moreover have "pc \<noteq> AwaitLock a k l \<or> \<not> lock_held (ob_pool s) l" for a k l
      using lock_has_holder [OF Suc.prems(1), of l] Suc.prems(4,5) by force
    ultimately have "pc = Finished" using None by (auto simp: route_step_blocked task_ok_def)
    then show ?thesis using None by simp
  next
    case (Some c)
    obtain pool1 g1 pc1 where c: "c = (pool1, g1, pc1)" by (cases c)
    let ?s = "\<lparr>ob_pool = pool1, ob_globals = g1, ob_tasks = (ob_tasks s)(t \<mapsto> pc1)\<rparr> :: outbound_system"
    have "outbound_inv p self g0 ?s" using outbound_inv_move [OF Suc.prems(1,2,4,3)] Some c by simp
    moreover have "route_rank pc1 \<le> n" using route_step_rank Some c Suc.prems(6) by fastforce
    ultimately show ?thesis
      using Suc.IH [of ?s pc1] Suc.prems(2,3,5) Some c by (simp split: if_splits)
  qed
qed

subsection \<open>Properties\<close>

definition sample_out :: OutboundProxy where
  "sample_out = \<lparr>out_gate = gate_new 1, out_default_upstream = None, out_mux_enabled = True, out_listen_port = 15001,
     out_policy = sample_engine, out_discovery = False, out_shutdown = None, out_local_id = sample_id\<rparr>"

definition sample_mux_session :: tls_session where
  "sample_mux_session = sample_session\<lparr>alpn_protocol := Some ALPN_MUX\<rparr>"

definition sample_input :: outbound_input where
  "sample_input = \<lparr>oi_resolve = (\<lambda>_. Inl (DnsResolution [])),
     oi_connect = TlsClient_connect sample_pki UNIV (\<lambda>_ _. Inr ()) (\<lambda>_ _. Established sample_mux_session) sample_client,
     oi_reply = Opened, oi_copied = Inr (7, 11), oi_handshake_time = 3, oi_elapsed = 9\<rparr>"

definition sample_tunnel :: Tunnel where
  "sample_tunnel = \<lparr>tun_id = 0, tun_peer = sample_id, tun_session = sample_mux_session\<rparr>"

lemma sample_input_client: "client_input sample_pki sample_input"
  unfolding client_input_def sample_input_def by auto

lemma sample_out_sound: "sound_proxy sample_out"
  using sample_wf sample_id_valid by (simp add: sound_proxy_def sample_out_def)

lemma sample_routed:
  "\<exists>pool g. route_run sample_out sample_input 10 (MuxPool_new, sample_globals, Begin (Socket sample_peer)) =
     (pool, g, Routed (MuxStream sample_tunnel))
     \<and> live pool 0 = 1 \<and> tunnels pool sample_peer = [sample_tunnel]
     \<and> connections_active (g_metrics g) = 1"
  by (simp add: eval_nat_numeral sample_out_def sample_input_def sample_mux_session_def outbound_resolve_upstream_def
      pick_under_cap_def creation_lock_def lock_def can_grow_def MuxPool_new_def MAX_TUNNELS_PER_PEER_def
      establish_def TlsClient_connect_def finish_handshake_def extract_identity_from_tls_stream_def sample_tunnel_def
      sample_session_def sample_globals_def sample_cert sample_allowed negotiated_alpn_def register_def reserve_def
      unlock_def tunnels_def Let_def metrics_simps InterlinkMetrics_new_def)

text \<open>
  C3. Authorization on the way out: in every reachable state of the outbound proxy, whatever the
  interleaving of its handlers, tunnel drivers and peers, a handler relays client data over a
  multiplexed stream or a dedicated TLS connection only if the policy allows this workload to
  talk to the identity that the peer proved; and no handler ever panics.
\<close>

theorem outbound_data_needs_allow:
  assumes "outbound_reachable p self g s" and "sound_proxy self" and "tls_ok p g"
  shows "(ob_tasks s t = Some (Routed (MuxStream u)) \<longrightarrow>
      evaluate (out_policy self) (out_local_id self) (tun_peer u) = Some Allow)
    \<and> (ob_tasks s t = Some (Routed (Legacy ts)) \<longrightarrow>
      evaluate (out_policy self) (out_local_id self) (ts_peer_identity ts) = Some Allow)
    \<and> ob_tasks s t \<noteq> Some Panicked"
proof -
  have "task_ok self (ob_pool s) pc" if "ob_tasks s t = Some pc" for pc
    using outbound_reachable_inv [OF assms] that by (simp add: outbound_inv_def tasks_ok_def)
  then show ?thesis by (fastforce simp: task_ok_def)
qed

lemma sample_reachable:
  "\<exists>pool g. outbound_reachable sample_pki sample_out sample_globals
      \<lparr>ob_pool = pool, ob_globals = g, ob_tasks = [7 \<mapsto> Routed (MuxStream sample_tunnel)]\<rparr>
    \<and> live pool 0 = 1 \<and> tunnels pool sample_peer = [sample_tunnel]"
proof -
  obtain pool g where "route_run sample_out sample_input 10 (MuxPool_new, sample_globals, Begin (Socket sample_peer)) =
     (pool, g, Routed (MuxStream sample_tunnel))" "live pool 0 = 1" "tunnels pool sample_peer = [sample_tunnel]"
    using sample_routed by blast
  then show ?thesis
    using route_run_new_task [OF outbound_reachable.initial _ sample_input_client, of sample_globals 7 sample_out 10
      "Socket sample_peer"] by (auto simp: outbound_init_def)
qed

theorem outbound_data_needs_allow_witness:
  "evaluate sample_engine sample_id (tun_peer sample_tunnel) = Some Allow"
proof -
  obtain pool g where "outbound_reachable sample_pki sample_out sample_globals
      \<lparr>ob_pool = pool, ob_globals = g, ob_tasks = [7 \<mapsto> Routed (MuxStream sample_tunnel)]\<rparr>"
    using sample_reachable by blast
  from outbound_data_needs_allow [OF this sample_out_sound sample_coherent(2), of 7 sample_tunnel]
  show ?thesis by (simp add: sample_out_def)
qed

text \<open>
  C5. The tunnel pool is bounded: with multiplexing on, no interleaving gives a peer more than 16
  tunnels, and at most one handler at a time is establishing a tunnel to a peer, although the
  pool is read, grown and shrunk by all of them.
\<close>

theorem tunnel_pool_bounded:
  assumes "outbound_reachable p self g s" and "sound_proxy self" and "tls_ok p g" and "out_mux_enabled self"
  shows "length (tunnels (ob_pool s) a) \<le> 16
    \<and> (ob_tasks s t = Some (Establish a guard) \<longrightarrow> ob_tasks s u = Some (Establish a guard') \<longrightarrow> t = u)"
proof -
  note inv = outbound_reachable_inv [OF assms(1-3)]
  note bnd = outbound_reachable_bounded [OF assms]
  have "t = u" if t: "ob_tasks s t = Some (Establish a guard)" and u: "ob_tasks s u = Some (Establish a guard')"
  proof -
    obtain l l' where l: "guard = Some l" "guard' = Some l'"
      using bounded_inv_room [OF bnd t] bounded_inv_room [OF bnd u] by blast
    have "l = l'" using outbound_inv_lock [OF inv t, of a l] outbound_inv_lock [OF inv u, of a l'] l by simp
    then show ?thesis using held_by_one [OF inv t u, of l] l by simp
  qed
  then show ?thesis using bnd by (simp add: bounded_inv_def MAX_TUNNELS_PER_PEER_def)
qed

theorem tunnel_pool_bounded_witness:
  "\<exists>s. outbound_reachable sample_pki sample_out sample_globals s
     \<and> tunnels (ob_pool s) sample_peer = [sample_tunnel] \<and> length (tunnels (ob_pool s) sample_peer) \<le> 16"
proof -
  obtain pool g where s: "outbound_reachable sample_pki sample_out sample_globals
      \<lparr>ob_pool = pool, ob_globals = g, ob_tasks = [7 \<mapsto> Routed (MuxStream sample_tunnel)]\<rparr>"
    and "tunnels pool sample_peer = [sample_tunnel]" using sample_reachable by blast
  moreover have "out_mux_enabled sample_out" by (simp add: sample_out_def)
  from tunnel_pool_bounded [OF s sample_out_sound sample_coherent(2) this]
  have "length (tunnels pool sample_peer) \<le> 16" by simp
  ultimately show ?thesis by (intro exI [of _ "\<lparr>ob_pool = pool, ob_globals = g, ob_tasks = [7 \<mapsto> Routed (MuxStream sample_tunnel)]\<rparr>"]) simp
qed

text \<open>
  C9. Accounting: in every reachable state the live counter of a tunnel is exactly the number of
  handlers that hold or await one of its streams (so dropping a guard never underflows it), a
  creation lock is held exactly when one handler is in its critical section, and the gauge of
  active connections has risen by exactly the number of handlers that started and have not
  finished.
\<close>

theorem stream_accounting:
  assumes "outbound_reachable p self g s" and "sound_proxy self" and "tls_ok p g"
  shows "live (ob_pool s) tid = count_tasks (slot tid) (ob_tasks s)
    \<and> count_tasks (holds_lock l) (ob_tasks s) = (if lock_held (ob_pool s) l then 1 else 0)
    \<and> connections_active (g_metrics (ob_globals s)) =
        connections_active (g_metrics g) + int (count_tasks in_progress (ob_tasks s))"
  using outbound_reachable_inv [OF assms] by (simp add: outbound_inv_def counted_def)

theorem stream_accounting_witness:
  "count_tasks (slot 0) [7 \<mapsto> Routed (MuxStream sample_tunnel)] = 1"
proof -
  obtain pool g where s: "outbound_reachable sample_pki sample_out sample_globals
      \<lparr>ob_pool = pool, ob_globals = g, ob_tasks = [7 \<mapsto> Routed (MuxStream sample_tunnel)]\<rparr>" "live pool 0 = 1"
    using sample_reachable by blast
  from stream_accounting [OF s(1) sample_out_sound sample_coherent(2), of 0] s(2) show ?thesis by simp
qed

text \<open>
  C11. Liveness: the handlers never deadlock. In every reachable state where some handler is
  unfinished, some handler can take its next step whatever the answers it gets, and no handler
  takes more than 33 steps of its own, because each of them lowers its rank.
\<close>

theorem outbound_progress:
  assumes "outbound_reachable p self g s" and "sound_proxy self" and "tls_ok p g"
    and "ob_tasks s t = Some pc" and "pc \<noteq> Finished"
  shows "(\<exists>u pd. ob_tasks s u = Some pd \<and> (\<forall>inp. route_step self inp (ob_pool s) (ob_globals s) pd \<noteq> None))
    \<and> route_rank (Begin target) = 33
    \<and> (route_step self inp pool h pc = Some (pool', h', pc') \<longrightarrow> route_rank pc' < route_rank pc)"
proof -
  note inv = outbound_reachable_inv [OF assms(1-3)]
  have "pc \<noteq> Panicked" using inv assms(4) by (auto simp: outbound_inv_def tasks_ok_def task_ok_def)
  have "\<exists>u pd. ob_tasks s u = Some pd \<and> (\<forall>inp. route_step self inp (ob_pool s) (ob_globals s) pd \<noteq> None)"
  proof (cases "\<exists>a k l. pc = AwaitLock a k l \<and> lock_held (ob_pool s) l")
    case True
    then obtain l u pd where u: "ob_tasks s u = Some pd" "holds_lock l pd" using lock_has_holder [OF inv] by blast
    from u(2) have "\<forall>inp. route_step self inp (ob_pool s) (ob_globals s) pd \<noteq> None"
      unfolding route_step_blocked by (cases pd) simp_all
    with u(1) show ?thesis by blast
  next
    case False
    then have "\<forall>inp. route_step self inp (ob_pool s) (ob_globals s) pc \<noteq> None"
      using assms(5) \<open>pc \<noteq> Panicked\<close> by (simp add: route_step_blocked)
    with assms(4) show ?thesis by blast
  qed
  then show ?thesis using route_step_rank by auto
qed

theorem outbound_progress_witness:
  "\<exists>s u pd. outbound_reachable sample_pki sample_out sample_globals s \<and> ob_tasks s u = Some pd
     \<and> (\<forall>inp. route_step sample_out inp (ob_pool s) (ob_globals s) pd \<noteq> None)"
proof -
  obtain pool g where s: "outbound_reachable sample_pki sample_out sample_globals
      \<lparr>ob_pool = pool, ob_globals = g, ob_tasks = [7 \<mapsto> Routed (MuxStream sample_tunnel)]\<rparr>"
    (is "outbound_reachable _ _ _ ?s") using sample_reachable by blast
  have "ob_tasks ?s 7 = Some (Routed (MuxStream sample_tunnel))" by simp
  from outbound_progress [OF s sample_out_sound sample_coherent(2) this] s show ?thesis by blast
qed

text \<open>
  Termination: a new connection handled while no creation lock is held by another handler is
  served to its end within 33 steps, whatever the resolver, the TLS client, the tunnel driver and
  the relay answer; the retry loop cannot spin.
\<close>

lemma handler_finishes_alone:
  assumes "outbound_reachable p self g s" and "sound_proxy self" and "tls_ok p g" and "client_input p inp"
    and "\<forall>l. \<not> lock_held (ob_pool s) l"
  shows "\<exists>pool h. route_run self inp 33 (ob_pool s, ob_globals s, Begin target) = (pool, h, Finished)"
proof -
  note inv = outbound_reachable_inv [OF assms(1-3)]
  have fin: "finite (dom (ob_tasks s))" using inv by (simp add: outbound_inv_def)
  obtain t where t: "ob_tasks s t = None" using ex_new_if_finite [OF infinite_UNIV_nat fin] by blast
  let ?s = "s\<lparr>ob_tasks := (ob_tasks s)(t \<mapsto> Begin target)\<rparr>"
  have "outbound_inv p self g ?s" by (rule outbound_inv_step [OF outbound_step.arrive [OF t] assms(2) inv])
  moreover have "\<not> holds_lock l pd" if "ob_tasks s u = Some pd" for u pd l
    using count_tasks_pos [OF fin that, of "holds_lock l"] inv assms(5)
    by (auto simp: outbound_inv_def counted_def)
  ultimately show ?thesis
    using route_run_finishes [of p self g ?s inp t "Begin target" 33] assms(2,4) by (simp split: if_splits)
qed

text \<open>
  The accept path of the outbound proxy: the original destination wins unless it is this
  proxy's own listening port, which would loop; then the default upstream; with neither the
  connection is dropped. A handler is spawned exactly when a permit is free, otherwise one
  rejection is counted, and the limit on active connections is kept.
\<close>

lemma outbound_accept_outcome:
  assumes "gate_inv n (out_gate self)" and "outbound_handle_accept self dst m = (self', m', out)"
  shows "gate_inv n (out_gate self') \<and> active_connections (out_gate self') \<le> n
    \<and> (out = OutNoUpstream \<longleftrightarrow> out_default_upstream self = None
         \<and> (\<forall>sa. dst = Some sa \<longrightarrow> addr_port sa = out_listen_port self))
    \<and> (out = OutSaturated \<longrightarrow> active_connections (out_gate self) = n
         \<and> saturation_rejections_total m' = saturation_rejections_total m + 1)
    \<and> (\<forall>u. out = OutSpawned u \<longrightarrow> m' = m
         \<and> active_connections (out_gate self') = active_connections (out_gate self) + 1
         \<and> gate_inv n (out_gate (outbound_finish self'))
         \<and> (case dst of
              Some sa \<Rightarrow> if addr_port sa = out_listen_port self then out_default_upstream self = Some u else u = Socket sa
            | None \<Rightarrow> out_default_upstream self = Some u))"
  using assms gate_inv_admit [OF assms(1)] admit_refuses_iff [OF assms(1)] gate_inv_finish
  by (auto simp: outbound_handle_accept_def outbound_choose_upstream_def outbound_finish_def gate_inv_def admit_def
      finish_connection_def record_saturation_rejection_def split: option.splits if_splits)

end
