(* ===== verification/Proxy_Run.thy ===== *)
theory Proxy_Run
  imports Outbound
begin

text \<open>
  \<open>run\<close> of the inbound and of the outbound proxy, which is the same code over two types: after
  binding, acceptor tasks accept connections and spawn handlers until the shutdown channel tells
  them to stop; when all of them have stopped, \<open>run\<close> waits for the active handlers. Here a handler
  is one of \<open>sv_handlers\<close> tasks that finishes at some time; what it does in between is in
  \<open>Inbound\<close> and \<open>Outbound\<close>. The relation is parameterised by the proxy's \<open>handle_accept\<close>, by what
  the spawned task does at its end, and by which outcomes of an accept are spawned handlers.
\<close>

record 'p server =
  sv_proxy :: 'p
  sv_metrics :: InterlinkMetrics
  sv_acceptors :: "nat set"
  sv_handlers :: nat
  sv_shutdown :: "bool option"
  sv_sender_gone :: bool

text \<open>
  The drain at the end of \<open>run\<close>, a function of each proxy: \<open>at i\<close> is the proxy as the \<open>i\<close>-th turn of
  the loop finds it.
\<close>

definition tcp_wait_for_graceful_shutdown :: "(nat \<Rightarrow> TcpProxy) \<Rightarrow> nat \<Rightarrow> (nat \<Rightarrow> nat) \<Rightarrow> nat \<Rightarrow> (drain_outcome \<times> nat) option" where
  "tcp_wait_for_graceful_shutdown at start now fuel = wait_for_graceful_shutdown (\<lambda>i. active_connections (in_gate (at i))) start now fuel"

definition outbound_wait_for_graceful_shutdown ::
  "(nat \<Rightarrow> OutboundProxy) \<Rightarrow> nat \<Rightarrow> (nat \<Rightarrow> nat) \<Rightarrow> nat \<Rightarrow> (drain_outcome \<times> nat) option" where
  "outbound_wait_for_graceful_shutdown at start now fuel = wait_for_graceful_shutdown (\<lambda>i. active_connections (out_gate (at i))) start now fuel"

text \<open>
  The shutdown channel as a fresh \<open>wait_shutdown\<close> finds it: its present value, and the end of the
  channel once the sender is gone.
\<close>

definition stop_seen :: "'p server \<Rightarrow> bool" where
  "stop_seen s \<longleftrightarrow> wait_shutdown (sv_shutdown s) (if sv_sender_gone s then [SenderDropped] else []) \<noteq> None"

inductive run_step ::
  "('p \<Rightarrow> SocketAddr option \<Rightarrow> InterlinkMetrics \<Rightarrow> 'p \<times> InterlinkMetrics \<times> 'o) \<Rightarrow> ('o \<Rightarrow> bool) \<Rightarrow> ('p \<Rightarrow> 'p)
     \<Rightarrow> 'p server \<Rightarrow> 'p server \<Rightarrow> bool"
  for handle_accept :: "'p \<Rightarrow> SocketAddr option \<Rightarrow> InterlinkMetrics \<Rightarrow> 'p \<times> InterlinkMetrics \<times> 'o"
    and spawns :: "'o \<Rightarrow> bool" and finish :: "'p \<Rightarrow> 'p" where
  accept: "i \<in> sv_acceptors s \<Longrightarrow> handle_accept (sv_proxy s) dst (sv_metrics s) = (proxy, m, out) \<Longrightarrow>
    run_step handle_accept spawns finish s
      (s\<lparr>sv_proxy := proxy, sv_metrics := m, sv_handlers := sv_handlers s + (if spawns out then 1 else 0)\<rparr>)"
| accept_error: "i \<in> sv_acceptors s \<Longrightarrow> run_step handle_accept spawns finish s s"
| acceptor_stops: "i \<in> sv_acceptors s \<Longrightarrow> stop_seen s \<Longrightarrow>
    run_step handle_accept spawns finish s (s\<lparr>sv_acceptors := sv_acceptors s - {i}\<rparr>)"
| handler_ends: "0 < sv_handlers s \<Longrightarrow>
    run_step handle_accept spawns finish s (s\<lparr>sv_proxy := finish (sv_proxy s), sv_handlers := sv_handlers s - 1\<rparr>)"
| handlers_record: "run_step handle_accept spawns finish s (s\<lparr>sv_metrics := m\<rparr>)"
| shutdown_sent: "sv_shutdown s = Some b \<Longrightarrow> \<not> sv_sender_gone s \<Longrightarrow>
    run_step handle_accept spawns finish s (s\<lparr>sv_shutdown := Some True\<rparr>)"
| sender_dropped: "run_step handle_accept spawns finish s (s\<lparr>sv_sender_gone := True\<rparr>)"

definition run_init :: "'p \<Rightarrow> bool option \<Rightarrow> InterlinkMetrics \<Rightarrow> nat \<Rightarrow> 'p server" where
  "run_init proxy shutdown m acceptors =
     \<lparr>sv_proxy = proxy, sv_metrics = m, sv_acceptors = {0..<acceptors}, sv_handlers = 0,
      sv_shutdown = shutdown, sv_sender_gone = False\<rparr>"

abbreviation tcp_spawns :: "accept_outcome \<Rightarrow> bool" where
  "tcp_spawns out \<equiv> (case out of Spawned _ \<Rightarrow> True | _ \<Rightarrow> False)"

abbreviation outbound_spawns :: "outbound_accept \<Rightarrow> bool" where
  "outbound_spawns out \<equiv> (case out of OutSpawned _ \<Rightarrow> True | _ \<Rightarrow> False)"

text \<open>
  \<open>run\<close> of either proxy, as the set of states it can be in: none when the proxy is disabled or
  nothing could be bound, otherwise what its acceptors and handlers can reach.
\<close>

inductive tcp_run ::
  "TcpProxy \<Rightarrow> nat \<Rightarrow> (nat \<Rightarrow> SocketAddr \<Rightarrow> (IoError, unit) result) \<Rightarrow> TcpProxy server \<Rightarrow> bool"
  for self :: TcpProxy and acceptors :: nat and binds :: "nat \<Rightarrow> SocketAddr \<Rightarrow> (IoError, unit) result" where
  bound: "tcp_start self acceptors binds = Some k \<Longrightarrow> tcp_run self acceptors binds (run_init self (in_shutdown self) m k)"
| goes_on: "tcp_run self acceptors binds s \<Longrightarrow> run_step tcp_handle_accept tcp_spawns tcp_finish s s' \<Longrightarrow>
    tcp_run self acceptors binds s'"

inductive outbound_run ::
  "OutboundProxy \<Rightarrow> nat \<Rightarrow> (nat \<Rightarrow> SocketAddr \<Rightarrow> (IoError, unit) result) \<Rightarrow> OutboundProxy server \<Rightarrow> bool"
  for self :: OutboundProxy and acceptors :: nat and binds :: "nat \<Rightarrow> SocketAddr \<Rightarrow> (IoError, unit) result" where
  bound: "outbound_start self acceptors binds = Some k \<Longrightarrow>
    outbound_run self acceptors binds (run_init self (out_shutdown self) m k)"
| goes_on: "outbound_run self acceptors binds s \<Longrightarrow>
    run_step outbound_handle_accept outbound_spawns outbound_finish s s' \<Longrightarrow> outbound_run self acceptors binds s'"

lemma stop_seen_iff: "stop_seen s \<longleftrightarrow> (case sv_shutdown s of Some b \<Rightarrow> b \<or> sv_sender_gone s | None \<Rightarrow> False)"
  unfolding stop_seen_def wait_shutdown_resolves_iff by (cases "sv_shutdown s") simp_all

subsection \<open>What a proxy promises its \<open>run\<close>\<close>

text \<open>
  An accept either leaves the gate alone or admits one connection, and tells which by its outcome;
  the end of a handler gives the permit back.
\<close>

locale accepting =
  fixes handle_accept :: "'p \<Rightarrow> SocketAddr option \<Rightarrow> InterlinkMetrics \<Rightarrow> 'p \<times> InterlinkMetrics \<times> 'o"
    and spawns :: "'o \<Rightarrow> bool" and finish :: "'p \<Rightarrow> 'p" and gate_of :: "'p \<Rightarrow> gate"
  assumes accept_gate: "handle_accept p dst m = (p', m', out) \<Longrightarrow>
      (if spawns out then admit (gate_of p) = Some (gate_of p') else gate_of p' = gate_of p)"
    and finish_gate: "gate_of (finish p) = finish_connection (gate_of p)"
begin

definition serving :: "nat \<Rightarrow> 'p server \<Rightarrow> bool" where
  "serving n s \<longleftrightarrow> finite (sv_acceptors s) \<and> gate_inv n (gate_of (sv_proxy s))
     \<and> active_connections (gate_of (sv_proxy s)) = sv_handlers s"

lemma serving_init: "gate_of p = gate_new n \<Longrightarrow> serving n (run_init p sh m k)"
  by (simp add: serving_def run_init_def gate_new_def gate_inv_def)

lemma serving_step:
  assumes "run_step handle_accept spawns finish s s'" and "serving n s"
  shows "serving n s'"
  using assms
proof cases
  case (accept i dst proxy m out)
  note g = accept_gate [OF accept(3)]
  show ?thesis
  proof (cases "spawns out")
    case True
    then have a: "admit (gate_of (sv_proxy s)) = Some (gate_of proxy)" using g by simp
    then have "active_connections (gate_of proxy) = active_connections (gate_of (sv_proxy s)) + 1"
      by (auto simp: admit_def split: if_splits dest: sym)
    then show ?thesis using assms(2) accept(1) True gate_inv_admit [OF _ a] by (simp add: serving_def)
  next
    case False
    then show ?thesis using assms(2) accept(1) g by (simp add: serving_def)
  qed
next
  case handler_ends
  then show ?thesis
    using assms(2) gate_inv_finish by (auto simp: serving_def finish_gate finish_connection_def gate_inv_def)
qed (simp_all add: serving_def)

text \<open>Once the stop is visible it stays visible, and stopped acceptors stay stopped.\<close>

lemma stop_stays: "run_step handle_accept spawns finish s s' \<Longrightarrow> stop_seen s \<Longrightarrow> stop_seen s'"
  by (erule run_step.cases) (auto simp: stop_seen_iff split: option.splits)

lemma acceptors_shrink: "run_step handle_accept spawns finish s s' \<Longrightarrow> sv_acceptors s' \<subseteq> sv_acceptors s"
  by (erule run_step.cases) auto

lemma no_new_handlers:
  "run_step handle_accept spawns finish s s' \<Longrightarrow> sv_acceptors s = {} \<Longrightarrow> sv_handlers s' \<le> sv_handlers s"
  by (erule run_step.cases) auto

text \<open>From a state that sees the stop, stopping the acceptors and ending the handlers leads to rest.\<close>

lemma stop_acceptors:
  assumes "finite (sv_acceptors s)" and "stop_seen s"
  shows "(run_step handle_accept spawns finish)\<^sup>*\<^sup>* s (s\<lparr>sv_acceptors := {}\<rparr>)"
  using assms
proof (induction "sv_acceptors s" arbitrary: s rule: finite_induct)
  case empty
  then have "s\<lparr>sv_acceptors := {}\<rparr> = s" by (cases s) simp
  then show ?case by simp
next
  case (insert i A)
  let ?t = "s\<lparr>sv_acceptors := sv_acceptors s - {i}\<rparr>"
  have "run_step handle_accept spawns finish s ?t"
    using insert by (intro run_step.acceptor_stops) auto
  moreover have "A = sv_acceptors ?t" "stop_seen ?t" using insert by (auto simp: stop_seen_def)
  then have "(run_step handle_accept spawns finish)\<^sup>*\<^sup>* ?t (s\<lparr>sv_acceptors := {}\<rparr>)" using insert(3) [of ?t] by simp
  ultimately show ?case by (rule converse_rtranclp_into_rtranclp)
qed

lemma end_handlers:
  "\<exists>p. (run_step handle_accept spawns finish)\<^sup>*\<^sup>* s (s\<lparr>sv_proxy := p, sv_handlers := 0\<rparr>)"
proof (induction "sv_handlers s" arbitrary: s)
  case 0
  then have "s\<lparr>sv_proxy := sv_proxy s, sv_handlers := 0\<rparr> = s" by (cases s) simp
  then show ?case by (intro exI [of _ "sv_proxy s"]) simp
next
  case (Suc k)
  let ?t = "s\<lparr>sv_proxy := finish (sv_proxy s), sv_handlers := sv_handlers s - 1\<rparr>"
  have step: "run_step handle_accept spawns finish s ?t" using Suc.hyps(2) by (intro run_step.handler_ends) simp
  have "k = sv_handlers ?t" using Suc.hyps(2) by simp
  from Suc.hyps(1) [OF this] obtain p where
    "(run_step handle_accept spawns finish)\<^sup>*\<^sup>* ?t (s\<lparr>sv_proxy := p, sv_handlers := 0\<rparr>)" by auto
  with step have "(run_step handle_accept spawns finish)\<^sup>*\<^sup>* s (s\<lparr>sv_proxy := p, sv_handlers := 0\<rparr>)"
    by (rule converse_rtranclp_into_rtranclp)
  then show ?case ..
qed

lemma comes_to_rest:
  assumes "serving n s" and "stop_seen s"
  shows "\<exists>t. (run_step handle_accept spawns finish)\<^sup>*\<^sup>* s t \<and> sv_acceptors t = {} \<and> sv_handlers t = 0"
proof -
  have "(run_step handle_accept spawns finish)\<^sup>*\<^sup>* s (s\<lparr>sv_acceptors := {}\<rparr>)"
    using assms by (simp add: stop_acceptors serving_def)
  moreover obtain p where "(run_step handle_accept spawns finish)\<^sup>*\<^sup>* (s\<lparr>sv_acceptors := {}\<rparr>)
      (s\<lparr>sv_acceptors := {}, sv_proxy := p, sv_handlers := 0\<rparr>)"
    using end_handlers [of "s\<lparr>sv_acceptors := {}\<rparr>"] by auto
  ultimately have "(run_step handle_accept spawns finish)\<^sup>*\<^sup>* s (s\<lparr>sv_acceptors := {}, sv_proxy := p, sv_handlers := 0\<rparr>)"
    by (rule rtranclp_trans)
  then show ?thesis by (intro exI conjI) (assumption, simp_all)
qed

lemma drains:
  assumes "serving n s" and "stop_seen s"
  shows "\<exists>t. (run_step handle_accept spawns finish)\<^sup>*\<^sup>* s t \<and> sv_acceptors t = {}
    \<and> wait_for_graceful_shutdown (\<lambda>_. active_connections (gate_of (sv_proxy t))) start now 1 = Some (Drained, 0)"
proof -
  obtain t where t: "(run_step handle_accept spawns finish)\<^sup>*\<^sup>* s t" "sv_acceptors t = {}" "sv_handlers t = 0"
    using comes_to_rest [OF assms] by blast
  from t(1) assms(1) have "serving n t" by induction (auto intro: serving_step)
  then have "active_connections (gate_of (sv_proxy t)) = 0" using t(3) by (simp add: serving_def)
  then show ?thesis using t by (auto simp: wait_for_graceful_shutdown_def)
qed

lemma stays_at_rest:
  assumes "(run_step handle_accept spawns finish)\<^sup>*\<^sup>* s t" and "serving n s" and "sv_acceptors s = {}"
  shows "sv_acceptors t = {} \<and> active_connections (gate_of (sv_proxy t)) \<le> active_connections (gate_of (sv_proxy s))"
proof -
  from assms(1) have "serving n t \<and> sv_acceptors t = {} \<and> sv_handlers t \<le> sv_handlers s"
  proof induction
    case (step t u)
    then show ?case using serving_step [of t u n] acceptors_shrink [of t u] no_new_handlers [of t u] by force
  qed (use assms in simp)
  then show ?thesis using assms(2) by (simp add: serving_def)
qed

lemma within_limit:
  assumes "serving n s"
  shows "active_connections (gate_of (sv_proxy s)) = sv_handlers s \<and> sv_handlers s \<le> n
    \<and> (admit (gate_of (sv_proxy s)) = None \<longleftrightarrow> sv_handlers s = n)"
  using assms admit_refuses_iff [of n "gate_of (sv_proxy s)"] by (auto simp: serving_def gate_inv_def)

end

interpretation inbound_server: accepting tcp_handle_accept tcp_spawns tcp_finish in_gate
  by unfold_locales (auto simp: tcp_handle_accept_def tcp_finish_def split: option.splits)

interpretation outbound_server: accepting outbound_handle_accept outbound_spawns outbound_finish out_gate
  by unfold_locales (auto simp: outbound_handle_accept_def outbound_finish_def split: option.splits)

lemma tcp_run_serving: "tcp_run self acceptors binds s \<Longrightarrow> in_gate self = gate_new n \<Longrightarrow> inbound_server.serving n s"
  by (induction rule: tcp_run.induct) (auto intro: inbound_server.serving_init inbound_server.serving_step)

lemma outbound_run_serving:
  "outbound_run self acceptors binds s \<Longrightarrow> out_gate self = gate_new n \<Longrightarrow> outbound_server.serving n s"
  by (induction rule: outbound_run.induct) (auto intro: outbound_server.serving_init outbound_server.serving_step)

lemma tcp_saturated_iff: "snd (snd (tcp_handle_accept p (Some dst) m)) = Saturated \<longleftrightarrow> admit (in_gate p) = None"
  by (auto simp: tcp_handle_accept_def tcp_choose_upstream_def split: option.splits)

lemma outbound_saturated_iff:
  "addr_port dst \<noteq> out_listen_port p \<Longrightarrow>
     snd (snd (outbound_handle_accept p (Some dst) m)) = OutSaturated \<longleftrightarrow> admit (out_gate p) = None"
  by (auto simp: outbound_handle_accept_def outbound_choose_upstream_def split: option.splits)

subsection \<open>Properties\<close>

text \<open>
  C36. The connection limit holds while a proxy runs: whatever its acceptors, handlers and the shutdown
  do, the counter of active connections is the number of running handlers, never above the
  limit, and a connection whose original destination is known is refused exactly when the limit
  is reached.
\<close>

theorem run_keeps_limit:
  "(tcp_run self acceptors binds s \<longrightarrow> in_gate self = gate_new n \<longrightarrow>
      active_connections (in_gate (sv_proxy s)) = sv_handlers s \<and> sv_handlers s \<le> n
      \<and> (snd (snd (tcp_handle_accept (sv_proxy s) (Some dst) m)) = Saturated \<longleftrightarrow> sv_handlers s = n))
   \<and> (outbound_run oself acceptors binds os \<longrightarrow> out_gate oself = gate_new n \<longrightarrow>
      active_connections (out_gate (sv_proxy os)) = sv_handlers os \<and> sv_handlers os \<le> n
      \<and> (addr_port dst \<noteq> out_listen_port (sv_proxy os) \<longrightarrow>
         (snd (snd (outbound_handle_accept (sv_proxy os) (Some dst) m)) = OutSaturated \<longleftrightarrow> sv_handlers os = n)))"
proof (intro conjI impI, goal_cases)
  case 1
  with inbound_server.within_limit [OF tcp_run_serving] show ?case by blast
next
  case 2
  with inbound_server.within_limit [OF tcp_run_serving] show ?case by blast
next
  case 3
  from inbound_server.within_limit [OF tcp_run_serving [OF 3]] show ?case by (simp add: tcp_saturated_iff)
next
  case 4
  with outbound_server.within_limit [OF outbound_run_serving] show ?case by blast
next
  case 5
  with outbound_server.within_limit [OF outbound_run_serving] show ?case by blast
next
  case 6
  from outbound_server.within_limit [OF outbound_run_serving [OF 6(1,2)]] 6(3) show ?case by (simp add: outbound_saturated_iff)
qed

text \<open>
  C37. A running proxy can be shut down: from every state that sees the stop, its acceptors can stop and
  its handlers end, and then the wait for them returns at once; and when the acceptors have
  stopped they stay stopped, and the number of active connections only falls.
\<close>

theorem run_shutdown_drains:
  assumes "tcp_run self acceptors binds s" and "in_gate self = gate_new n" and "stop_seen s"
    and "outbound_run oself acceptors binds os" and "out_gate oself = gate_new n" and "stop_seen os"
  shows "(\<exists>t. (run_step tcp_handle_accept tcp_spawns tcp_finish)\<^sup>*\<^sup>* s t \<and> sv_acceptors t = {}
      \<and> tcp_wait_for_graceful_shutdown (\<lambda>_. sv_proxy t) start now 1 = Some (Drained, 0))
    \<and> (sv_acceptors s = {} \<longrightarrow> (run_step tcp_handle_accept tcp_spawns tcp_finish)\<^sup>*\<^sup>* s u \<longrightarrow>
         sv_acceptors u = {} \<and> active_connections (in_gate (sv_proxy u)) \<le> active_connections (in_gate (sv_proxy s)))
    \<and> (\<exists>t. (run_step outbound_handle_accept outbound_spawns outbound_finish)\<^sup>*\<^sup>* os t \<and> sv_acceptors t = {}
      \<and> outbound_wait_for_graceful_shutdown (\<lambda>_. sv_proxy t) start now 1 = Some (Drained, 0))
    \<and> (sv_acceptors os = {} \<longrightarrow> (run_step outbound_handle_accept outbound_spawns outbound_finish)\<^sup>*\<^sup>* os v \<longrightarrow>
         sv_acceptors v = {} \<and> active_connections (out_gate (sv_proxy v)) \<le> active_connections (out_gate (sv_proxy os)))"
proof -
  note i = tcp_run_serving [OF assms(1,2)] and o = outbound_run_serving [OF assms(4,5)]
  show ?thesis
    unfolding tcp_wait_for_graceful_shutdown_def outbound_wait_for_graceful_shutdown_def
    using inbound_server.drains [OF i assms(3), of start now] inbound_server.stays_at_rest [OF _ i, of u]
      outbound_server.drains [OF o assms(6), of start now] outbound_server.stays_at_rest [OF _ o, of v] by blast
qed

subsection \<open>Examples\<close>

abbreviation all_bind :: "nat \<Rightarrow> SocketAddr \<Rightarrow> (IoError, unit) result" where
  "all_bind \<equiv> \<lambda>_ _. Inr ()"

lemma sample_start: "tcp_start (sample_proxy\<lparr>in_shutdown := sh\<rparr>) 1 all_bind = Some 1"
  "outbound_start (sample_out\<lparr>out_shutdown := sh\<rparr>) 1 all_bind = Some 1"
  by (simp_all add: tcp_start_def outbound_start_def sample_proxy_def sample_out_def is_ok_iff)

lemma sample_gates: "in_gate (sample_proxy\<lparr>in_shutdown := sh\<rparr>) = gate_new 1" "out_gate (sample_out\<lparr>out_shutdown := sh\<rparr>) = gate_new 1"
  by (simp_all add: sample_proxy_def sample_out_def)

theorem run_keeps_limit_witness:
  "\<exists>s. tcp_run (sample_proxy\<lparr>in_shutdown := None\<rparr>) 1 all_bind s \<and> sv_handlers s = 1
     \<and> snd (snd (tcp_handle_accept (sv_proxy s) (Some sample_peer) InterlinkMetrics_new)) = Saturated"
proof -
  let ?p = "sample_proxy\<lparr>in_shutdown := None\<rparr>"
  let ?s = "run_init ?p None InterlinkMetrics_new 1"
  have s: "tcp_run ?p 1 all_bind ?s" using tcp_run.bound [OF sample_start(1), of None InterlinkMetrics_new] by simp
  obtain p' InterlinkMetrics_new' where a: "tcp_handle_accept ?p (Some sample_peer) InterlinkMetrics_new = (p', InterlinkMetrics_new', Spawned (Socket sample_peer))"
    by (simp add: tcp_handle_accept_def tcp_choose_upstream_def sample_proxy_def admit_def gate_new_def)
  let ?t = "?s\<lparr>sv_proxy := p', sv_metrics := InterlinkMetrics_new', sv_handlers := sv_handlers ?s + (if tcp_spawns (Spawned (Socket sample_peer)) then 1 else 0)\<rparr>"
  have "run_step tcp_handle_accept tcp_spawns tcp_finish ?s ?t"
    by (rule run_step.accept [of 0]) (use a in \<open>simp_all add: run_init_def\<close>)
  with s have t: "tcp_run ?p 1 all_bind ?t" by (rule tcp_run.goes_on)
  have h: "sv_handlers ?t = 1" by (simp add: run_init_def)
  with run_keeps_limit [of ?p 1 all_bind ?t 1 sample_peer InterlinkMetrics_new] t sample_gates(1) show ?thesis by blast
qed

theorem run_shutdown_drains_witness:
  "\<exists>s t. tcp_run (sample_proxy\<lparr>in_shutdown := Some True\<rparr>) 1 all_bind s \<and> sv_acceptors s = {0}
     \<and> (run_step tcp_handle_accept tcp_spawns tcp_finish)\<^sup>*\<^sup>* s t \<and> sv_acceptors t = {}"
proof -
  let ?p = "sample_proxy\<lparr>in_shutdown := Some True\<rparr>" and ?o = "sample_out\<lparr>out_shutdown := Some True\<rparr>"
  let ?s = "run_init ?p (Some True) InterlinkMetrics_new 1" and ?q = "run_init ?o (Some True) InterlinkMetrics_new 1"
  have s: "tcp_run ?p 1 all_bind ?s" using tcp_run.bound [OF sample_start(1), of "Some True"] by simp
  have q: "outbound_run ?o 1 all_bind ?q" using outbound_run.bound [OF sample_start(2), of "Some True"] by simp
  have "stop_seen ?s" "stop_seen ?q" by (simp_all add: stop_seen_iff run_init_def)
  from run_shutdown_drains [OF s sample_gates(1) this(1) q sample_gates(2) this(2), of 0 "\<lambda>_. 0"]
  obtain t where t: "(run_step tcp_handle_accept tcp_spawns tcp_finish)\<^sup>*\<^sup>* ?s t" "sv_acceptors t = {}" by blast
  have "sv_acceptors ?s = {0}" by (simp add: run_init_def)
  with s t show ?thesis by blast
qed

end
