(* ===== verification/Mux_Driver.thy ===== *)
theory Mux_Driver
  imports Mux_Pool
begin

text \<open>
  \<open>drive_client\<close> of \<open>src/proxy/mux.rs\<close>: the task that owns a client-mode yamux connection. Each poll
  of its future first serves queued requests to open a stream, then pumps the connection. What
  yamux answers during a poll is a parameter: \<open>outbound_ready\<close> the results \<open>poll_new_outbound\<close> has
  ready, in order (it is pending after them), \<open>inbound_items\<close> what \<open>poll_next_inbound\<close> yields before
  it is pending. \<open>arrivals\<close> are the requests the channel hands out from this poll on: when the runtime's
  cooperative budget makes a receive pending although a request is queued, the request counts as
  arriving with the next poll.
\<close>

datatype inbound_item = PeerStream nat | TunnelError string | TunnelEnd

record driver =
  pending_open :: "nat option"
  open_queue_closed :: bool

record driver_poll =
  arrivals :: "nat list"
  senders_gone :: bool
  gave_up :: "nat \<Rightarrow> bool"
  outbound_ready :: "(string, unit) result list"
  inbound_items :: "inbound_item list"

datatype served = Answered nat "(string, unit) result" | Skipped nat

fun served_request :: "served \<Rightarrow> nat" where
  "served_request (Answered r _) = r"
| "served_request (Skipped r) = r"

text \<open>One turn's receive: a request if none is stashed and the queue is not known to be closed.\<close>

fun take_request :: "bool \<Rightarrow> nat option \<Rightarrow> bool \<Rightarrow> nat list \<Rightarrow> nat option \<times> bool \<times> nat list" where
  "take_request gone None False (r # queue) = (Some r, False, queue)"
| "take_request gone None False [] = (None, gone, [])"
| "take_request gone None True queue = (None, True, queue)"
| "take_request gone (Some r) closed queue = (Some r, closed, queue)"

lemma take_request_shrinks:
  "take_request gone pending closed queue = (Some r, closed', queue') \<Longrightarrow>
     length queue' < length queue + (case pending of None \<Rightarrow> 0 | Some _ \<Rightarrow> 1)"
  by (cases "(gone, pending, closed, queue)" rule: take_request.cases) auto

function serve_opens ::
  "(nat \<Rightarrow> bool) \<Rightarrow> bool \<Rightarrow> nat option \<Rightarrow> bool \<Rightarrow> nat list \<Rightarrow> (string, unit) result list
     \<Rightarrow> driver \<times> nat list \<times> served list" where
  "serve_opens gone_requester gone pending closed queue ready =
     (case take_request gone pending closed queue of
        (None, closed, queue) \<Rightarrow> (\<lparr>pending_open = None, open_queue_closed = closed\<rparr>, queue, [])
      | (Some r, closed, queue) \<Rightarrow>
          if gone_requester r
          then (case serve_opens gone_requester gone None closed queue ready of
                  (st, queue, log) \<Rightarrow> (st, queue, Skipped r # log))
          else (case ready of
                  [] \<Rightarrow> (\<lparr>pending_open = Some r, open_queue_closed = closed\<rparr>, queue, [])
                | res # ready \<Rightarrow>
                    (case serve_opens gone_requester gone None closed queue ready of
                       (st, queue, log) \<Rightarrow> (st, queue, Answered r res # log))))"
  by pat_completeness auto

termination
  by (relation "measure (\<lambda>(_, _, pending, _, queue, _). length queue + (case pending of None \<Rightarrow> 0 | Some _ \<Rightarrow> 1))")
     (auto dest!: take_request_shrinks [OF sym])

declare serve_opens.simps [simp del]

text \<open>Unexpected server-initiated streams are dropped; an error or the end finishes the driver.\<close>

fun pump :: "inbound_item list \<Rightarrow> bool" where
  "pump [] = False"
| "pump (PeerStream _ # items) = pump items"
| "pump (TunnelError _ # items) = True"
| "pump (TunnelEnd # items) = True"

definition drive_poll :: "driver \<Rightarrow> nat list \<Rightarrow> driver_poll \<Rightarrow> driver \<times> nat list \<times> served list \<times> bool" where
  "drive_poll st queue inp =
     (case serve_opens (gave_up inp) (senders_gone inp) (pending_open st) (open_queue_closed st)
             (queue @ arrivals inp) (outbound_ready inp) of
        (st, queue, log) \<Rightarrow> (st, queue, log, pump (inbound_items inp)))"

fun drive_client :: "driver \<Rightarrow> nat list \<Rightarrow> driver_poll list \<Rightarrow> driver \<times> nat list \<times> served list \<times> bool" where
  "drive_client st queue [] = (st, queue, [], False)"
| "drive_client st queue (inp # inps) =
     (case drive_poll st queue inp of
        (st, queue, log, ended) \<Rightarrow>
          if ended then (st, queue, log, True)
          else (case drive_client st queue inps of
                  (st, queue, log', ended) \<Rightarrow> (st, queue, log @ log', ended)))"

definition driver_new :: driver where
  "driver_new = \<lparr>pending_open = None, open_queue_closed = False\<rparr>"

subsection \<open>Serving in order\<close>

definition outstanding :: "driver \<Rightarrow> nat list \<Rightarrow> nat list" where
  "outstanding st queue = (case pending_open st of None \<Rightarrow> [] | Some r \<Rightarrow> [r]) @ queue"

lemma take_request_conserves:
  "take_request gone pending closed queue = (pending', closed', queue') \<Longrightarrow>
     (case pending' of None \<Rightarrow> [] | Some r \<Rightarrow> [r]) @ queue' = (case pending of None \<Rightarrow> [] | Some r \<Rightarrow> [r]) @ queue"
  by (cases "(gone, pending, closed, queue)" rule: take_request.cases) auto

lemma take_request_idle:
  "take_request gone pending closed queue = (None, False, queue') \<Longrightarrow> queue' = []"
  by (cases "(gone, pending, closed, queue)" rule: take_request.cases) auto

definition justified :: "(nat \<Rightarrow> bool) \<Rightarrow> (string, unit) result list \<Rightarrow> served \<Rightarrow> bool" where
  "justified gr ready e = (case e of Answered r res \<Rightarrow> \<not> gr r \<and> res \<in> set ready | Skipped r \<Rightarrow> gr r)"

lemma serve_opens_spec:
  "serve_opens gr gone pending closed queue ready = (st, queue', log) \<Longrightarrow>
     map served_request log @ outstanding st queue' = (case pending of None \<Rightarrow> [] | Some r \<Rightarrow> [r]) @ queue
     \<and> list_all (justified gr ready) log
     \<and> (pending_open st = None \<longrightarrow> \<not> open_queue_closed st \<longrightarrow> queue' = [])"
proof (induction gr gone pending closed queue ready arbitrary: st queue' log rule: serve_opens.induct)
  case (1 gr gone pending closed queue ready)
  obtain pending1 closed1 queue1 where t: "take_request gone pending closed queue = (pending1, closed1, queue1)"
    by (cases "take_request gone pending closed queue")
  note c = take_request_conserves [OF t]
  show ?case
  proof (cases pending1)
    case None
    with 1(3) t c show ?thesis
      by (auto simp: serve_opens.simps [of gr gone pending] outstanding_def dest: take_request_idle)
  next
    case (Some r)
    show ?thesis
    proof (cases "gr r")
      case True
      with 1(3) t Some obtain log' where l: "serve_opens gr gone None closed1 queue1 ready = (st, queue', log')"
        "log = Skipped r # log'" by (auto simp: serve_opens.simps [of gr gone pending] split: prod.splits)
      from 1(1) [OF t [symmetric] Some refl True l(1)] Some c l(2) show ?thesis
        by (auto simp: justified_def list_all_iff True split: served.splits)
    next
      case False
      show ?thesis
      proof (cases ready)
        case Nil
        with 1(3) t Some False c show ?thesis by (auto simp: serve_opens.simps [of gr gone pending] outstanding_def)
      next
        case (Cons res rest)
        with 1(3) t Some False obtain log' where l: "serve_opens gr gone None closed1 queue1 rest = (st, queue', log')"
          "log = Answered r res # log'" by (auto simp: serve_opens.simps [of gr gone pending] split: prod.splits)
        from 1(2) [OF t [symmetric] Some refl False Cons l(1)] Some c l(2) False Cons show ?thesis
          by (auto simp: justified_def list_all_iff split: served.splits)
      qed
    qed
  qed
qed

subsection \<open>Properties\<close>

lemma drive_poll_spec:
  assumes "drive_poll st queue inp = (st', queue', log, ended)"
  shows "map served_request log @ outstanding st' queue' = outstanding st queue @ arrivals inp"
    and "list_all (justified (gave_up inp) (outbound_ready inp)) log"
    and "pending_open st' = None \<longrightarrow> \<not> open_queue_closed st' \<longrightarrow> queue' = []"
  using assms serve_opens_spec [of "gave_up inp" "senders_gone inp" "pending_open st" "open_queue_closed st"
      "queue @ arrivals inp" "outbound_ready inp" st' queue' log]
  by (auto simp: drive_poll_def outstanding_def split: prod.splits)

text \<open>
  C26. The tunnel driver serves requests to open a stream first come, first served, and loses none:
  over any sequence of polls, the requests it answered or skipped, followed by the stashed one and
  those still queued, are exactly the requests sent so far in the order they were sent; it answers
  only with what yamux returned while the requester was still waiting, and skips only requests
  whose requester had given up.
\<close>

theorem driver_serves_in_order:
  assumes "drive_client driver_new [] inps = (st, queue, log, ended)"
  shows "\<exists>k \<le> length inps. map served_request log @ outstanding st queue = concat (map arrivals (take k inps))
    \<and> (\<not> ended \<longrightarrow> k = length inps)
    \<and> (\<forall>e \<in> set log. \<exists>inp \<in> set (take k inps). justified (gave_up inp) (outbound_ready inp) e)"
proof -
  have "\<exists>k \<le> length inps. map served_request log @ outstanding st' queue' = outstanding st queue @ concat (map arrivals (take k inps))
    \<and> (\<not> ended \<longrightarrow> k = length inps)
    \<and> (\<forall>e \<in> set log. \<exists>inp \<in> set (take k inps). justified (gave_up inp) (outbound_ready inp) e)"
    if "drive_client st queue inps = (st', queue', log, ended)" for st queue st' queue' log ended
    using that
  proof (induction inps arbitrary: st queue log)
    case (Cons inp inps)
    obtain st1 queue1 log1 ended1 where poll: "drive_poll st queue inp = (st1, queue1, log1, ended1)"
      by (metis prod_cases4)
    note one = drive_poll_spec [OF poll]
    show ?case
    proof (cases ended1)
      case True
      with Cons.prems poll one show ?thesis by (intro exI [of _ 1]) (auto simp: list_all_iff)
    next
      case False
      with Cons.prems poll obtain log2 where rest: "drive_client st1 queue1 inps = (st', queue', log2, ended)"
        and log: "log = log1 @ log2" by (auto split: prod.splits)
      from Cons.IH [OF rest] obtain k where "k \<le> length inps"
        "map served_request log2 @ outstanding st' queue' = outstanding st1 queue1 @ concat (map arrivals (take k inps))"
        "\<not> ended \<longrightarrow> k = length inps"
        "\<forall>e \<in> set log2. \<exists>inp \<in> set (take k inps). justified (gave_up inp) (outbound_ready inp) e" by blast
      with one log show ?thesis by (intro exI [of _ "Suc k"]) (auto simp: list_all_iff)
    qed
  qed simp
  from this [OF assms] show ?thesis by (simp add: outstanding_def driver_new_def)
qed

definition sample_polls :: "driver_poll list" where
  "sample_polls =
     [\<lparr>arrivals = [1, 2, 3], senders_gone = False, gave_up = (\<lambda>r. r = 2), outbound_ready = [Inr ()], inbound_items = [PeerStream 9]\<rparr>,
      \<lparr>arrivals = [4], senders_gone = True, gave_up = (\<lambda>_. False), outbound_ready = [Inl ''full'', Inr ()], inbound_items = [TunnelEnd]\<rparr>]"

theorem driver_serves_in_order_witness:
  "\<exists>st queue. drive_client driver_new [] sample_polls =
     (st, queue, [Answered 1 (Inr ()), Skipped 2, Answered 3 (Inl ''full''), Answered 4 (Inr ())], True)
   \<and> outstanding st queue = []"
proof -
  have run: "\<exists>st queue. drive_client driver_new [] sample_polls =
     (st, queue, [Answered 1 (Inr ()), Skipped 2, Answered 3 (Inl ''full''), Answered 4 (Inr ())], True)"
    by (simp add: sample_polls_def driver_new_def drive_poll_def serve_opens.simps)
  then obtain st queue where r: "drive_client driver_new [] sample_polls =
     (st, queue, [Answered 1 (Inr ()), Skipped 2, Answered 3 (Inl ''full''), Answered 4 (Inr ())], True)" by blast
  from driver_serves_in_order [OF this] obtain k where k: "k \<le> length sample_polls"
    "map served_request [Answered 1 (Inr ()), Skipped 2, Answered 3 (Inl ''full''), Answered 4 (Inr ())]
       @ outstanding st queue = concat (map arrivals (take k sample_polls))" by blast
  have "k = 0 \<or> k = 1 \<or> k = 2" using k(1) by (auto simp: sample_polls_def)
  then have "outstanding st queue = []" using k(2) by (auto simp: sample_polls_def)
  with r show ?thesis by blast
qed

end
