(* ===== verification/Gate_Steps.thy ===== *)
theory Gate_Steps
  imports Proxy_Common
begin

text \<open>
  Admission at the grain of the atomic operations. \<open>admit\<close> and \<open>finish_connection\<close> change the
  semaphore and the counter \<open>active_connections\<close> at once; in the code they are two operations each,
  and other tasks may run between them: \<open>try_acquire_owned\<close> and \<open>fetch_add\<close> in the acceptor,
  \<open>fetch_sub\<close> and the drop of the permit in the handler. Here every such operation is a step of its
  own and the steps of the connections interleave. The counter is an \<open>AtomicUsize\<close>, so it is a
  word that wraps. Both proxies have the same code.
\<close>

datatype conn_pc = Arrived | Admitted | Handling | Uncounted | Closed | Refused

record gate_state =
  gs_permits :: nat
  gs_active :: "64 word"
  gs_conns :: "nat \<rightharpoonup> conn_pc"

definition gate_start :: "nat \<Rightarrow> gate_state" where
  "gate_start max_conn = \<lparr>gs_permits = max_conn, gs_active = 0, gs_conns = Map.empty\<rparr>"

text \<open>One operation of connection \<open>i\<close>; a handler that ends does so by its \<open>fetch_sub\<close>.\<close>

definition gate_step :: "nat \<Rightarrow> gate_state \<Rightarrow> gate_state" where
  "gate_step i s =
     (case gs_conns s i of
        None \<Rightarrow> s\<lparr>gs_conns := (gs_conns s)(i \<mapsto> Arrived)\<rparr>
      | Some Arrived \<Rightarrow>
          if 0 < gs_permits s
          then s\<lparr>gs_permits := gs_permits s - 1, gs_conns := (gs_conns s)(i \<mapsto> Admitted)\<rparr>
          else s\<lparr>gs_conns := (gs_conns s)(i \<mapsto> Refused)\<rparr>
      | Some Admitted \<Rightarrow> s\<lparr>gs_active := gs_active s + 1, gs_conns := (gs_conns s)(i \<mapsto> Handling)\<rparr>
      | Some Handling \<Rightarrow> s\<lparr>gs_active := gs_active s - 1, gs_conns := (gs_conns s)(i \<mapsto> Uncounted)\<rparr>
      | Some Uncounted \<Rightarrow> s\<lparr>gs_permits := gs_permits s + 1, gs_conns := (gs_conns s)(i \<mapsto> Closed)\<rparr>
      | Some Closed \<Rightarrow> s
      | Some Refused \<Rightarrow> s)"

inductive gate_reachable :: "nat \<Rightarrow> gate_state \<Rightarrow> bool" for max_conn :: nat where
  start: "gate_reachable max_conn (gate_start max_conn)"
| step: "gate_reachable max_conn s \<Longrightarrow> gate_reachable max_conn (gate_step i s)"

text \<open>
  The abstraction: a connection counts from its permit to the drop of it, so the permit is the
  point at which \<open>admit\<close> and \<open>finish_connection\<close> take effect.
\<close>

definition holds_permit :: "conn_pc \<Rightarrow> bool" where
  "holds_permit c \<longleftrightarrow> c \<in> {Admitted, Handling, Uncounted}"

definition gate_abs :: "gate_state \<Rightarrow> gate" where
  "gate_abs s = \<lparr>permits = gs_permits s, active_connections = count_tasks holds_permit (gs_conns s)\<rparr>"

text \<open>The invariant: permits are neither lost nor made, and the word counts the running handlers.\<close>

definition gate_ok :: "nat \<Rightarrow> gate_state \<Rightarrow> bool" where
  "gate_ok max_conn s \<longleftrightarrow> finite (dom (gs_conns s)) \<and> gate_inv max_conn (gate_abs s)
     \<and> gs_active s = of_nat (count_tasks (\<lambda>c. c = Handling) (gs_conns s))"

lemma gate_ok_start: "gate_ok n (gate_start n)"
  by (simp add: gate_ok_def gate_start_def gate_abs_def gate_inv_def)

text \<open>A step of a connection as a step of the atomic gate, or as none.\<close>

definition atomic_step :: "conn_pc option \<Rightarrow> gate \<Rightarrow> gate" where
  "atomic_step c g =
     (case c of
        Some Arrived \<Rightarrow> (case admit g of Some g' \<Rightarrow> g' | None \<Rightarrow> g)
      | Some Uncounted \<Rightarrow> finish_connection g
      | _ \<Rightarrow> g)"

lemma gate_step_abs:
  assumes "finite (dom (gs_conns s))"
  shows "gate_abs (gate_step i s) = atomic_step (gs_conns s i) (gate_abs s)"
proof (cases "gs_conns s i")
  case None
  then show ?thesis
    using count_tasks_new [OF assms None, of holds_permit Arrived]
    by (simp add: gate_step_def atomic_step_def gate_abs_def holds_permit_def)
next
  case (Some c)
  note move = count_tasks_move [OF assms Some, of holds_permit]
  show ?thesis
    using Some move [of Admitted] move [of Refused] move [of Handling] move [of Uncounted] move [of Closed]
    by (cases c) (auto simp: gate_step_def atomic_step_def gate_abs_def admit_def finish_connection_def holds_permit_def)
qed

lemma gate_step_finite: "finite (dom (gs_conns s)) \<Longrightarrow> finite (dom (gs_conns (gate_step i s)))"
  by (auto simp: gate_step_def split: option.split conn_pc.split)

lemma gate_step_counter:
  assumes "finite (dom (gs_conns s))" and "gs_active s = of_nat (count_tasks (\<lambda>c. c = Handling) (gs_conns s))"
  shows "gs_active (gate_step i s) = of_nat (count_tasks (\<lambda>c. c = Handling) (gs_conns (gate_step i s)))"
proof (cases "gs_conns s i")
  case None
  then show ?thesis
    using assms(2) count_tasks_new [OF assms(1) None, of "\<lambda>c. c = Handling" Arrived] by (simp add: gate_step_def)
next
  case (Some c)
  note move = count_tasks_move [OF assms(1) Some, of "\<lambda>c. c = Handling"]
  show ?thesis
  proof (cases "c = Handling")
    case True
    then have "count_tasks (\<lambda>c. c = Handling) (gs_conns s) = Suc (count_tasks (\<lambda>c. c = Handling) ((gs_conns s)(i \<mapsto> Uncounted)))"
      using move [of Uncounted] by simp
    then show ?thesis using Some True assms(2) by (simp add: gate_step_def)
  next
    case False
    then show ?thesis
      using Some assms(2) move [of Admitted] move [of Refused] move [of Handling] move [of Closed]
      by (cases c) (simp_all add: gate_step_def)
  qed
qed

text \<open>Only a connection that holds a permit gives one back.\<close>

lemma atomic_step_inv:
  assumes "finite (dom (gs_conns s))" and "gate_inv n (gate_abs s)"
  shows "gate_inv n (atomic_step (gs_conns s i) (gate_abs s))"
proof (cases "gs_conns s i = Some Uncounted")
  case True
  then have "0 < active_connections (gate_abs s)"
    using count_tasks_pos [OF assms(1), of i Uncounted holds_permit] by (simp add: gate_abs_def holds_permit_def)
  then show ?thesis using True gate_inv_finish [OF assms(2)] by (simp add: atomic_step_def)
next
  case False
  then show ?thesis
    using assms(2) gate_inv_admit [OF assms(2)]
    by (cases "admit (gate_abs s)") (simp_all add: atomic_step_def split: option.split conn_pc.split)
qed

lemma gate_reachable_ok: "gate_reachable n s \<Longrightarrow> gate_ok n s"
proof (induction rule: gate_reachable.induct)
  case (step s i)
  then show ?case
    by (simp add: gate_ok_def gate_step_finite gate_step_counter gate_step_abs atomic_step_inv)
qed (rule gate_ok_start)

lemma handling_le_permits:
  assumes "finite (dom f)"
  shows "count_tasks (\<lambda>c. c = Handling) f \<le> count_tasks holds_permit f"
  unfolding count_tasks_def
  by (rule card_mono) (use count_tasks_finite [OF assms] in \<open>auto simp: holds_permit_def\<close>)

lemma atomic_step_history:
  assumes "gate_ok n s" and "gate_abs s = gate_run evs (gate_new n)"
  shows "\<exists>evs'. atomic_step (gs_conns s i) (gate_abs s) = gate_run (evs @ evs') (gate_new n)"
proof -
  have append: "gate_run (evs @ evs') g = gate_run evs' (gate_run evs g)" for evs evs' g
    by (induction evs g rule: gate_run.induct) simp_all
  have "c \<noteq> Some Arrived \<Longrightarrow> c \<noteq> Some Uncounted \<Longrightarrow> atomic_step c g = g" for c g
    by (simp add: atomic_step_def split: option.split conn_pc.split)
  then consider "gs_conns s i = Some Arrived" | "gs_conns s i = Some Uncounted"
    | "atomic_step (gs_conns s i) (gate_abs s) = gate_abs s" by blast
  then show ?thesis
  proof cases
    case 1
    then show ?thesis using assms(2) by (intro exI [of _ "[Arrive]"]) (simp add: append atomic_step_def)
  next
    case 2
    then have "0 < active_connections (gate_abs s)"
      using assms(1) count_tasks_pos [of "gs_conns s" i Uncounted holds_permit]
      by (simp add: gate_ok_def gate_abs_def holds_permit_def)
    then show ?thesis using 2 assms(2) by (intro exI [of _ "[Finish]"]) (simp add: append atomic_step_def)
  next
    case 3
    then show ?thesis using assms(2) by (intro exI [of _ "[]"]) simp
  qed
qed

lemma gate_reachable_history: "gate_reachable n s \<Longrightarrow> \<exists>evs. gate_abs s = gate_run evs (gate_new n)"
proof (induction rule: gate_reachable.induct)
  case start
  show ?case by (intro exI [of _ "[]"]) (simp add: gate_start_def gate_new_def gate_abs_def)
next
  case (step s i)
  then obtain evs where "gate_abs s = gate_run evs (gate_new n)" by blast
  from atomic_step_history [OF gate_reachable_ok [OF step(1)] this, of i] show ?case
    using gate_reachable_ok [OF step(1)] by (auto simp: gate_ok_def gate_step_abs)
qed

subsection \<open>Property\<close>

text \<open>
  C10. Whatever the interleaving of the single operations, the connections go through the atomic gate:
  each operation is an admission, the end of a connection or nothing to it, and every state is one
  the atomic gate comes to by some history of arrivals and ends. The counter never wraps: it is
  the number of running handlers, so the shutdown wait that reads zero finds none running, and it
  never exceeds the limit. A connection is refused exactly when all permits are held.
\<close>

theorem gate_refines_atomic:
  assumes "gate_reachable n s" and "n \<le> MAX_PERMITS"
  shows "gate_abs (gate_step i s) = atomic_step (gs_conns s i) (gate_abs s)
    \<and> (\<exists>evs. gate_abs s = gate_run evs (gate_new n))
    \<and> unat (gs_active s) = count_tasks (\<lambda>c. c = Handling) (gs_conns s) \<and> unat (gs_active s) \<le> n
    \<and> (gs_active s = 0 \<longleftrightarrow> (\<forall>j. gs_conns s j \<noteq> Some Handling))
    \<and> (gs_conns s i = Some Arrived \<longrightarrow>
        (gs_conns (gate_step i s) i = Some Refused \<longleftrightarrow> count_tasks holds_permit (gs_conns s) = n))"
proof -
  have ok: "finite (dom (gs_conns s))" "gs_permits s + count_tasks holds_permit (gs_conns s) = n"
    "gs_active s = of_nat (count_tasks (\<lambda>c. c = Handling) (gs_conns s))"
    using gate_reachable_ok [OF assms(1)] by (simp_all add: gate_ok_def gate_inv_def gate_abs_def)
  have le: "count_tasks (\<lambda>c. c = Handling) (gs_conns s) \<le> n"
    using handling_le_permits [OF ok(1)] ok(2) by linarith
  then have unat: "unat (gs_active s) = count_tasks (\<lambda>c. c = Handling) (gs_conns s)"
    using assms(2) ok(3) by (simp add: unat_of_nat MAX_PERMITS_def)
  have "count_tasks (\<lambda>c. c = Handling) (gs_conns s) = 0 \<longleftrightarrow> (\<forall>j. gs_conns s j \<noteq> Some Handling)"
    using count_tasks_pos [OF ok(1), of _ Handling "\<lambda>c. c = Handling"] count_tasks_zero [of "gs_conns s" "\<lambda>c. c = Handling"]
    by auto
  then have zero: "gs_active s = 0 \<longleftrightarrow> (\<forall>j. gs_conns s j \<noteq> Some Handling)"
    using unat by (metis unat_eq_zero)
  have "gs_conns s i = Some Arrived \<longrightarrow>
      (gs_conns (gate_step i s) i = Some Refused \<longleftrightarrow> count_tasks holds_permit (gs_conns s) = n)"
    using ok(2) by (auto simp: gate_step_def)
  then show ?thesis
    using gate_step_abs [OF ok(1)] gate_reachable_history [OF assms(1)] unat le zero by simp
qed

theorem gate_refines_atomic_witness:
  "gate_abs (gate_step 1 (gate_step 1 (gate_step 0 (gate_step 0 (gate_start 1))))) =
     atomic_step (Some Arrived) (gate_abs (gate_step 1 (gate_step 0 (gate_step 0 (gate_start 1)))))
   \<and> gs_conns (gate_step 1 (gate_step 1 (gate_step 0 (gate_step 0 (gate_start 1))))) 1 = Some Refused"
proof -
  let ?s = "gate_step 1 (gate_step 0 (gate_step 0 (gate_start 1)))"
  have s: "gate_reachable 1 ?s" by (intro gate_reachable.intros)
  have arrived: "gs_conns ?s 1 = Some Arrived" by (simp add: gate_step_def gate_start_def)
  have full: "count_tasks holds_permit (gs_conns ?s) = 1"
    using gate_reachable_ok [OF s] by (simp add: gate_ok_def gate_inv_def gate_abs_def gate_step_def gate_start_def)
  from gate_refines_atomic [OF s, of 1] arrived full show ?thesis by (simp add: MAX_PERMITS_def)
qed

end
