(* ===== verification/Id_Provider.thy ===== *)
theory Id_Provider
  imports Handshake Runtime_Config
begin

text \<open>
  \<open>src/identity/provider/mod.rs\<close>: where a workload's identity comes from. The environment and the
  mounted files are those of \<open>config_world\<close>; base64 and JSON belong to third-party crates, so what
  they make of a token's payload is a parameter: \<open>url_safe_decode\<close> the decoded bytes, \<open>jwt_claims\<close>
  the claims as a map to JSON values, of which the code asks only whether they are strings.
\<close>

datatype json_value = JsonString string | JsonOther

record k8s_world = config_world +
  url_safe_decode :: "string \<Rightarrow> bytes option"
  jwt_claims :: "bytes \<Rightarrow> (string \<Rightarrow> json_value option) option"

definition K8S_SERVICE_ACCOUNT_TOKEN_PATH :: string where
  "K8S_SERVICE_ACCOUNT_TOKEN_PATH = ''/var/run/secrets/kubernetes.io/serviceaccount/token''"

definition K8S_NAMESPACE_PATH :: string where
  "K8S_NAMESPACE_PATH = ''/var/run/secrets/kubernetes.io/serviceaccount/namespace''"

text \<open>
  \<open>str::trim\<close>: the UTF-8 encodings of the characters with the Unicode property \<open>White_Space\<close>. Each
  begins with a byte that is not a continuation byte, so on valid UTF-8 a prefix or suffix of this
  form is a whole character.
\<close>

definition white_space :: "string list" where
  "white_space = map (\<lambda>c. [c]) [CHR 0x09, CHR 0x0A, CHR 0x0B, CHR 0x0C, CHR 0x0D, CHR 0x20]
     @ [[CHR 0xC2, CHR 0x85], [CHR 0xC2, CHR 0xA0], [CHR 0xE1, CHR 0x9A, CHR 0x80]]
     @ map (\<lambda>c. [CHR 0xE2, CHR 0x80, c]) [CHR 0x80, CHR 0x81, CHR 0x82, CHR 0x83, CHR 0x84, CHR 0x85, CHR 0x86,
         CHR 0x87, CHR 0x88, CHR 0x89, CHR 0x8A, CHR 0xA8, CHR 0xA9, CHR 0xAF]
     @ [[CHR 0xE2, CHR 0x81, CHR 0x9F], [CHR 0xE3, CHR 0x80, CHR 0x80]]"

lemma white_space_nonempty: "w \<in> set white_space \<Longrightarrow> w \<noteq> []"
  by (auto simp: white_space_def)

function trim_start :: "string \<Rightarrow> string" where
  "trim_start s =
     (case List.find (\<lambda>w. starts_with s w) white_space of
        None \<Rightarrow> s
      | Some w \<Rightarrow> trim_start (drop (length w) s))"
  by pat_completeness auto

termination
proof (relation "measure length")
  fix s w
  assume "List.find (\<lambda>w. starts_with s w) white_space = Some w"
  then have "starts_with s w" "w \<in> set white_space" by (auto simp: find_Some_iff)
  then have "w \<noteq> []" "s \<noteq> []" using white_space_nonempty [of w] by (auto simp: starts_with_def)
  then show "(drop (length w) s, s) \<in> measure length" by simp
qed simp

function trim_end :: "string \<Rightarrow> string" where
  "trim_end s =
     (case List.find (\<lambda>w. ends_with s w) white_space of
        None \<Rightarrow> s
      | Some w \<Rightarrow> trim_end (take (length s - length w) s))"
  by pat_completeness auto

termination
proof (relation "measure length")
  fix s w
  assume "List.find (\<lambda>w. ends_with s w) white_space = Some w"
  then have "ends_with s w" "w \<in> set white_space" by (auto simp: find_Some_iff)
  then have "w \<noteq> []" "s \<noteq> []" using white_space_nonempty [of w] by (auto simp: ends_with_def)
  then show "(take (length s - length w) s, s) \<in> measure length" by simp
qed simp

declare trim_start.simps [simp del] trim_end.simps [simp del]

definition trim :: "string \<Rightarrow> string" where
  "trim s = trim_end (trim_start s)"

subsection \<open>The Kubernetes provider\<close>

text \<open>\<open>token.split('.').nth(1)\<close>, then the subject claim, then its four fields.\<close>

definition extract_service_account_from_token :: "'a k8s_world_scheme \<Rightarrow> string \<Rightarrow> string option" where
  "extract_service_account_from_token w token =
     do {
       payload_b64 \<leftarrow> (case split_on (\<lambda>c. c = CHR ''.'') token of _ # x # _ \<Rightarrow> Some x | _ \<Rightarrow> None);
       payload_json \<leftarrow> url_safe_decode w payload_b64;
       claims \<leftarrow> jwt_claims w payload_json;
       v \<leftarrow> claims ''sub'';
       sub \<leftarrow> (case v of JsonString s \<Rightarrow> Some s | JsonOther \<Rightarrow> None);
       (case split_on (\<lambda>c. c = CHR '':'') sub of
          [a, b, _, d] \<Rightarrow> if a = ''system'' \<and> b = ''serviceaccount'' then Some d else None
        | _ \<Rightarrow> None)
     }"

definition read_namespace :: "'a k8s_world_scheme \<Rightarrow> (InterlinkError, string) result" where
  "read_namespace w =
     (let fallback =
        (case env_var w ''KUBERNETES_NAMESPACE'' of
           Some v \<Rightarrow> Inr v
         | None \<Rightarrow> (case env_var w ''POD_NAMESPACE'' of
             Some v \<Rightarrow> Inr v
           | None \<Rightarrow> Inl (Identity ''could not determine Kubernetes namespace''))) in
      case read_to_string w K8S_NAMESPACE_PATH of
        Inr ns \<Rightarrow> if trim ns \<noteq> [] then Inr (trim ns) else fallback
      | Inl _ \<Rightarrow> fallback)"

definition read_service_account :: "'a k8s_world_scheme \<Rightarrow> (InterlinkError, string) result" where
  "read_service_account w =
     (let fallback =
        (case env_var w ''KUBERNETES_SERVICE_ACCOUNT_NAME'' of
           Some v \<Rightarrow> Inr v
         | None \<Rightarrow> Inl (Identity ''could not determine Kubernetes service account'')) in
      case read_to_string w K8S_SERVICE_ACCOUNT_TOKEN_PATH of
        Inr token \<Rightarrow> (case extract_service_account_from_token w (trim token) of
            Some sa \<Rightarrow> Inr sa
          | None \<Rightarrow> fallback)
      | Inl _ \<Rightarrow> fallback)"

definition derive_identity :: "'a k8s_world_scheme \<Rightarrow> string \<Rightarrow> (InterlinkError, SpiffeId) result panicky" where
  "derive_identity w td =
     (let derived = and_then (read_namespace w) (\<lambda>ns.
                    and_then (read_service_account w) (\<lambda>sa. try_new td ns sa)) in
      case env_var w ''INTERLINK_IDENTITY'' of
        Some uri \<Rightarrow> do {
          r \<leftarrow> SpiffeId_from_uri uri;
          Some (case r of Inr ident \<Rightarrow> Inr ident | Inl _ \<Rightarrow> derived)
        }
      | None \<Rightarrow> Some derived)"

record KubernetesIdentityProvider =
  k8s_trust_domain :: TrustDomain
  k8s_identity :: SpiffeId

definition KubernetesIdentityProvider_new ::
  "'a k8s_world_scheme \<Rightarrow> string \<Rightarrow> (InterlinkError, KubernetesIdentityProvider) result panicky" where
  "KubernetesIdentityProvider_new w td =
     do {
       r \<leftarrow> derive_identity w td;
       Some (and_then r (\<lambda>ident. Inr \<lparr>k8s_trust_domain = TrustDomain_new td, k8s_identity = ident\<rparr>))
     }"

definition k8s_provider :: "KubernetesIdentityProvider \<Rightarrow> IdentityProvider" where
  "k8s_provider self = \<lparr>get_identity = Inr (k8s_identity self), get_trust_domain = k8s_trust_domain self\<rparr>"

subsection \<open>The static provider\<close>

record StaticIdentityProvider =
  static_identity :: SpiffeId
  static_trust_domain :: TrustDomain

definition StaticIdentityProvider_new :: "SpiffeId \<Rightarrow> TrustDomain \<Rightarrow> StaticIdentityProvider" where
  "StaticIdentityProvider_new ident td = \<lparr>static_identity = ident, static_trust_domain = td\<rparr>"

definition with_ca_bundle :: "SpiffeId \<Rightarrow> bytes list \<Rightarrow> StaticIdentityProvider" where
  "with_ca_bundle ident ca_bundle =
     \<lparr>static_identity = ident,
      static_trust_domain = fold (\<lambda>cert td. td\<lparr>ca_certs := ca_certs td @ [cert]\<rparr>) ca_bundle
                              (TrustDomain_new (trust_domain ident))\<rparr>"

definition static_provider :: "StaticIdentityProvider \<Rightarrow> IdentityProvider" where
  "static_provider self = \<lparr>get_identity = Inr (static_identity self), get_trust_domain = static_trust_domain self\<rparr>"

subsection \<open>Splitting and trimming\<close>

lemma split_on_not_Nil [simp]: "split_on P s \<noteq> []"
  by (induction s) (auto split: list.splits)

lemma split_on_clean: "c \<notin> set f \<Longrightarrow> split_on (\<lambda>x. x = c) f = [f]"
  by (induction f) auto

lemma split_on_class: "list_all (\<lambda>c. \<not> P c) f \<Longrightarrow> P x \<Longrightarrow> split_on P (f @ x # s) = f # split_on P s"
  by (induction f) auto

lemma split_on_field: "c \<notin> set f \<Longrightarrow> split_on (\<lambda>x. x = c) (f @ c # s) = f # split_on (\<lambda>x. x = c) s"
  by (rule split_on_class) (auto simp: list_all_iff)

lemma split_on_Cons_iff:
  "split_on (\<lambda>x. x = c) s = f # g # fs \<longleftrightarrow>
     c \<notin> set f \<and> (\<exists>r. s = f @ c # r \<and> split_on (\<lambda>x. x = c) r = g # fs)"
proof
  assume "split_on (\<lambda>x. x = c) s = f # g # fs"
  then show "c \<notin> set f \<and> (\<exists>r. s = f @ c # r \<and> split_on (\<lambda>x. x = c) r = g # fs)"
  proof (induction s arbitrary: f)
    case (Cons x s)
    show ?case
    proof (cases "x = c")
      case False
      with Cons.prems obtain f' where "f = x # f'" "split_on (\<lambda>x. x = c) s = f' # g # fs"
        by (auto split: list.splits)
      with Cons.IH [of f'] False show ?thesis by auto
    qed (use Cons.prems in auto)
  qed simp
qed (auto simp: split_on_field)

lemma split_on_single_iff: "split_on (\<lambda>x. x = c) s = [f] \<longleftrightarrow> c \<notin> set f \<and> s = f"
proof
  assume "split_on (\<lambda>x. x = c) s = [f]"
  then show "c \<notin> set f \<and> s = f"
  proof (induction s arbitrary: f)
    case (Cons x s)
    show ?case
    proof (cases "x = c")
      case False
      with Cons.prems obtain f' where "f = x # f'" "split_on (\<lambda>x. x = c) s = [f']"
        by (auto split: list.splits)
      with Cons.IH [of f'] False show ?thesis by simp
    qed (use Cons.prems in simp)
  qed simp
qed (simp add: split_on_clean)

lemma trim_start_spec:
  "(\<exists>a. s = a @ trim_start s) \<and> (\<forall>w \<in> set white_space. \<not> starts_with (trim_start s) w)"
proof (induction s rule: trim_start.induct)
  case (1 s)
  show ?case
  proof (cases "List.find (\<lambda>w. starts_with s w) white_space")
    case None
    then have "trim_start s = s" by (simp add: trim_start.simps [of s])
    with None show ?thesis by (auto simp: find_None_iff)
  next
    case (Some w)
    then have "s = w @ drop (length w) s" by (auto simp: find_Some_iff starts_with_def) (metis append_take_drop_id)
    with 1 [OF Some] Some show ?thesis by (auto simp: trim_start.simps [of s]) (metis append.assoc)
  qed
qed

lemma trim_end_spec:
  "(\<exists>b. s = trim_end s @ b) \<and> (\<forall>w \<in> set white_space. \<not> ends_with (trim_end s) w)"
proof (induction s rule: trim_end.induct)
  case (1 s)
  show ?case
  proof (cases "List.find (\<lambda>w. ends_with s w) white_space")
    case None
    then have "trim_end s = s" by (simp add: trim_end.simps [of s])
    with None show ?thesis by (auto simp: find_None_iff)
  next
    case (Some w)
    then have "s = take (length s - length w) s @ w"
      by (auto simp: find_Some_iff ends_with_def) (metis append_take_drop_id)
    with 1 [OF Some] Some show ?thesis by (auto simp: trim_end.simps [of s]) (metis append.assoc)
  qed
qed

lemma trim_spec:
  "(\<exists>a b. s = a @ trim s @ b) \<and> (\<forall>w \<in> set white_space. \<not> starts_with (trim s) w \<and> \<not> ends_with (trim s) w)"
proof -
  obtain a where a: "s = a @ trim_start s" using trim_start_spec by blast
  obtain b where b: "trim_start s = trim s @ b" using trim_end_spec [of "trim_start s"] by (auto simp: trim_def)
  have "starts_with (trim_start s) w" if "starts_with (trim s) w" for w
    using that by (subst b) (auto simp: starts_with_def dest: arg_cong [of _ _ length])
  with a b trim_start_spec [of s] trim_end_spec [of "trim_start s"] show ?thesis
    unfolding trim_def [symmetric] by metis
qed

subsection \<open>Providers as an interface\<close>

text \<open>
  What the TLS endpoints rely on of an identity provider: it has an identity, a trust domain name
  and a set of CA certificates. An endpoint built from it checks peers against exactly these.
\<close>

locale identity_source =
  fixes provider :: "'p \<Rightarrow> IdentityProvider"
    and domain_of :: "'p \<Rightarrow> string"
    and cas_of :: "'p \<Rightarrow> bytes list"
  assumes provider_identity: "is_ok (get_identity (provider x))"
    and provider_domain: "td_name (get_trust_domain (provider x)) = domain_of x"
    and provider_cas: "ca_certs (get_trust_domain (provider x)) = cas_of x"
begin

lemma client_auth_alpn_iff:
  "with_client_auth_alpn p (provider x) cert key alpn = Inr c \<longleftrightarrow>
     (\<forall>ca \<in> set (cas_of x). is_ok (root_add p ca)) \<and> is_ok (client_auth_cert p cert key)
     \<and> c = \<lparr>client_checks = SpiffeServerVerifier_new (cas_of x) (domain_of x), client_auth = Some (cert, key),
            client_alpn = alpn\<rparr>"
  by (auto simp: with_client_auth_alpn_def and_then_Inr_iff add_roots_ok_iff provider_domain provider_cas is_ok_iff)

lemma server_alpn_iff:
  "TlsServer_new_with_alpn p (provider x) cert key alpn = Inr c \<longleftrightarrow>
     (\<forall>ca \<in> set (cas_of x). is_ok (root_add p ca)) \<and> is_ok (client_verifier p (cas_of x))
     \<and> is_ok (single_cert p cert key)
     \<and> c = \<lparr>server_roots = cas_of x, server_cert = cert, server_key = key, server_alpn = alpn\<rparr>"
  by (auto simp: TlsServer_new_with_alpn_def and_then_Inr_iff add_roots_ok_iff provider_cas is_ok_iff)

lemma client_new_iff:
  "TlsClient_new p (provider x) = Inr c \<longleftrightarrow>
     (\<forall>ca \<in> set (cas_of x). is_ok (root_add p ca))
     \<and> c = \<lparr>client_checks = SpiffeServerVerifier_new (cas_of x) (domain_of x), client_auth = None,
            client_alpn = alpn_protocols\<rparr>"
  by (auto simp: TlsClient_new_def and_then_Inr_iff add_roots_ok_iff provider_domain provider_cas)

end

interpretation k8s_source: identity_source k8s_provider "\<lambda>x. td_name (k8s_trust_domain x)" "\<lambda>x. ca_certs (k8s_trust_domain x)"
  by unfold_locales (simp_all add: k8s_provider_def)

interpretation static_source: identity_source static_provider "\<lambda>x. td_name (static_trust_domain x)"
    "\<lambda>x. ca_certs (static_trust_domain x)"
  by unfold_locales (simp_all add: static_provider_def)

lemma with_ca_bundle_domain:
  "static_identity (with_ca_bundle ident cas) = ident"
  "td_name (static_trust_domain (with_ca_bundle ident cas)) = trust_domain ident"
  "ca_certs (static_trust_domain (with_ca_bundle ident cas)) = cas"
proof -
  have "fold (\<lambda>cert td. td\<lparr>ca_certs := ca_certs td @ [cert]\<rparr>) cas td = td\<lparr>ca_certs := ca_certs td @ cas\<rparr>"
    for td :: TrustDomain
    by (induction cas arbitrary: td) simp_all
  then show "static_identity (with_ca_bundle ident cas) = ident"
    "td_name (static_trust_domain (with_ca_bundle ident cas)) = trust_domain ident"
    "ca_certs (static_trust_domain (with_ca_bundle ident cas)) = cas"
    by (simp_all add: with_ca_bundle_def TrustDomain_new_def)
qed

subsection \<open>Properties\<close>

lemma four_fields_iff:
  "split_on (\<lambda>x. x = c) s = [a, b, d, e] \<longleftrightarrow>
     s = a @ c # b @ c # d @ c # e \<and> c \<notin> set a \<and> c \<notin> set b \<and> c \<notin> set d \<and> c \<notin> set e"
  by (auto simp: split_on_Cons_iff split_on_single_iff)

lemma second_field_iff: "(case xs of _ # x # _ \<Rightarrow> Some x | _ \<Rightarrow> None) = Some y \<longleftrightarrow> (\<exists>a r. xs = a # y # r)"
  by (auto split: list.splits)

lemma subject_fields_iff:
  "(case xs of [a, b, _, d] \<Rightarrow> if a = u \<and> b = v then Some d else None | _ \<Rightarrow> None) = Some sa
     \<longleftrightarrow> (\<exists>ns. xs = [u, v, ns, sa])"
  by (auto split: list.splits)

lemma json_string_iff: "(case v of JsonString s \<Rightarrow> Some s | JsonOther \<Rightarrow> None) = Some x \<longleftrightarrow> v = JsonString x"
  by (cases v) auto

text \<open>
  The service account of a token is read exactly from the subject claim
  \<open>system:serviceaccount:<namespace>:<service account>\<close> of its second dot-separated field, when
  that field decodes to a JSON object; every other token yields none.
\<close>

lemma service_account_of_subject:
  "extract_service_account_from_token w token = Some sa \<longleftrightarrow>
     (\<exists>header payload rest json claims ns.
        split_on (\<lambda>c. c = CHR ''.'') token = header # payload # rest
        \<and> url_safe_decode w payload = Some json \<and> jwt_claims w json = Some claims
        \<and> claims ''sub'' = Some (JsonString (''system:serviceaccount:'' @ ns @ '':'' @ sa))
        \<and> CHR '':'' \<notin> set ns \<and> CHR '':'' \<notin> set sa)"
proof -
  have "extract_service_account_from_token w token = Some sa \<longleftrightarrow>
     (\<exists>payload. (\<exists>header rest. split_on (\<lambda>c. c = CHR ''.'') token = header # payload # rest)
        \<and> (\<exists>json. url_safe_decode w payload = Some json \<and> (\<exists>claims. jwt_claims w json = Some claims
        \<and> (\<exists>v. claims ''sub'' = Some v \<and> (\<exists>sub. v = JsonString sub
        \<and> (\<exists>ns. split_on (\<lambda>c. c = CHR '':'') sub = [''system'', ''serviceaccount'', ns, sa]))))))"
    by (simp only: extract_service_account_from_token_def bind_eq_Some_conv second_field_iff json_string_iff
        subject_fields_iff)
  then show ?thesis unfolding four_fields_iff by auto
qed

definition env_utf8 :: "'a config_world_scheme \<Rightarrow> bool" where
  "env_utf8 w = (\<forall>name v. env_var w name = Some v \<longrightarrow> valid_utf8 v)"

text \<open>
  Where the documentation of \<open>derive_identity\<close> says the parts come from, apart from the code that reads
  them: \<open>namespace_source w ns\<close> when the mounted namespace file, or else the first of two variables,
  gives \<open>ns\<close>; \<open>account_source w sa\<close> when the subject of the mounted token, or else a variable, gives \<open>sa\<close>.
\<close>

definition mounted_namespace :: "'a k8s_world_scheme \<Rightarrow> string \<Rightarrow> bool" where
  "mounted_namespace w ns = (ns \<noteq> [] \<and>
     (\<exists>contents. read_to_string w ''/var/run/secrets/kubernetes.io/serviceaccount/namespace'' = Inr contents \<and> trim contents = ns))"

definition namespace_source :: "'a k8s_world_scheme \<Rightarrow> string \<Rightarrow> bool" where
  "namespace_source w ns = (mounted_namespace w ns
     \<or> (\<forall>x. \<not> mounted_namespace w x) \<and> (env_var w ''KUBERNETES_NAMESPACE'' = Some ns
          \<or> env_var w ''KUBERNETES_NAMESPACE'' = None \<and> env_var w ''POD_NAMESPACE'' = Some ns))"

definition token_account :: "'a k8s_world_scheme \<Rightarrow> string \<Rightarrow> bool" where
  "token_account w sa = (\<exists>contents header payload rest json claims ns.
     read_to_string w ''/var/run/secrets/kubernetes.io/serviceaccount/token'' = Inr contents
     \<and> split_on (\<lambda>c. c = CHR ''.'') (trim contents) = header # payload # rest
     \<and> url_safe_decode w payload = Some json \<and> jwt_claims w json = Some claims
     \<and> claims ''sub'' = Some (JsonString (''system:serviceaccount:'' @ ns @ '':'' @ sa))
     \<and> CHR '':'' \<notin> set ns \<and> CHR '':'' \<notin> set sa)"

definition account_source :: "'a k8s_world_scheme \<Rightarrow> string \<Rightarrow> bool" where
  "account_source w sa = (token_account w sa
     \<or> (\<forall>x. \<not> token_account w x) \<and> env_var w ''KUBERNETES_SERVICE_ACCOUNT_NAME'' = Some sa)"

lemma read_namespace_iff:
  "read_namespace w = Inr ns \<longleftrightarrow> namespace_source w ns"
  "read_namespace w = Inl e \<longleftrightarrow> (\<forall>x. \<not> namespace_source w x) \<and> e = Identity ''could not determine Kubernetes namespace''"
  by (auto simp: read_namespace_def namespace_source_def mounted_namespace_def K8S_NAMESPACE_PATH_def Let_def
      split: sum.splits option.splits)

lemma token_account_iff:
  "token_account w sa \<longleftrightarrow> (\<exists>contents. read_to_string w K8S_SERVICE_ACCOUNT_TOKEN_PATH = Inr contents
     \<and> extract_service_account_from_token w (trim contents) = Some sa)"
  unfolding token_account_def service_account_of_subject K8S_SERVICE_ACCOUNT_TOKEN_PATH_def by blast

lemma read_service_account_iff:
  "read_service_account w = Inr sa \<longleftrightarrow> account_source w sa"
  "read_service_account w = Inl e \<longleftrightarrow>
     (\<forall>x. \<not> account_source w x) \<and> e = Identity ''could not determine Kubernetes service account''"
  unfolding account_source_def token_account_iff
  by (auto simp: read_service_account_def Let_def split: sum.splits option.splits)

definition env_identity :: "'a config_world_scheme \<Rightarrow> SpiffeId option" where
  "env_identity w =
     (case env_var w ''INTERLINK_IDENTITY'' of
        None \<Rightarrow> None
      | Some uri \<Rightarrow> (case SpiffeId_from_uri uri of Some (Inr ident) \<Rightarrow> Some ident | _ \<Rightarrow> None))"

text \<open>The outcome of the derivation where the override does not decide.\<close>

lemma derived_iff:
  "and_then (read_namespace w) (\<lambda>ns. and_then (read_service_account w) (\<lambda>sa. try_new td ns sa)) = Inr ident \<longleftrightarrow>
     td \<noteq> [] \<and> trust_domain ident = td \<and> namespace_source w (namespace ident) \<and> namespace ident \<noteq> []
     \<and> account_source w (service_account ident) \<and> service_account ident \<noteq> []"
  by (cases ident) (auto simp: and_then_Inr_iff read_namespace_iff read_service_account_iff try_new_Inr_iff SpiffeId_new_def)

lemma derive_identity_cases:
  assumes "env_utf8 w"
  shows "derive_identity w td = Some (case env_identity w of
      Some i \<Rightarrow> Inr i
    | None \<Rightarrow> and_then (read_namespace w) (\<lambda>ns. and_then (read_service_account w) (\<lambda>sa. try_new td ns sa)))"
proof (cases "env_var w ''INTERLINK_IDENTITY''")
  case (Some uri)
  then have "SpiffeId_from_uri uri \<noteq> None" using assms SpiffeId_from_uri_no_panic by (auto simp: env_utf8_def)
  with Some show ?thesis by (auto simp: derive_identity_def env_identity_def split: sum.splits)
qed (simp add: derive_identity_def env_identity_def)

text \<open>
  C30. Where a Kubernetes workload's identity comes from: a valid \<open>INTERLINK_IDENTITY\<close> wins as it
  stands; otherwise the identity consists of the given trust domain, the namespace and the service
  account. The namespace is the trimmed text of the mounted file unless that is missing or blank,
  then \<open>KUBERNETES_NAMESPACE\<close>, then \<open>POD_NAMESPACE\<close>; the service account is the last of the four fields
  of the subject \<open>system:serviceaccount:<namespace>:<account>\<close> of the mounted token, unless there is
  no such token, then \<open>KUBERNETES_SERVICE_ACCOUNT_NAME\<close>. Construction succeeds exactly when the
  three parts exist and are not empty, says which source was missing, and never panics; the
  provider's own trust domain is always the given one.
\<close>

theorem k8s_identity_sources:
  assumes "env_utf8 w"
  shows "\<exists>r. KubernetesIdentityProvider_new w td = Some r \<and>
    (\<forall>self. r = Inr self \<longleftrightarrow> k8s_trust_domain self = TrustDomain_new td \<and>
       (case env_identity w of
          Some i \<Rightarrow> k8s_identity self = i
        | None \<Rightarrow> td \<noteq> [] \<and> trust_domain (k8s_identity self) = td
            \<and> namespace_source w (namespace (k8s_identity self)) \<and> namespace (k8s_identity self) \<noteq> []
            \<and> account_source w (service_account (k8s_identity self)) \<and> service_account (k8s_identity self) \<noteq> [])) \<and>
    (env_identity w = None \<longrightarrow> (\<forall>ns. \<not> namespace_source w ns) \<longrightarrow>
       r = Inl (Identity ''could not determine Kubernetes namespace'')) \<and>
    (env_identity w = None \<longrightarrow> namespace_source w ns \<longrightarrow> (\<forall>sa. \<not> account_source w sa) \<longrightarrow>
       r = Inl (Identity ''could not determine Kubernetes service account''))"
proof -
  let ?derived = "and_then (read_namespace w) (\<lambda>ns. and_then (read_service_account w) (\<lambda>sa. try_new td ns sa))"
  let ?r = "and_then (case env_identity w of Some i \<Rightarrow> Inr i | None \<Rightarrow> ?derived)
      (\<lambda>ident. Inr \<lparr>k8s_trust_domain = TrustDomain_new td, k8s_identity = ident\<rparr>)"
  have "KubernetesIdentityProvider_new w td = Some ?r"
    by (simp add: KubernetesIdentityProvider_new_def derive_identity_cases [OF assms])
  moreover have "?r = Inr self \<longleftrightarrow> k8s_trust_domain self = TrustDomain_new td \<and>
       (case env_identity w of
          Some i \<Rightarrow> k8s_identity self = i
        | None \<Rightarrow> ?derived = Inr (k8s_identity self))" for self
    by (cases self) (auto simp: and_then_Inr_iff split: option.split)
  moreover have "?derived = Inl (Identity ''could not determine Kubernetes namespace'')" if "\<forall>ns. \<not> namespace_source w ns"
    using read_namespace_iff(2) [of w "Identity ''could not determine Kubernetes namespace''"] that by (simp add: and_then_def)
  moreover have "?derived = Inl (Identity ''could not determine Kubernetes service account'')"
    if "namespace_source w ns" "\<forall>sa. \<not> account_source w sa"
    using read_namespace_iff(1) [of w ns] that
      read_service_account_iff(2) [of w "Identity ''could not determine Kubernetes service account''"] by (simp add: and_then_def)
  ultimately show ?thesis unfolding derived_iff by (intro exI [of _ ?r]) (auto simp: and_then_def)
qed

text \<open>A pod whose mounted files disagree with its environment.\<close>

definition sample_k8s :: k8s_world where
  "sample_k8s =
     \<lparr>env_var = (\<lambda>v. if v = ''POD_NAMESPACE'' then Some ''other'' else None), path_exists = (\<lambda>_. False),
      read_to_string = (\<lambda>f. if f = ''/var/run/secrets/kubernetes.io/serviceaccount/token'' then Inr ''h.p.s''
        else if f = ''/var/run/secrets/kubernetes.io/serviceaccount/namespace'' then Inr '' shop ''
        else Inl \<lparr>io_kind = IoOther, io_text = []\<rparr>),
      from_json = (\<lambda>_. Inl []), show_tls_error = (\<lambda>_. []),
      url_safe_decode = (\<lambda>x. if x = ''p'' then Some ''json'' else None),
      jwt_claims = (\<lambda>_. Some (\<lambda>k. if k = ''sub'' then Some (JsonString ''system:serviceaccount:shop:web'') else None))\<rparr>"

lemma sample_sources: "namespace_source sample_k8s ns \<longleftrightarrow> ns = ''shop''" "account_source sample_k8s sa \<longleftrightarrow> sa = ''web''"
proof -
  have "read_namespace sample_k8s = Inr ''shop''" "read_service_account sample_k8s = Inr ''web''" by code_simp+
  then show "namespace_source sample_k8s ns \<longleftrightarrow> ns = ''shop''" "account_source sample_k8s sa \<longleftrightarrow> sa = ''web''"
    by (auto simp: read_namespace_iff(1) [symmetric] read_service_account_iff(1) [symmetric])
qed

theorem k8s_identity_sources_witness:
  "KubernetesIdentityProvider_new sample_k8s ''t'' =
     Some (Inr \<lparr>k8s_trust_domain = TrustDomain_new ''t'', k8s_identity = SpiffeId_new ''t'' ''shop'' ''web''\<rparr>)"
proof -
  have u: "env_utf8 sample_k8s"
    by (auto simp: env_utf8_def sample_k8s_def valid_utf8_all_ascii byte_def split: if_splits)
  have e: "env_identity sample_k8s = None" by (simp add: env_identity_def sample_k8s_def)
  let ?self = "\<lparr>k8s_trust_domain = TrustDomain_new ''t'', k8s_identity = SpiffeId_new ''t'' ''shop'' ''web''\<rparr>"
  obtain r where r: "KubernetesIdentityProvider_new sample_k8s ''t'' = Some r"
    and iff: "r = Inr ?self \<longleftrightarrow> k8s_trust_domain ?self = TrustDomain_new ''t'' \<and>
       ''t'' \<noteq> [] \<and> trust_domain (k8s_identity ?self) = ''t''
            \<and> namespace_source sample_k8s (namespace (k8s_identity ?self)) \<and> namespace (k8s_identity ?self) \<noteq> []
            \<and> account_source sample_k8s (service_account (k8s_identity ?self)) \<and> service_account (k8s_identity ?self) \<noteq> []"
    using k8s_identity_sources [OF u, of "''t''"] unfolding e option.case by blast
  have "r = Inr ?self" unfolding iff by (simp add: sample_sources SpiffeId_new_def)
  with r show ?thesis by simp
qed

end
