(* ===== verification/Reload.thy ===== *)
theory Reload
  imports Id_Provider
begin

text \<open>
  \<open>src/proxy/reload.rs\<close>: loading TLS credentials from files and swapping them at run time. The file
  system, the PEM reader and the clock are the parameters of \<open>cred_world\<close>; a file may change between
  two reads, so reads are numbered. The swap (\<open>ArcSwap::store\<close>) is one step: a handshake uses the
  generation that was current when it began.
\<close>

record TlsCredentialPaths =
  ca_bundle :: string
  certificate :: string
  private_key :: string

record cred_world =
  cw_env_os :: "string \<Rightarrow> string option"
  cw_temp_dir :: string
  cw_read :: "nat \<Rightarrow> string \<Rightarrow> (IoError, bytes) result"
  cw_pem_certs :: "bytes \<Rightarrow> (IoError, bytes) result list"
  cw_pem_key :: "bytes \<Rightarrow> (IoError, bytes option) result"
  cw_server_name :: "string \<Rightarrow> (string, unit) result"
  cw_now :: nat
  cw_join_error :: "string option"

text \<open>\<open>Path::join\<close> with a relative, non-empty file name on Unix.\<close>

definition path_join :: "string \<Rightarrow> string \<Rightarrow> string" where
  "path_join dir name = (if dir = [] \<or> last dir = CHR ''/'' then dir @ name else dir @ ''/'' @ name)"

definition TlsCredentialPaths_new :: "string \<Rightarrow> string \<Rightarrow> string \<Rightarrow> TlsCredentialPaths" where
  "TlsCredentialPaths_new ca cert key = \<lparr>ca_bundle = ca, certificate = cert, private_key = key\<rparr>"

definition paths_from_config :: "cred_world \<Rightarrow> Config \<Rightarrow> TlsCredentialPaths" where
  "paths_from_config w config =
     (let default_directory = (case cw_env_os w ''INTERLINK_CERT_DIR'' of
            Some d \<Rightarrow> d
          | None \<Rightarrow> path_join (cw_temp_dir w) ''interlink-demo'') in
      TlsCredentialPaths_new
        (case cfg_ca_bundle_path config of Some x \<Rightarrow> x | None \<Rightarrow> path_join default_directory ''ca.der'')
        (case cfg_cert_path config of Some x \<Rightarrow> x | None \<Rightarrow> path_join default_directory ''server.der'')
        (case cfg_key_path config of Some x \<Rightarrow> x | None \<Rightarrow> path_join default_directory ''server.key''))"

record TlsGeneration =
  gen_client :: TlsClient
  gen_server :: TlsServer

record TlsCredentialReloader =
  rl_paths :: TlsCredentialPaths
  rl_expected_identity :: SpiffeId
  rl_mux_enabled :: bool
  rl_generation :: TlsGeneration

subsection \<open>Reading credentials\<close>

text \<open>A path is bytes; \<open>path.display()\<close> decodes it lossily.\<close>

definition read_file :: "cred_world \<Rightarrow> nat \<Rightarrow> string \<Rightarrow> string \<Rightarrow> (InterlinkError, bytes) result" where
  "read_file w n path description =
     map_err (\<lambda>e. Io \<lparr>io_kind = IoError.io_kind e,
                       io_text = ''read '' @ description @ '' '' @ [CHR 0x27] @ from_utf8_lossy path @ [CHR 0x27] @ '': '' @ io_text e\<rparr>)
             (cw_read w n path)"

definition pem_marker :: bytes where
  "pem_marker = ''-----BEGIN ''"

definition windows :: "nat \<Rightarrow> bytes \<Rightarrow> bytes list" where
  "windows n bs = map (\<lambda>i. take n (drop i bs)) [0..<Suc (length bs) - n]"

definition contains_pem_header :: "bytes \<Rightarrow> bool" where
  "contains_pem_header bs = list_ex (\<lambda>window. window = pem_marker) (windows (length pem_marker) bs)"

text \<open>\<open>collect::<Result<Vec<_>, _>>\<close>: the first error ends the collection.\<close>

fun collect_results :: "('e, 'a) result list \<Rightarrow> ('e, 'a list) result" where
  "collect_results [] = Inr []"
| "collect_results (Inl e # rs) = Inl e"
| "collect_results (Inr a # rs) = and_then (collect_results rs) (\<lambda>as. Inr (a # as))"

definition invalid_data :: "string \<Rightarrow> InterlinkError" where
  "invalid_data text = Io \<lparr>io_kind = InvalidData, io_text = text\<rparr>"

definition parse_certificates :: "cred_world \<Rightarrow> bytes \<Rightarrow> (InterlinkError, bytes list) result" where
  "parse_certificates w bs =
     (if \<not> contains_pem_header bs
      then if bs = [] then Inl (invalid_data ''DER certificate file is empty'') else Inr [bs]
      else and_then (map_err Io (collect_results (cw_pem_certs w bs))) (\<lambda>certificates.
           if certificates = [] then Inl (invalid_data ''PEM file contains no certificates'')
           else Inr certificates))"

definition parse_private_key :: "cred_world \<Rightarrow> bytes \<Rightarrow> (InterlinkError, bytes) result" where
  "parse_private_key w bs =
     (if \<not> contains_pem_header bs
      then if bs = [] then Inl (invalid_data ''DER private-key file is empty'') else Inr bs
      else and_then (map_err Io (cw_pem_key w bs)) (\<lambda>found.
           ok_or (invalid_data ''PEM file contains no supported private key'') found))"

subsection \<open>Building a generation\<close>

text \<open>The three files, in the order they are read; the first certificate is the leaf.\<close>

definition read_credentials ::
  "cred_world \<Rightarrow> TlsCredentialPaths \<Rightarrow> (InterlinkError, bytes list \<times> bytes \<times> bytes list \<times> bytes) result" where
  "read_credentials w paths =
     and_then (read_file w 0 (ca_bundle paths) ''CA bundle'') (\<lambda>ca_bytes.
     and_then (parse_certificates w ca_bytes) (\<lambda>roots.
     and_then (read_file w 1 (certificate paths) ''certificate'') (\<lambda>cert_bytes.
     and_then (parse_certificates w cert_bytes) (\<lambda>certificates.
     case certificates of
       [] \<Rightarrow> Inl (ConfigError ''certificate file contains no certificates'')
     | cert # intermediates \<Rightarrow>
         and_then (read_file w 2 (private_key paths) ''private key'') (\<lambda>key_bytes.
         and_then (parse_private_key w key_bytes) (\<lambda>key.
         Inr (roots, cert, intermediates, key)))))))"

text \<open>The endpoints of both proxies from one set of credentials, the server first.\<close>

definition build_endpoints ::
  "pki \<Rightarrow> SpiffeId \<Rightarrow> bool \<Rightarrow> bytes list \<Rightarrow> bytes \<Rightarrow> bytes \<Rightarrow> (InterlinkError, TlsGeneration) result" where
  "build_endpoints p expected mux_enabled roots cert key =
     (let provider = static_provider (with_ca_bundle expected roots) in
      if mux_enabled
      then and_then (TlsServer_new p provider cert key) (\<lambda>server.
           and_then (with_client_auth p provider cert key) (\<lambda>client.
           Inr \<lparr>gen_client = client, gen_server = server\<rparr>))
      else and_then (TlsServer_new_with_alpn p provider cert key legacy_alpn_protocols) (\<lambda>server.
           and_then (with_client_auth_alpn p provider cert key legacy_alpn_protocols) (\<lambda>client.
           Inr \<lparr>gen_client = client, gen_server = server\<rparr>)))"

definition build_generation ::
  "pki \<Rightarrow> cred_world \<Rightarrow> TlsCredentialPaths \<Rightarrow> SpiffeId \<Rightarrow> bool \<Rightarrow> (InterlinkError, TlsGeneration) result panicky" where
  "build_generation p w paths expected mux_enabled =
     (case read_credentials w paths of
        Inl e \<Rightarrow> Some (Inl e)
      | Inr (roots, cert, intermediates, key) \<Rightarrow> do {
          r \<leftarrow> spiffe_id_from_cert_der p cert;
          (case r of
             Inl e \<Rightarrow> Some (Inl e)
           | Inr actual \<Rightarrow>
               if actual \<noteq> expected
               then Some (Inl (Identity (''certificate identity '' @ [CHR 0x27] @ to_uri actual @ [CHR 0x27]
                      @ '' does not match configured identity '' @ [CHR 0x27] @ to_uri expected @ [CHR 0x27])))
               else (case add_roots p [] roots of
                 Inl e \<Rightarrow> Some (Inl e)
               | Inr root_store \<Rightarrow>
                   (case cw_server_name w ''reload.invalid'' of
                      Inl e \<Rightarrow> Some (Inl (ConfigError (''validation name: '' @ e)))
                    | Inr _ \<Rightarrow> do {
                        verified \<leftarrow> verify_server_cert p (SpiffeServerVerifier_new root_store (trust_domain expected))
                                      cert intermediates (cw_now w);
                        (case verified of
                           Inl e \<Rightarrow> Some (Inl (Tls e))
                         | Inr _ \<Rightarrow> Some (build_endpoints p expected mux_enabled roots cert key))
                      })))
        })"

text \<open>
  \<open>load_generation\<close> runs the build on a blocking thread: a join error (the runtime cancelled the
  task) becomes a configuration error; a panic aborts the process, as the release profile says.
\<close>

definition load_generation ::
  "pki \<Rightarrow> cred_world \<Rightarrow> TlsCredentialPaths \<Rightarrow> SpiffeId \<Rightarrow> bool \<Rightarrow> (InterlinkError, TlsGeneration) result panicky" where
  "load_generation p w paths expected mux_enabled =
     (case cw_join_error w of
        Some e \<Rightarrow> Some (Inl (ConfigError (''TLS credential loader task failed: '' @ e)))
      | None \<Rightarrow> build_generation p w paths expected mux_enabled)"

definition reloader_load ::
  "pki \<Rightarrow> cred_world \<Rightarrow> TlsCredentialPaths \<Rightarrow> SpiffeId \<Rightarrow> bool \<Rightarrow> (InterlinkError, TlsCredentialReloader) result panicky" where
  "reloader_load p w paths expected mux_enabled =
     do {
       r \<leftarrow> load_generation p w paths expected mux_enabled;
       Some (and_then r (\<lambda>generation. Inr \<lparr>rl_paths = paths, rl_expected_identity = expected,
              rl_mux_enabled = mux_enabled, rl_generation = generation\<rparr>))
     }"

definition reload ::
  "pki \<Rightarrow> cred_world \<Rightarrow> TlsCredentialReloader \<Rightarrow> ((InterlinkError, unit) result \<times> TlsCredentialReloader) panicky" where
  "reload p w self =
     do {
       r \<leftarrow> load_generation p w (rl_paths self) (rl_expected_identity self) (rl_mux_enabled self);
       Some (case r of
               Inl e \<Rightarrow> (Inl e, self)
             | Inr generation \<Rightarrow> (Inr (), self\<lparr>rl_generation := generation\<rparr>))
     }"

definition reloader_connect ::
  "pki \<Rightarrow> bytes set \<Rightarrow> (TlsClient \<Rightarrow> SocketAddr \<Rightarrow> (IoError, unit) result)
     \<Rightarrow> (TlsClient \<Rightarrow> SocketAddr \<Rightarrow> handshake_outcome) \<Rightarrow> TlsCredentialReloader \<Rightarrow> SocketAddr \<Rightarrow> globals
     \<Rightarrow> ((InterlinkError, TlsStream) result \<times> globals) panicky" where
  "reloader_connect p keep net out self addr g =
     TlsClient_connect p keep net out (gen_client (rl_generation self)) addr g"

definition reloader_accept ::
  "pki \<Rightarrow> bytes set \<Rightarrow> (TlsServer \<Rightarrow> handshake_outcome) \<Rightarrow> TlsCredentialReloader \<Rightarrow> globals
     \<Rightarrow> ((InterlinkError, TlsStream) result \<times> globals) panicky" where
  "reloader_accept p keep out self g = TlsServer_accept p keep out (gen_server (rl_generation self)) g"

interpretation reload_connect: tls_endpoint "reloader_connect p keep net out self addr" "tls_ok p"
  for p keep net out self addr
  using client_connect.tls_endpoint_axioms by (simp add: reloader_connect_def [abs_def])

interpretation reload_accept: tls_endpoint "reloader_accept p keep out self" "tls_ok p" for p keep out self
  using server_accept.tls_endpoint_axioms by (simp add: reloader_accept_def [abs_def])

subsection \<open>What a load checks\<close>

lemma windows_any:
  assumes "m \<noteq> []"
  shows "m \<in> set (windows (length m) bs) \<longleftrightarrow> (\<exists>a b. bs = a @ m @ b)"
proof
  assume "m \<in> set (windows (length m) bs)"
  then obtain i where i: "m = take (length m) (drop i bs)" by (auto simp: windows_def)
  have "bs = take i bs @ take (length m) (drop i bs) @ drop (length m) (drop i bs)"
    by (simp only: append_take_drop_id)
  then have "bs = take i bs @ m @ drop (length m) (drop i bs)" by (simp only: i [symmetric])
  then show "\<exists>a b. bs = a @ m @ b" by blast
next
  assume "\<exists>a b. bs = a @ m @ b"
  then obtain a b where bs: "bs = a @ m @ b" by blast
  then have "take (length m) (drop (length a) bs) = m" "length a < Suc (length bs) - length m" by simp_all
  then show "m \<in> set (windows (length m) bs)" unfolding windows_def by force
qed

lemma contains_pem_header_iff: "contains_pem_header bs \<longleftrightarrow> (\<exists>a b. bs = a @ pem_marker @ b)"
  using windows_any [of pem_marker bs] by (auto simp: contains_pem_header_def list_ex_iff pem_marker_def)

lemma build_endpoints_iff:
  "build_endpoints p expected mux_enabled roots cert key = Inr generation \<longleftrightarrow>
     (\<forall>ca \<in> set roots. is_ok (root_add p ca)) \<and> is_ok (client_verifier p roots)
     \<and> is_ok (single_cert p cert key) \<and> is_ok (client_auth_cert p cert key)
     \<and> generation = (let alpn = if mux_enabled then alpn_protocols else legacy_alpn_protocols in
         \<lparr>gen_client = \<lparr>client_checks = SpiffeServerVerifier_new roots (trust_domain expected),
                          client_auth = Some (cert, key), client_alpn = alpn\<rparr>,
          gen_server = \<lparr>server_roots = roots, server_cert = cert, server_key = key, server_alpn = alpn\<rparr>\<rparr>)"
  by (auto simp: build_endpoints_def Let_def and_then_Inr_iff TlsServer_new_def with_client_auth_def
      static_source.server_alpn_iff static_source.client_auth_alpn_iff with_ca_bundle_domain)

lemma verify_server_cert_returns: "pki_utf8 p \<Longrightarrow> verify_server_cert p v ee ints now \<noteq> None"
  by (simp add: verify_server_cert_def spiffe_id_from_cert_der_spec split: sum.splits)

lemma build_generation_returns: "pki_utf8 p \<Longrightarrow> build_generation p w paths expected mux \<noteq> None"
proof -
  assume utf8: "pki_utf8 p"
  have spiffe: "spiffe_id_from_cert_der p der \<noteq> None" for der
    by (simp add: spiffe_id_from_cert_der_spec [OF utf8])
  note verify = verify_server_cert_returns [OF utf8]
  have "build_generation p w paths expected mux = None \<Longrightarrow> False"
    unfolding build_generation_def using spiffe verify
    by (auto split: sum.splits prod.splits bind_splits if_splits simp del: not_None_eq)
  then show ?thesis by blast
qed

lemma build_generation_iff:
  assumes utf8: "pki_utf8 p"
  shows "build_generation p w paths expected mux = Some (Inr generation) \<longleftrightarrow>
    (\<exists>roots cert ints key. read_credentials w paths = Inr (roots, cert, ints, key)
       \<and> spiffe_id_from_cert_der p cert = Some (Inr expected)
       \<and> is_ok (cw_server_name w ''reload.invalid'')
       \<and> verify_server_cert p (SpiffeServerVerifier_new roots (trust_domain expected)) cert ints (cw_now w) = Some (Inr ())
       \<and> build_endpoints p expected mux roots cert key = Inr generation)"
proof (cases "read_credentials w paths")
  case (Inl e)
  then show ?thesis by (simp add: build_generation_def)
next
  case (Inr c)
  obtain roots cert ints key where c: "c = (roots, cert, ints, key)" by (cases c) auto
  obtain r where r: "spiffe_id_from_cert_der p cert = Some r" using spiffe_id_from_cert_der_spec [OF utf8] by blast
  have roots: "build_endpoints p expected mux roots cert key = Inr generation \<Longrightarrow> add_roots p [] roots = Inr roots"
    by (simp add: build_endpoints_iff add_roots_ok_iff)
  show ?thesis
  proof (cases "add_roots p [] roots")
    case (Inl e)
    with roots Inr c r show ?thesis by (cases r) (auto simp: build_generation_def)
  next
    case store: (Inr store)
    then have "store = roots" by (simp add: add_roots_ok_iff)
    moreover obtain v where
      "verify_server_cert p (SpiffeServerVerifier_new roots (trust_domain expected)) cert ints (cw_now w) = Some v"
      using verify_server_cert_returns [OF utf8] by blast
    ultimately show ?thesis
      using store Inr c r by (cases r; cases v) (auto simp: build_generation_def is_ok_iff split: sum.splits)
  qed
qed

subsection \<open>Every generation that is ever served\<close>

inductive reloader_reachable ::
  "pki \<Rightarrow> TlsCredentialPaths \<Rightarrow> SpiffeId \<Rightarrow> bool \<Rightarrow> TlsCredentialReloader \<Rightarrow> bool"
  for p :: pki and paths :: TlsCredentialPaths and expected :: SpiffeId and mux :: bool where
  loaded: "reloader_load p w paths expected mux = Some (Inr self) \<Longrightarrow> reloader_reachable p paths expected mux self"
| reloaded: "reloader_reachable p paths expected mux self \<Longrightarrow> reload p w self = Some (r, self') \<Longrightarrow>
    reloader_reachable p paths expected mux self'"

definition sound_generation :: "pki \<Rightarrow> SpiffeId \<Rightarrow> bool \<Rightarrow> TlsGeneration \<Rightarrow> bool" where
  "sound_generation p expected mux generation =
     (\<exists>roots cert ints key now alpn. alpn = (if mux then alpn_protocols else legacy_alpn_protocols)
        \<and> gen_client generation = \<lparr>client_checks = SpiffeServerVerifier_new roots (trust_domain expected),
                                    client_auth = Some (cert, key), client_alpn = alpn\<rparr>
        \<and> gen_server generation = \<lparr>server_roots = roots, server_cert = cert, server_key = key, server_alpn = alpn\<rparr>
        \<and> spiffe_id_from_cert_der p cert = Some (Inr expected)
        \<and> is_ok (path_validate p cert roots ints now)
        \<and> is_ok (single_cert p cert key) \<and> is_ok (client_auth_cert p cert key))"

lemma load_generation_sound:
  assumes utf8: "pki_utf8 p" and "load_generation p w paths expected mux = Some (Inr generation)"
  shows "sound_generation p expected mux generation"
proof -
  have "build_generation p w paths expected mux = Some (Inr generation)"
    using assms(2) by (auto simp: load_generation_def split: option.splits)
  then obtain roots cert ints key where g: "spiffe_id_from_cert_der p cert = Some (Inr expected)"
    "verify_server_cert p (SpiffeServerVerifier_new roots (trust_domain expected)) cert ints (cw_now w) = Some (Inr ())"
    "build_endpoints p expected mux roots cert key = Inr generation"
    unfolding build_generation_iff [OF utf8] by blast
  have "is_ok (path_validate p cert roots ints (cw_now w))"
    using g(2) by (simp add: verify_server_cert_ok_iff [OF utf8] SpiffeServerVerifier_new_def)
  with g show ?thesis
    unfolding sound_generation_def build_endpoints_iff
    by (intro exI [of _ roots] exI [of _ cert] exI [of _ ints] exI [of _ key] exI [of _ "cw_now w"]
        exI [of _ "if mux then alpn_protocols else legacy_alpn_protocols"]) (simp add: Let_def)
qed

lemma reload_cases:
  assumes "reload p w self = Some (r, self')"
  shows "self' = self \<or> (\<exists>generation.
    load_generation p w (rl_paths self) (rl_expected_identity self) (rl_mux_enabled self) = Some (Inr generation)
    \<and> self' = self\<lparr>rl_generation := generation\<rparr>)"
proof -
  obtain y where "load_generation p w (rl_paths self) (rl_expected_identity self) (rl_mux_enabled self) = Some y"
    using assms by (auto simp: reload_def bind_eq_Some_conv)
  with assms show ?thesis by (cases y) (auto simp: reload_def)
qed

lemma reloader_reachable_sound:
  assumes "reloader_reachable p paths expected mux self" and "pki_utf8 p"
  shows "rl_paths self = paths \<and> rl_expected_identity self = expected \<and> rl_mux_enabled self = mux
    \<and> sound_generation p expected mux (rl_generation self)"
  using assms(1)
proof induction
  case (loaded w self)
  then show ?case
    using load_generation_sound [OF assms(2)] by (auto simp: reloader_load_def bind_eq_Some_conv and_then_Inr_iff)
next
  case (reloaded self w r self')
  then show ?case using reload_cases [OF reloaded(2)] load_generation_sound [OF assms(2)] by auto
qed

lemma reloader_peer_domain:
  assumes "reloader_reachable p paths expected mux self" and "tls_ok p g"
    and "honours_verifier p (gen_client (rl_generation self)) out"
    and "reloader_connect p keep net out self addr g = Some (Inr ts, g')"
  shows "trust_domain (ts_peer_identity ts) = trust_domain expected"
proof -
  have "sv_trust_domain (client_checks (gen_client (rl_generation self))) = trust_domain expected"
    using reloader_reachable_sound [OF assms(1)] assms(2)
    by (auto simp: tls_ok_def sound_generation_def SpiffeServerVerifier_new_def)
  then show ?thesis using client_peer_verified [OF assms(2,3)] assms(4) by (simp add: reloader_connect_def)
qed

subsection \<open>Properties\<close>

text \<open>
  C14. A reload is all or nothing: it always returns; on any error (a missing or empty file, bad PEM,
  a foreign identity, an invalid chain, a key that does not fit) the reloader is left exactly as it
  was, so handshakes keep using the old credentials; on success only the generation is replaced,
  by one built in full from the files read.
\<close>

theorem reload_all_or_nothing:
  assumes "pki_utf8 p"
  shows "\<exists>r self'. reload p w self = Some (r, self') \<and>
    (\<forall>e. r = Inl e \<longrightarrow> self' = self
       \<and> reloader_accept p keep out self' = reloader_accept p keep out self) \<and>
    (r = Inr () \<longrightarrow> cw_join_error w = None \<and> (\<exists>generation.
       build_generation p w (rl_paths self) (rl_expected_identity self) (rl_mux_enabled self) = Some (Inr generation)
       \<and> self' = self\<lparr>rl_generation := generation\<rparr>))"
proof -
  obtain r where r: "load_generation p w (rl_paths self) (rl_expected_identity self) (rl_mux_enabled self) = Some r"
    using build_generation_returns [OF assms, of w "rl_paths self" "rl_expected_identity self" "rl_mux_enabled self"]
    by (cases "cw_join_error w") (auto simp: load_generation_def)
  then show ?thesis
    by (cases r) (auto simp: reload_def load_generation_def split: option.splits)
qed

text \<open>
  C13. Whatever sequence of loads and reloads, with whatever files, every generation that handshakes
  are served from is sound: its client and its server present the same certificate and key, the
  certificate carries exactly the configured identity and chains, at some time, to the very roots
  peers are checked against, peers must be of the configured trust domain, and the multiplexing protocol is
  offered exactly if it is enabled.
\<close>

theorem served_credentials_sound:
  assumes "reloader_reachable p paths expected mux self" and "pki_utf8 p"
  shows "(\<exists>cert key roots ints now. client_auth (gen_client (rl_generation self)) = Some (cert, key)
       \<and> server_cert (gen_server (rl_generation self)) = cert \<and> server_key (gen_server (rl_generation self)) = key
       \<and> server_roots (gen_server (rl_generation self)) = roots
       \<and> client_checks (gen_client (rl_generation self)) = SpiffeServerVerifier_new roots (trust_domain expected)
       \<and> spiffe_id_from_cert_der p cert = Some (Inr expected) \<and> is_ok (path_validate p cert roots ints now))
    \<and> (ALPN_MUX \<in> set (client_alpn (gen_client (rl_generation self))) \<longleftrightarrow> mux)
    \<and> (ALPN_MUX \<in> set (server_alpn (gen_server (rl_generation self))) \<longleftrightarrow> mux)"
proof -
  have "ALPN_MUX \<notin> set legacy_alpn_protocols" "ALPN_MUX \<in> set alpn_protocols"
    by (simp_all add: ALPN_MUX_def legacy_alpn_protocols_def alpn_protocols_def)
  moreover obtain roots cert ints key now alpn where "alpn = (if mux then alpn_protocols else legacy_alpn_protocols)"
    "gen_client (rl_generation self) = \<lparr>client_checks = SpiffeServerVerifier_new roots (trust_domain expected),
       client_auth = Some (cert, key), client_alpn = alpn\<rparr>"
    "gen_server (rl_generation self) = \<lparr>server_roots = roots, server_cert = cert, server_key = key, server_alpn = alpn\<rparr>"
    "spiffe_id_from_cert_der p cert = Some (Inr expected)" "is_ok (path_validate p cert roots ints now)"
    using reloader_reachable_sound [OF assms] unfolding sound_generation_def by blast
  ultimately show ?thesis by (cases mux) fastforce+
qed

definition sample_creds :: cred_world where
  "sample_creds = \<lparr>cw_env_os = (\<lambda>_. None), cw_temp_dir = ''/tmp'',
     cw_read = (\<lambda>_ path. if path = ''ca'' then Inr ''root'' else if path = ''crt'' then Inr ''leaf''
        else if path = ''key'' then Inr ''secret'' else Inl \<lparr>io_kind = OsKind 2, io_text = ''missing''\<rparr>),
     cw_pem_certs = (\<lambda>_. []), cw_pem_key = (\<lambda>_. Inr None), cw_server_name = (\<lambda>_. Inr ()), cw_now = 0,
     cw_join_error = None\<rparr>"

definition sample_paths :: TlsCredentialPaths where
  "sample_paths = TlsCredentialPaths_new ''ca'' ''crt'' ''key''"

lemma sample_load:
  "\<exists>self. reloader_load sample_pki sample_creds sample_paths sample_id True = Some (Inr self)
     \<and> server_cert (gen_server (rl_generation self)) = ''leaf''"
proof -
  have read: "read_credentials sample_creds sample_paths = Inr ([''root''], ''leaf'', [], ''secret'')" by code_simp
  have verify: "verify_server_cert sample_pki (SpiffeServerVerifier_new [''root''] (trust_domain sample_id)) ''leaf'' [] 0 =
      Some (Inr ())" by code_simp
  have fields: "root_add sample_pki ca = Inr ()" "client_auth_cert sample_pki c k = Inr ()"
    "single_cert sample_pki c k = Inr ()" "client_verifier sample_pki cas = Inr ()"
    "cw_server_name sample_creds n = Inr ()" "cw_now sample_creds = 0" "cw_join_error sample_creds = None"
    for ca c k cas n by (simp_all add: sample_pki_def sample_creds_def)
  show ?thesis
    by (simp add: reloader_load_def load_generation_def build_generation_def read sample_cert verify fields
        build_endpoints_def TlsServer_new_def TlsServer_new_with_alpn_def with_client_auth_def
        with_client_auth_alpn_def with_ca_bundle_def static_provider_def TrustDomain_new_def)
qed

theorem reload_all_or_nothing_witness:
  "\<exists>self e. reload sample_pki (sample_creds\<lparr>cw_join_error := Some ''cancelled''\<rparr>) self = Some (Inl e, self)"
proof -
  obtain self where "reloader_load sample_pki sample_creds sample_paths sample_id True = Some (Inr self)"
    using sample_load by blast
  let ?w = "sample_creds\<lparr>cw_join_error := Some ''cancelled''\<rparr>"
  from reload_all_or_nothing [OF sample_pki_utf8, of ?w self] obtain r self' where
    r: "reload sample_pki ?w self = Some (r, self')" "\<And>e. r = Inl e \<Longrightarrow> self' = self" "r = Inr () \<Longrightarrow> cw_join_error ?w = None"
    by blast
  then show ?thesis by (cases r) auto
qed

theorem served_credentials_sound_witness:
  "\<exists>self. reloader_reachable sample_pki sample_paths sample_id True self
     \<and> ALPN_MUX \<in> set (server_alpn (gen_server (rl_generation self)))"
proof -
  obtain self where "reloader_load sample_pki sample_creds sample_paths sample_id True = Some (Inr self)"
    using sample_load by blast
  then have "reloader_reachable sample_pki sample_paths sample_id True self" by (rule reloader_reachable.loaded)
  with served_credentials_sound [OF this sample_pki_utf8] show ?thesis by blast
qed

end
