(* ===== verification/Admin.thy ===== *)
theory Admin
  imports Reload Proxy_Common
begin

text \<open>
  \<open>src/admin/mod.rs\<close>: the administrative HTTP server. A \<open>dyn ReloadHandler\<close> is a function on the
  state \<open>'s\<close> it reloads; the bytes a request arrives with and the order of accepts and shutdown are
  the inputs. \<open>handle_request\<close> makes one read into a buffer of 1024 bytes; what it does with what was
  read does not depend on that bound, and the theorems hold of any number of bytes.
\<close>

record 's AdminServer =
  admin_port :: "16 word"
  admin_ready :: bool
  admin_shutdown :: "bool option"
  reload_handler :: "('s \<Rightarrow> ((InterlinkError, unit) result \<times> 's) panicky) option"

definition crlf :: bytes where
  "crlf = [CHR 0x0D, CHR 0x0A]"

definition HEALTH_RESPONSE :: bytes where
  "HEALTH_RESPONSE = ''HTTP/1.1 200 OK'' @ crlf @ ''Content-Type: text/plain'' @ crlf @ ''Content-Length: 2'' @ crlf
     @ ''Connection: close'' @ crlf @ crlf @ ''ok''"

definition READY_RESPONSE :: bytes where
  "READY_RESPONSE = ''HTTP/1.1 200 OK'' @ crlf @ ''Content-Type: text/plain'' @ crlf @ ''Content-Length: 5'' @ crlf
     @ ''Connection: close'' @ crlf @ crlf @ ''ready''"

definition NOT_READY_RESPONSE :: bytes where
  "NOT_READY_RESPONSE = ''HTTP/1.1 503 Service Unavailable'' @ crlf @ ''Content-Type: text/plain'' @ crlf
     @ ''Content-Length: 9'' @ crlf @ ''Connection: close'' @ crlf @ crlf @ ''not ready''"

definition RELOAD_RESPONSE :: bytes where
  "RELOAD_RESPONSE = ''HTTP/1.1 200 OK'' @ crlf @ ''Content-Type: text/plain'' @ crlf @ ''Content-Length: 15'' @ crlf
     @ ''Connection: close'' @ crlf @ crlf @ ''reload complete''"

definition RELOAD_FAILED_RESPONSE :: bytes where
  "RELOAD_FAILED_RESPONSE = ''HTTP/1.1 500 Internal Server Error'' @ crlf @ ''Content-Type: text/plain'' @ crlf
     @ ''Content-Length: 13'' @ crlf @ ''Connection: close'' @ crlf @ crlf @ ''reload failed''"

definition RELOAD_UNAVAILABLE_RESPONSE :: bytes where
  "RELOAD_UNAVAILABLE_RESPONSE = ''HTTP/1.1 503 Service Unavailable'' @ crlf @ ''Content-Type: text/plain'' @ crlf
     @ ''Content-Length: 18'' @ crlf @ ''Connection: close'' @ crlf @ crlf @ ''reload unavailable''"

definition NOT_FOUND_RESPONSE :: bytes where
  "NOT_FOUND_RESPONSE = ''HTTP/1.1 404 Not Found'' @ crlf @ ''Content-Type: text/plain'' @ crlf
     @ ''Content-Length: 9'' @ crlf @ ''Connection: close'' @ crlf @ crlf @ ''not found''"

definition AdminServer_new :: "'s AdminServer" where
  "AdminServer_new = \<lparr>admin_port = ADMIN_PORT, admin_ready = True, admin_shutdown = None, reload_handler = None\<rparr>"

definition admin_with_port :: "'s AdminServer \<Rightarrow> 16 word \<Rightarrow> 's AdminServer" where
  "admin_with_port self port = self\<lparr>admin_port := port\<rparr>"

definition admin_with_shutdown :: "'s AdminServer \<Rightarrow> bool \<Rightarrow> 's AdminServer" where
  "admin_with_shutdown self current = self\<lparr>admin_shutdown := Some current\<rparr>"

definition with_reload_handler ::
  "'s AdminServer \<Rightarrow> ('s \<Rightarrow> ((InterlinkError, unit) result \<times> 's) panicky) \<Rightarrow> 's AdminServer" where
  "with_reload_handler self h = self\<lparr>reload_handler := Some h\<rparr>"

definition set_ready :: "'s AdminServer \<Rightarrow> bool \<Rightarrow> 's AdminServer" where
  "set_ready self b = self\<lparr>admin_ready := b\<rparr>"

text \<open>The non-empty words of the first line; the method and the path are the first two.\<close>

definition request_words :: "bytes \<Rightarrow> bytes list" where
  "request_words buf =
     (let first_line = hd (split_on (\<lambda>b. b = CHR 0x0A) buf) in
      filter (\<lambda>part. part \<noteq> []) (split_on is_ascii_whitespace first_line))"

definition next_word :: "nat \<Rightarrow> bytes list \<Rightarrow> bytes" where
  "next_word n parts = (if n < length parts then parts ! n else [])"

definition handle_request ::
  "'s AdminServer \<Rightarrow> (IoError, bytes) result \<Rightarrow> 's \<Rightarrow> (bytes option \<times> 's) panicky" where
  "handle_request self received s =
     (case received of
        Inl _ \<Rightarrow> Some (None, s)
      | Inr buf \<Rightarrow>
          if buf = [] then Some (None, s)
          else
            (let parts = request_words buf; request_method = next_word 0 parts; path = next_word 1 parts in
             if request_method = ''GET'' \<and> path = ''/healthz'' then Some (Some HEALTH_RESPONSE, s)
             else if request_method = ''GET'' \<and> path = ''/readyz''
               then Some (Some (if admin_ready self then READY_RESPONSE else NOT_READY_RESPONSE), s)
             else if request_method = ''POST'' \<and> path = ''/reload''
               then (case reload_handler self of
                       Some reload_it \<Rightarrow> do {
                         (r, s') \<leftarrow> reload_it s;
                         Some (Some (case r of Inr _ \<Rightarrow> RELOAD_RESPONSE | Inl _ \<Rightarrow> RELOAD_FAILED_RESPONSE), s')
                       }
                     | None \<Rightarrow> Some (Some RELOAD_UNAVAILABLE_RESPONSE, s))
             else Some (Some NOT_FOUND_RESPONSE, s)))"

text \<open>
  \<open>run\<close>: the server gives up if it cannot bind; otherwise it spawns one handler per accepted
  connection, survives accept errors, and stops at the first shutdown event.
\<close>

datatype admin_event = Accepted | AcceptError | ShutdownSeen

fun admin_loop :: "admin_event list \<Rightarrow> nat \<times> bool" where
  "admin_loop [] = (0, False)"
| "admin_loop (Accepted # evs) = (case admin_loop evs of (n, stopped) \<Rightarrow> (Suc n, stopped))"
| "admin_loop (AcceptError # evs) = admin_loop evs"
| "admin_loop (ShutdownSeen # evs) = (0, True)"

definition admin_run :: "(IoError, unit) result \<Rightarrow> admin_event list \<Rightarrow> nat \<times> bool" where
  "admin_run bound evs = (case bound of Inl _ \<Rightarrow> (0, True) | Inr _ \<Rightarrow> admin_loop evs)"

text \<open>A fresh clone of the receiver resolves on the first change or on a dropped sender.\<close>

definition admin_wait_shutdown :: "bool option \<Rightarrow> watch_event list \<Rightarrow> watch_event list option" where
  "admin_wait_shutdown shutdown evs =
     (case shutdown of
        Some _ \<Rightarrow> (case evs of [] \<Rightarrow> None | _ # evs' \<Rightarrow> Some evs')
      | None \<Rightarrow> None)"

subsection \<open>Reading the request line\<close>

lemma hd_split_on: "hd (split_on P s) = takeWhile (\<lambda>c. \<not> P c) s"
proof (induction s)
  case (Cons c s)
  then show ?case by (cases "split_on P s") auto
qed simp

lemma whitespace_newline [simp]: "is_ascii_whitespace (CHR 0x0A)" "is_ascii_whitespace (CHR '' '')"
  by (simp_all add: is_ascii_whitespace_def byte_def)

definition word_ok :: "bytes \<Rightarrow> bool" where
  "word_ok m = (m \<noteq> [] \<and> list_all (\<lambda>c. \<not> is_ascii_whitespace c) m)"

lemma word_no_newline: "word_ok m \<Longrightarrow> c \<in> set m \<Longrightarrow> c \<noteq> CHR 0x0A"
  by (auto simp: word_ok_def list_all_iff)

lemma request_words_line:
  assumes "word_ok m" and "word_ok q"
  shows "\<exists>ws. request_words (m @ '' '' @ q @ '' '' @ rest) = m # q # ws"
proof -
  have "takeWhile (\<lambda>c. c \<noteq> CHR 0x0A) (m @ '' '' @ q @ '' '' @ rest) =
      m @ CHR '' '' # q @ CHR '' '' # takeWhile (\<lambda>c. c \<noteq> CHR 0x0A) rest"
    using word_no_newline assms by (auto simp: takeWhile_append2)
  then show ?thesis
    using assms by (simp add: request_words_def hd_split_on word_ok_def split_on_class)
qed

subsection \<open>Reloading through the server\<close>

text \<open>
  The contract of a reload handler: it returns, keeps the invariant of what it reloads, and leaves
  it alone when it fails. A server with such a handler changes that state only on a request to
  reload that succeeds.
\<close>

locale reload_contract =
  fixes do_reload :: "'s \<Rightarrow> ((InterlinkError, unit) result \<times> 's) panicky"
    and ok :: "'s \<Rightarrow> bool"
  assumes reload_returns: "ok s \<Longrightarrow> \<exists>r s'. do_reload s = Some (r, s') \<and> ok s'"
    and reload_keeps: "do_reload s = Some (Inl e, s') \<Longrightarrow> s' = s"
begin

lemma request_guarded:
  assumes "ok s" and "reload_handler self = Some do_reload"
  shows "\<exists>resp s'. handle_request self received s = Some (resp, s') \<and> ok s' \<and>
    (s' \<noteq> s \<longrightarrow> resp = Some RELOAD_RESPONSE \<and> do_reload s = Some (Inr (), s')
       \<and> (\<exists>buf. received = Inr buf \<and> next_word 0 (request_words buf) = ''POST''
                \<and> next_word 1 (request_words buf) = ''/reload''))"
proof -
  obtain r s' where r: "do_reload s = Some (r, s')" "ok s'" using reload_returns [OF assms(1)] by blast
  moreover have "r = Inl e \<Longrightarrow> s' = s" for e using reload_keeps r by blast
  ultimately show ?thesis
    using assms by (cases r; cases received) (auto simp: handle_request_def Let_def)
qed

end

interpretation credential_reload: reload_contract "reload p w"
    "\<lambda>self. pki_utf8 p \<and> reloader_reachable p paths expected mux self" for p w paths expected mux
proof
  fix s assume ok: "pki_utf8 p \<and> reloader_reachable p paths expected mux s"
  then obtain r where "build_generation p w (rl_paths s) (rl_expected_identity s) (rl_mux_enabled s) = Some r"
    using build_generation_returns by blast
  then obtain r s' where "reload p w s = Some (r, s')"
    by (cases "cw_join_error w"; cases r) (auto simp: reload_def load_generation_def)
  with ok show "\<exists>r s'. reload p w s = Some (r, s') \<and> pki_utf8 p \<and> reloader_reachable p paths expected mux s'"
    using reloader_reachable.reloaded by blast
next
  fix s e s' assume "reload p w s = Some (Inl e, s')"
  then obtain y where y: "load_generation p w (rl_paths s) (rl_expected_identity s) (rl_mux_enabled s) = Some y"
    "(case y of Inl e \<Rightarrow> (Inl e, s) | Inr g \<Rightarrow> (Inr (), s\<lparr>rl_generation := g\<rparr>)) = (Inl e, s')"
    by (auto simp: reload_def bind_eq_Some_conv)
  then show "s' = s" by (cases y) auto
qed

subsection \<open>Properties\<close>

text \<open>A response as it must be framed: the length announced is the length of the body.\<close>

definition http_text :: "string \<Rightarrow> string \<Rightarrow> bytes" where
  "http_text status body =
     ''HTTP/1.1 '' @ status @ crlf @ ''Content-Type: text/plain'' @ crlf @ ''Content-Length: '' @ show_nat (length body)
     @ crlf @ ''Connection: close'' @ crlf @ crlf @ body"

lemma responses_framed:
  "HEALTH_RESPONSE = http_text ''200 OK'' ''ok''" "READY_RESPONSE = http_text ''200 OK'' ''ready''"
  "NOT_READY_RESPONSE = http_text ''503 Service Unavailable'' ''not ready''"
  "RELOAD_RESPONSE = http_text ''200 OK'' ''reload complete''"
  "RELOAD_FAILED_RESPONSE = http_text ''500 Internal Server Error'' ''reload failed''"
  "RELOAD_UNAVAILABLE_RESPONSE = http_text ''503 Service Unavailable'' ''reload unavailable''"
  "NOT_FOUND_RESPONSE = http_text ''404 Not Found'' ''not found''"
  by code_simp+

text \<open>
  C32. The admin server answers every request line: for a method and a path separated by blanks,
  whatever follows them, the health probe is always answered, the readiness probe by the ready
  flag, a reload by its outcome or as unavailable without a handler, and everything else as not
  found; each answer announces the length of its body, and only the reload touches the state.
\<close>

theorem admin_answers:
  assumes "word_ok m" and "word_ok q" and "\<forall>h. reload_handler self = Some h \<longrightarrow> h s \<noteq> None"
  shows "handle_request self (Inr (m @ '' '' @ q @ '' '' @ rest)) s =
    (if m = ''GET'' \<and> q = ''/healthz'' then Some (Some (http_text ''200 OK'' ''ok''), s)
     else if m = ''GET'' \<and> q = ''/readyz''
       then Some (Some (if admin_ready self then http_text ''200 OK'' ''ready''
                        else http_text ''503 Service Unavailable'' ''not ready''), s)
     else if m = ''POST'' \<and> q = ''/reload''
       then (case reload_handler self of
               None \<Rightarrow> Some (Some (http_text ''503 Service Unavailable'' ''reload unavailable''), s)
             | Some h \<Rightarrow> Some (Some (if is_ok (fst (the (h s))) then http_text ''200 OK'' ''reload complete''
                                     else http_text ''500 Internal Server Error'' ''reload failed''), snd (the (h s))))
     else Some (Some (http_text ''404 Not Found'' ''not found''), s))"
proof -
  obtain ws where ws: "request_words (m @ '' '' @ q @ '' '' @ rest) = m # q # ws"
    using request_words_line [OF assms(1,2)] by blast
  let ?buf = "m @ '' '' @ q @ '' '' @ rest"
  have w: "next_word 0 (request_words ?buf) = m" "next_word 1 (request_words ?buf) = q" "?buf \<noteq> []"
    by (simp_all only: ws next_word_def) simp_all
  show ?thesis
  proof (cases "reload_handler self")
    case None
    then show ?thesis by (simp only: handle_request_def sum.case w if_False Let_def responses_framed option.case)
  next
    case (Some h)
    then obtain r s' where h: "h s = Some (r, s')" using assms(3) by fastforce
    show ?thesis
      by (cases r) (simp_all only: handle_request_def sum.case w if_False Let_def responses_framed option.case Some h
          bind.bind_lunit prod.case is_ok_simps option.sel fst_conv snd_conv if_True)
  qed
qed

theorem admin_answers_witness:
  "handle_request (set_ready AdminServer_new False :: unit AdminServer)
     (Inr (''GET /readyz HTTP/1.1'' @ crlf)) () =
   Some (Some (http_text ''503 Service Unavailable'' ''not ready''), ())"
proof -
  have "word_ok ''GET''" "word_ok ''/readyz''" by code_simp+
  from admin_answers [OF this, of "set_ready AdminServer_new False :: unit AdminServer" "()" "''HTTP/1.1'' @ crlf"]
  show ?thesis by (simp add: set_ready_def AdminServer_new_def)
qed

text \<open>
  C31. Reloading through the admin server is guarded: with the credential reloader as its handler,
  no request of whatever bytes can make it fail or leave unsound credentials in service, and the
  credentials change only for a \<open>POST /reload\<close> whose reload succeeded, which is the one answered
  as complete.
\<close>

theorem admin_reload_guarded:
  assumes "pki_utf8 p" and "reloader_reachable p paths expected mux creds"
    and "reload_handler self = Some (reload p w)"
  shows "\<exists>resp creds'. handle_request self received creds = Some (resp, creds')
    \<and> reloader_reachable p paths expected mux creds'
    \<and> sound_generation p expected mux (rl_generation creds') \<and>
    (creds' \<noteq> creds \<longrightarrow> resp = Some RELOAD_RESPONSE \<and> reload p w creds = Some (Inr (), creds')
       \<and> (\<exists>buf. received = Inr buf \<and> next_word 0 (request_words buf) = ''POST''
                \<and> next_word 1 (request_words buf) = ''/reload''))"
proof -
  have ok: "pki_utf8 p \<and> reloader_reachable p paths expected mux creds" using assms by simp
  from credential_reload.request_guarded [OF ok assms(3), of received] show ?thesis
    using reloader_reachable_sound [OF _ assms(1)] by blast
qed

theorem admin_reload_guarded_witness:
  "\<exists>creds resp creds'. handle_request (with_reload_handler AdminServer_new (reload sample_pki sample_creds))
      (Inr ''POST /reload HTTP/1.1'') creds = Some (resp, creds')
    \<and> reloader_reachable sample_pki sample_paths sample_id True creds'"
proof -
  obtain creds where "reloader_load sample_pki sample_creds sample_paths sample_id True = Some (Inr creds)"
    using sample_load by blast
  then have c: "reloader_reachable sample_pki sample_paths sample_id True creds" by (rule reloader_reachable.loaded)
  have "reload_handler (with_reload_handler AdminServer_new (reload sample_pki sample_creds)) = Some (reload sample_pki sample_creds)"
    by (simp add: with_reload_handler_def)
  from admin_reload_guarded [OF sample_pki_utf8 c this, of "Inr ''POST /reload HTTP/1.1''"] show ?thesis by blast
qed

end
