(* ===== verification/Bench_Server.thy ===== *)
theory Bench_Server
  imports Admin
begin

text \<open>
  \<open>examples/bench_server.rs\<close>: the HTTP echo server the benchmarks talk to, behind the library's TLS
  server. Besides the request parser this needs two more functions of Rust's standard library:
  \<open>str::lines\<close> and \<open>str::split_whitespace\<close>.
\<close>

subsection \<open>Lines and words\<close>

text \<open>Only a line that a newline ends loses a carriage return at its end.\<close>

definition strip_cr :: "string \<Rightarrow> string" where
  "strip_cr l = (case strip_suffix l [CHR 0x0D] of Some x \<Rightarrow> x | None \<Rightarrow> l)"

definition str_lines :: "string \<Rightarrow> string list" where
  "str_lines s =
     (let parts = split_on (\<lambda>c. c = CHR 0x0A) s in
      map strip_cr (butlast parts) @ (if last parts = [] then [] else [last parts]))"

function whitespace_fields :: "string \<Rightarrow> string \<Rightarrow> string list" where
  "whitespace_fields field [] = [field]"
| "whitespace_fields field (c # cs) =
     (case List.find (\<lambda>w. starts_with (c # cs) w) white_space of
        Some w \<Rightarrow> field # whitespace_fields [] (drop (length w) (c # cs))
      | None \<Rightarrow> whitespace_fields (field @ [c]) cs)"
  by pat_completeness auto
termination
proof (relation "measure (\<lambda>(_, s). length s)")
  fix field :: string and c :: char and cs w :: string
  assume "List.find (\<lambda>w. starts_with (c # cs) w) white_space = Some w"
  then have "w \<noteq> []" using white_space_nonempty by (auto simp: find_Some_iff)
  then show "(([], drop (length w) (c # cs)), field, c # cs) \<in> measure (\<lambda>(_, s). length s)" by (cases w) auto
qed auto

definition split_whitespace :: "string \<Rightarrow> string list" where
  "split_whitespace s = filter (\<lambda>f. f \<noteq> []) (whitespace_fields [] s)"

subsection \<open>Requests\<close>

text \<open>The headers up to the first empty line; the last \<open>Content-Length\<close> counts.\<close>

fun content_length_of :: "64 word \<Rightarrow> string list \<Rightarrow> 64 word" where
  "content_length_of n [] = n"
| "content_length_of n (line # rest) =
     (if line = [] then n
      else case strip_prefix line ''Content-Length:'' of
          Some v \<Rightarrow> content_length_of (case parse_usize (trim v) of Inr k \<Rightarrow> k | Inl _ \<Rightarrow> 0) rest
        | None \<Rightarrow> (case strip_prefix line ''content-length:'' of
            Some v \<Rightarrow> content_length_of (case parse_usize (trim v) of Inr k \<Rightarrow> k | Inl _ \<Rightarrow> 0) rest
          | None \<Rightarrow> content_length_of n rest))"

text \<open>
  Addition of \<open>usize\<close>: a panic on overflow when the build checks for it (the default of
  \<open>cargo run\<close>), wrap-around otherwise. A slice with its start behind its end, or its end behind the
  end of the data, panics in every build.
\<close>

definition add_usize :: "bool \<Rightarrow> 64 word \<Rightarrow> 64 word \<Rightarrow> 64 word panicky" where
  "add_usize checks a b = (if checks \<and> 2 ^ 64 \<le> unat a + unat b then None else Some (a + b))"

definition slice :: "bytes \<Rightarrow> nat \<Rightarrow> nat \<Rightarrow> bytes panicky" where
  "slice s a b = (if a \<le> b \<and> b \<le> length s then Some (take (b - a) (drop a s)) else None)"

definition header_end :: "bytes \<Rightarrow> nat" where
  "header_end req = (case find_str req (crlf @ crlf) of Some i \<Rightarrow> i + 4 | None \<Rightarrow> length req)"

definition handle_http_request :: "bool \<Rightarrow> bytes \<Rightarrow> (16 word \<times> bytes) panicky" where
  "handle_http_request checks req =
     (let end = header_end req; header_text = from_utf8_lossy (take end req); ls = str_lines header_text;
          first = (case ls of [] \<Rightarrow> [] | l # _ \<Rightarrow> l); parts = split_whitespace first in
      if length parts \<noteq> 3 \<or> \<not> starts_with (parts ! 2) ''HTTP/1.'' then Some (400, ''bad request'')
      else
        (let content_length = content_length_of 0 (tl ls) in
         if content_length = 0 then Some (200, [])
         else do {
           body_end \<leftarrow> add_usize checks (of_nat end) content_length;
           (if unat body_end \<le> length req
            then do {
              to \<leftarrow> add_usize checks (of_nat end) content_length;
              body \<leftarrow> slice req end (unat to);
              Some (200, body)
            }
            else Some (200, []))
         }))"

definition format_http_response :: "16 word \<Rightarrow> bytes \<Rightarrow> bytes" where
  "format_http_response status body =
     (let status_text = (if status = 200 then ''OK'' else if status = 400 then ''Bad Request'' else ''Unknown'') in
      ''HTTP/1.1 '' @ show_nat (unat status) @ '' '' @ status_text @ crlf
      @ ''Content-Length: '' @ show_nat (length body) @ crlf
      @ ''Content-Type: application/octet-stream'' @ crlf @ ''Connection: keep-alive'' @ crlf @ crlf @ body)"

text \<open>
  One connection after its handshake: what is written, given what is read and how each write goes.
  An empty read is the end of the stream; a panic ends the task, and with the release profile the
  process.
\<close>

fun bench_connection :: "bool \<Rightarrow> (bytes \<Rightarrow> (IoError, unit) result) \<Rightarrow> (IoError, bytes) result list \<Rightarrow> bytes list panicky" where
  "bench_connection checks write [] = Some []"
| "bench_connection checks write (Inl e # reads) = Some []"
| "bench_connection checks write (Inr buf # reads) =
     (if buf = [] then Some []
      else do {
        (status, body) \<leftarrow> handle_http_request checks buf;
        (let response = format_http_response status body in
         case write response of
           Inl e \<Rightarrow> Some [response]
         | Inr _ \<Rightarrow> map_option (\<lambda>rest. response # rest) (bench_connection checks write reads))
      })"

subsection \<open>Facts\<close>

lemma header_end_le: "header_end req \<le> length req"
  using find_str_Some [of req "crlf @ crlf"] by (auto simp: header_end_def crlf_def split: option.splits)

lemma add_usize_slice:
  assumes "length req < 2 ^ 63" and "e \<le> length req" and "n \<noteq> (0 :: 64 word)"
  shows "do {
           body_end \<leftarrow> add_usize checks (of_nat e) n;
           (if unat body_end \<le> length req
            then do {
              to \<leftarrow> add_usize checks (of_nat e) n;
              body \<leftarrow> slice req e (unat to);
              Some (200, body)
            }
            else Some (200, []))
         } = (if 2 ^ 64 \<le> e + unat n then None
              else if e + unat n \<le> length req then Some (200 :: 16 word, take (unat n) (drop e req)) else Some (200, []))"
proof -
  have e: "unat (of_nat e :: 64 word) = e" using assms(1,2) by (simp add: unat_of_nat)
  show ?thesis
  proof (cases "2 ^ 64 \<le> e + unat n")
    case True
    have "unat (of_nat e + n) = (e + unat n) mod 2 ^ 64" using e by (simp add: unat_word_ariths)
    also have "\<dots> = e + unat n - 2 ^ 64" using True assms(1,2) unsigned_less [where 'a = nat and w = n] by (simp add: mod_if)
    finally have "unat (of_nat e + n) < e" using True unsigned_less [where 'a = nat and w = n] by simp
    then show ?thesis using True assms(2) e by (simp add: add_usize_def slice_def)
  next
    case False
    then have "unat (of_nat e + n) = e + unat n" using e by (simp add: unat_word_ariths)
    then show ?thesis using False e by (simp add: add_usize_def slice_def)
  qed
qed

subsection \<open>Properties\<close>

definition request_line_ok :: "bytes \<Rightarrow> bool" where
  "request_line_ok req =
     (\<exists>m t v. split_whitespace (case str_lines (from_utf8_lossy (take (header_end req) req)) of [] \<Rightarrow> [] | l # _ \<Rightarrow> l) = [m, t, v]
        \<and> starts_with v ''HTTP/1.'')"

definition declared_length :: "bytes \<Rightarrow> nat" where
  "declared_length req = unat (content_length_of 0 (tl (str_lines (from_utf8_lossy (take (header_end req) req)))))"

text \<open>
  C40. The benchmark server answers every request, with one exception, whether or not the build checks
  for overflow: a bad request line gets 400, otherwise the answer is the declared body if all of
  it has arrived and empty if not; but a \<open>Content-Length\<close> that together with the header's length
  reaches 2 to the 64 makes the server panic.
\<close>

theorem bench_answers:
  assumes "length req < 2 ^ 63"
  shows "handle_http_request checks req =
    (if \<not> request_line_ok req then Some (400, ''bad request'')
     else if 2 ^ 64 \<le> header_end req + declared_length req then None
     else if header_end req + declared_length req \<le> length req
       then Some (200, take (declared_length req) (drop (header_end req) req))
     else Some (200, []))"
proof -
  let ?ls = "str_lines (from_utf8_lossy (take (header_end req) req))"
  let ?parts = "split_whitespace (case ?ls of [] \<Rightarrow> [] | l # _ \<Rightarrow> l)"
  let ?n = "content_length_of 0 (tl ?ls)"
  have ok: "request_line_ok req \<longleftrightarrow> length ?parts = 3 \<and> starts_with (?parts ! 2) ''HTTP/1.''"
    unfolding request_line_ok_def by (auto simp: length_Suc_conv numeral_3_eq_3)
  have zero: "?n = 0 \<Longrightarrow> header_end req + declared_length req \<le> length req \<and> take (declared_length req) (drop (header_end req) req) = []"
    using header_end_le by (simp add: declared_length_def)
  show ?thesis
  proof (cases "request_line_ok req \<and> ?n \<noteq> 0")
    case True
    then show ?thesis
      using ok add_usize_slice [OF assms header_end_le, of ?n checks]
      by (simp add: handle_http_request_def Let_def declared_length_def)
  next
    case False
    have "\<not> 2 ^ 64 \<le> length req" using assms by simp
    then show ?thesis
      using False ok zero header_end_le [of req]
      by (auto simp: handle_http_request_def Let_def declared_length_def)
  qed
qed

text \<open>A request whose declared length is the largest \<open>usize\<close>.\<close>

definition sample_request :: bytes where
  "sample_request = ''G / HTTP/1.1'' @ crlf @ ''Content-Length:18446744073709551615'' @ crlf @ crlf"

lemma sample_request_parts:
  "find_str sample_request (crlf @ crlf) = Some 49" "length sample_request = 53"
  "str_lines sample_request = [''G / HTTP/1.1'', ''Content-Length:18446744073709551615'', []]"
  "split_whitespace ''G / HTTP/1.1'' = [''G'', ''/'', ''HTTP/1.1'']" "starts_with ''HTTP/1.1'' ''HTTP/1.''"
  "strip_prefix ''Content-Length:18446744073709551615'' ''Content-Length:'' = Some ''18446744073709551615''"
  "trim ''18446744073709551615'' = ''18446744073709551615''" "from_utf8_lossy sample_request = sample_request"
  by code_simp+

lemma sample_request_length: "parse_usize ''18446744073709551615'' = Inr (- 1)"
  by (simp add: parse_usize_def parse_unsigned_def is_ascii_digit_def byte_def)

theorem bench_answers_witness:
  "handle_http_request True sample_request = None \<and> handle_http_request False sample_request = None"
proof -
  have e: "header_end sample_request = 53" "take 53 sample_request = sample_request"
    using sample_request_parts(1,2) by (simp_all add: header_end_def)
  have ok: "request_line_ok sample_request" using e sample_request_parts by (simp add: request_line_ok_def)
  have "declared_length sample_request = unat (- 1 :: 64 word)"
    using e sample_request_parts sample_request_length by (simp add: declared_length_def)
  also have "\<dots> = 2 ^ 64 - 1" by (simp add: unsigned_minus_1_eq_mask mask_eq_exp_minus_1)
  finally have "2 ^ 64 \<le> header_end sample_request + declared_length sample_request" using e by simp
  with bench_answers [of sample_request True] bench_answers [of sample_request False] ok sample_request_parts(2) show ?thesis by simp
qed

end
