(* ===== verification/Cert_Authority.thy ===== *)
theory Cert_Authority
  imports Reload
begin

text \<open>
  \<open>src/identity/ca/mod.rs\<close>: the built-in certificate authority. Key generation, signing, the IA5
  check of names and the random source are \<open>rcgen\<close>'s and \<open>ring\<close>'s, parameters of the model in the
  record \<open>rcgen\<close>; errors carry the text those crates print. Times are in seconds.
\<close>

datatype SanType = SanURI string | SanIpAddress IpAddr | SanDnsName string
datatype DnEntry = CommonName string | OrganizationName string
datatype KeyUsagePurpose = KeyCertSign | DigitalSignature
datatype ExtendedKeyUsagePurpose = ServerAuth | ClientAuth
datatype IsCa = CaUnconstrained | ExplicitNoCa | NoCa

record CertificateParams =
  subject_alt_names :: "SanType list"
  distinguished_name :: "DnEntry list"
  key_usages :: "KeyUsagePurpose list"
  extended_key_usages :: "ExtendedKeyUsagePurpose list"
  is_ca :: IsCa
  not_before :: int
  not_after :: int
  serial_number :: "bytes option"

record rcgen =
  rg_params_new :: "(string, CertificateParams) result"
  rg_generate_key :: "(string, bytes) result"
  rg_ia5 :: "string \<Rightarrow> (string, string) result"
  rg_self_signed :: "CertificateParams \<Rightarrow> bytes \<Rightarrow> (string, bytes) result"
  rg_signed_by :: "CertificateParams \<Rightarrow> bytes \<Rightarrow> bytes \<Rightarrow> bytes \<Rightarrow> (string, bytes) result"
  rg_serialize_der :: "bytes \<Rightarrow> bytes"
  rg_random :: "nat \<Rightarrow> (string, bytes) result"
  rg_now :: int

record CertificateAuthority =
  ca_root_key :: bytes
  ca_root_cert :: bytes
  ca_root_cert_der :: bytes
  ca_trust_domain :: string

definition SERIAL_NUMBER_BYTES :: nat where
  "SERIAL_NUMBER_BYTES = 20"

definition identity_error :: "string \<Rightarrow> (string, 'a) result \<Rightarrow> (InterlinkError, 'a) result" where
  "identity_error what r = map_err (\<lambda>e. Identity (what @ '': '' @ e)) r"

definition generate_serial_number :: "rcgen \<Rightarrow> (InterlinkError, bytes) result" where
  "generate_serial_number w = identity_error ''rng'' (rg_random w SERIAL_NUMBER_BYTES)"

definition CertificateAuthority_new :: "rcgen \<Rightarrow> string \<Rightarrow> (InterlinkError, CertificateAuthority) result" where
  "CertificateAuthority_new w td =
     and_then (identity_error ''root keygen'' (rg_generate_key w)) (\<lambda>root_key.
     and_then (identity_error ''params'' (rg_params_new w)) (\<lambda>params.
     let params = params\<lparr>distinguished_name := [CommonName ''interlink CA'', OrganizationName td],
                         is_ca := CaUnconstrained, key_usages := [KeyCertSign, DigitalSignature],
                         not_before := rg_now w, not_after := rg_now w + int ROOT_CA_TTL\<rparr> in
     and_then (identity_error ''self-sign'' (rg_self_signed w params root_key)) (\<lambda>root_cert.
     Inr \<lparr>ca_root_key = root_key, ca_root_cert = root_cert, ca_root_cert_der = root_cert, ca_trust_domain = td\<rparr>)))"

text \<open>
  What \<open>issue_leaf\<close> does once the names are known, and what \<open>issue_leaf_with_key\<close> does then: the source
  has the code twice.
\<close>

definition sign_leaf ::
  "rcgen \<Rightarrow> CertificateAuthority \<Rightarrow> CertificateParams \<Rightarrow> SanType list \<Rightarrow> (InterlinkError, bytes \<times> bytes) result" where
  "sign_leaf w self params sans =
     and_then (generate_serial_number w) (\<lambda>serial.
     let params = params\<lparr>subject_alt_names := sans, distinguished_name := [], key_usages := [DigitalSignature],
                         extended_key_usages := [ServerAuth, ClientAuth], is_ca := ExplicitNoCa,
                         not_before := rg_now w, not_after := rg_now w + int LEAF_TTL,
                         serial_number := Some serial\<rparr> in
     and_then (identity_error ''leaf keygen'' (rg_generate_key w)) (\<lambda>leaf_key.
     and_then (identity_error ''sign'' (rg_signed_by w params leaf_key (ca_root_cert self) (ca_root_key self))) (\<lambda>cert.
     Inr (cert, leaf_key))))"

definition sign_leaf_with_key ::
  "rcgen \<Rightarrow> CertificateAuthority \<Rightarrow> CertificateParams \<Rightarrow> SanType list \<Rightarrow> (InterlinkError, bytes \<times> bytes) result" where
  "sign_leaf_with_key w self params sans =
     and_then (generate_serial_number w) (\<lambda>serial.
     let params = params\<lparr>subject_alt_names := sans, distinguished_name := [], key_usages := [DigitalSignature],
                         extended_key_usages := [ServerAuth, ClientAuth], is_ca := ExplicitNoCa,
                         not_before := rg_now w, not_after := rg_now w + int LEAF_TTL,
                         serial_number := Some serial\<rparr> in
     and_then (identity_error ''leaf keygen'' (rg_generate_key w)) (\<lambda>leaf_key.
     and_then (identity_error ''sign'' (rg_signed_by w params leaf_key (ca_root_cert self) (ca_root_key self))) (\<lambda>cert.
     Inr (cert, rg_serialize_der w leaf_key))))"

definition issue_leaf :: "rcgen \<Rightarrow> CertificateAuthority \<Rightarrow> SpiffeId \<Rightarrow> (InterlinkError, bytes) result" where
  "issue_leaf w self ident =
     and_then (identity_error ''params'' (rg_params_new w)) (\<lambda>params.
     and_then (identity_error ''SPIFFE URI SAN'' (rg_ia5 w (to_uri ident))) (\<lambda>uri_str.
     and_then (sign_leaf w self params [SanURI uri_str]) (\<lambda>(cert, _). Inr cert)))"

text \<open>\<open>name.parse::<IpAddr>()\<close>.\<close>

definition parse_ip_addr :: "string \<Rightarrow> IpAddr option" where
  "parse_ip_addr s =
     (case (case read_ipv4_addr s of Some r \<Rightarrow> Some r | None \<Rightarrow> read_ipv6_addr s) of
        None \<Rightarrow> None
      | Some (ip, rest) \<Rightarrow> if rest = [] then Some ip else None)"

fun push_names :: "rcgen \<Rightarrow> SanType list \<Rightarrow> string list \<Rightarrow> (InterlinkError, SanType list) result" where
  "push_names w sans [] = Inr sans"
| "push_names w sans (name # names) =
     (case parse_ip_addr name of
        Some ip \<Rightarrow> push_names w (sans @ [SanIpAddress ip]) names
      | None \<Rightarrow> and_then (identity_error ''DNS SAN'' (rg_ia5 w name)) (\<lambda>dns_str.
                  push_names w (sans @ [SanDnsName dns_str]) names))"

definition issue_leaf_with_key ::
  "rcgen \<Rightarrow> CertificateAuthority \<Rightarrow> SpiffeId \<Rightarrow> string list \<Rightarrow> (InterlinkError, bytes \<times> bytes) result" where
  "issue_leaf_with_key w self ident dns_names =
     and_then (identity_error ''params'' (rg_params_new w)) (\<lambda>params.
     and_then (identity_error ''SPIFFE URI SAN'' (rg_ia5 w (to_uri ident))) (\<lambda>uri_str.
     and_then (push_names w [SanURI uri_str] dns_names) (\<lambda>sans.
     sign_leaf_with_key w self params sans)))"

subsection \<open>What is signed\<close>

lemma identity_error_Inr [simp]: "identity_error what r = Inr a \<longleftrightarrow> r = Inr a"
  by (simp add: identity_error_def)

definition san_uri :: "SanType \<Rightarrow> string list" where
  "san_uri n = (case n of SanURI u \<Rightarrow> [u] | _ \<Rightarrow> [])"

lemma push_names_uris:
  "push_names w sans names = Inr sans' \<Longrightarrow> concat (map san_uri sans') = concat (map san_uri sans)"
  by (induction w sans names rule: push_names.induct)
     (auto simp: and_then_Inr_iff san_uri_def split: option.splits)

definition leaf_profile :: "rcgen \<Rightarrow> CertificateParams \<Rightarrow> bool" where
  "leaf_profile w params = (distinguished_name params = [] \<and> key_usages params = [DigitalSignature]
     \<and> extended_key_usages params = [ServerAuth, ClientAuth] \<and> is_ca params = ExplicitNoCa
     \<and> not_before params = rg_now w \<and> not_after params - not_before params = 86400
     \<and> (\<exists>serial. serial_number params = Some serial \<and> rg_random w 20 = Inr serial))"

lemma sign_leaf_profile:
  assumes "sign_leaf w self params sans = Inr (cert, key)"
  shows "\<exists>params'. leaf_profile w params' \<and> subject_alt_names params' = sans
    \<and> rg_signed_by w params' key (ca_root_cert self) (ca_root_key self) = Inr cert"
proof -
  obtain serial where serial: "rg_random w 20 = Inr serial" and signed: "rg_signed_by w
      (params\<lparr>subject_alt_names := sans, distinguished_name := [], key_usages := [DigitalSignature],
              extended_key_usages := [ServerAuth, ClientAuth], is_ca := ExplicitNoCa, not_before := rg_now w,
              not_after := rg_now w + 86400, serial_number := Some serial\<rparr>) key (ca_root_cert self) (ca_root_key self)
      = Inr cert" (is "rg_signed_by w ?params _ _ _ = _")
    using assms by (auto simp: sign_leaf_def and_then_Inr_iff Let_def generate_serial_number_def LEAF_TTL_def
        SERIAL_NUMBER_BYTES_def)
  then show ?thesis by (intro exI [of _ ?params]) (simp add: leaf_profile_def)
qed

text \<open>The two copies agree.\<close>

lemma sign_leaf_with_key_eq:
  "sign_leaf_with_key w self params sans =
     and_then (sign_leaf w self params sans) (\<lambda>(cert, leaf_key). Inr (cert, rg_serialize_der w leaf_key))"
  by (simp add: sign_leaf_with_key_def sign_leaf_def and_then_def identity_error_def Let_def split: sum.split)

text \<open>
  What signing and parsing must do for names to survive: the parser finds the URI names that were
  put in, in order, and a name accepted as IA5 is the name given.
\<close>

definition encodes_sans :: "pki \<Rightarrow> rcgen \<Rightarrow> bool" where
  "encodes_sans p w = (\<forall>params key issuer issuer_key der. rg_signed_by w params key issuer issuer_key = Inr der \<longrightarrow>
     (\<exists>exts. x509_parse p der = Inr exts \<and> san_uris exts = concat (map san_uri (subject_alt_names params))))"

definition ia5_exact :: "rcgen \<Rightarrow> bool" where
  "ia5_exact w = (\<forall>s t. rg_ia5 w s = Inr t \<longrightarrow> t = s)"

lemma signed_identity:
  assumes "pki_utf8 p" and "encodes_sans p w" and "canonical_id ident" and "valid_id ident"
    and "rg_signed_by w params key issuer issuer_key = Inr cert"
    and "concat (map san_uri (subject_alt_names params)) = [to_uri ident]"
  shows "spiffe_id_from_cert_der p cert = Some (Inr ident)"
proof -
  obtain exts where "x509_parse p cert = Inr exts" "san_uris exts = [to_uri ident]"
    using assms(2,5,6) unfolding encodes_sans_def by metis
  then show ?thesis
    using from_uri_to_uri [OF assms(3,4)] by (simp add: spiffe_id_from_cert_der_spec [OF assms(1)] uri_identity_def)
qed

lemma sign_leaf_identity:
  assumes "pki_utf8 p" and "encodes_sans p w" and "canonical_id ident" and "valid_id ident"
    and "sign_leaf w ca params sans = Inr (cert, key)" and "concat (map san_uri sans) = [to_uri ident]"
  shows "spiffe_id_from_cert_der p cert = Some (Inr ident)"
  using sign_leaf_profile [OF assms(5)] assms(6) signed_identity [OF assms(1-4)] by metis

lemma ia5_exactD: "ia5_exact w \<Longrightarrow> rg_ia5 w s = Inr t \<Longrightarrow> t = s"
  by (simp add: ia5_exact_def)

lemma issued_identity:
  assumes "pki_utf8 p" and "encodes_sans p w" and "ia5_exact w" and "canonical_id ident" and "valid_id ident"
    and "issue_leaf_with_key w ca ident names = Inr (cert, key)"
  shows "spiffe_id_from_cert_der p cert = Some (Inr ident)"
proof -
  obtain params sans k where "push_names w [SanURI (to_uri ident)] names = Inr sans"
    and "sign_leaf w ca params sans = Inr (cert, k)"
    using assms(6) by (auto simp: issue_leaf_with_key_def sign_leaf_with_key_eq and_then_Inr_iff dest!: ia5_exactD [OF assms(3)])
  then show ?thesis
    using sign_leaf_identity [OF assms(1,2,4,5)] push_names_uris by (fastforce simp: san_uri_def)
qed

subsection \<open>Properties\<close>

text \<open>
  C27. Identities survive issuing: a leaf certificate that either function issues for an identity is
  read back as exactly that identity by the code that authenticates peers if and only if the
  identity is canonical (its trust domain lower-case and acceptable as an authority, its other parts
  nonempty and free of path delimiters), whatever host names and addresses it carries besides. A
  certificate issued for any other identity never authenticates its bearer under that identity.
\<close>

theorem issued_leaf_identity:
  assumes "pki_utf8 p" and "encodes_sans p w" and "ia5_exact w" and "valid_id ident"
  shows "(issue_leaf w ca ident = Inr cert \<longrightarrow> (spiffe_id_from_cert_der p cert = Some (Inr ident) \<longleftrightarrow> canonical_id ident))
    \<and> (issue_leaf_with_key w ca ident names = Inr (cert', key) \<longrightarrow>
        (spiffe_id_from_cert_der p cert' = Some (Inr ident) \<longleftrightarrow> canonical_id ident))"
proof (intro conjI impI)
  assume "issue_leaf w ca ident = Inr cert"
  then obtain params key where sign: "sign_leaf w ca params [SanURI (to_uri ident)] = Inr (cert, key)"
    by (auto simp: issue_leaf_def and_then_Inr_iff dest!: ia5_exactD [OF assms(3)])
  have "spiffe_id_from_cert_der p cert = Some (Inr ident)" if "canonical_id ident"
    by (rule sign_leaf_identity [OF assms(1,2) that assms(4) sign]) (simp add: san_uri_def)
  then show "spiffe_id_from_cert_der p cert = Some (Inr ident) \<longleftrightarrow> canonical_id ident"
    using cert_identity_canonical(2) [OF assms(1)] by blast
next
  assume "issue_leaf_with_key w ca ident names = Inr (cert', key)"
  then show "spiffe_id_from_cert_der p cert' = Some (Inr ident) \<longleftrightarrow> canonical_id ident"
    using issued_identity [OF assms(1-3) _ assms(4)] cert_identity_canonical(2) [OF assms(1)] by blast
qed

text \<open>\<open>ring::rand::generate\<close> fills an array of the size it is asked for.\<close>

definition fills_array :: "rcgen \<Rightarrow> bool" where
  "fills_array w = (\<forall>n bs. rg_random w n = Inr bs \<longrightarrow> length bs = n)"

lemma leaf_profile_serial:
  assumes "fills_array w" and "leaf_profile w params"
  shows "\<exists>serial. serial_number params = Some serial \<and> length serial = 20"
  using assms unfolding leaf_profile_def fills_array_def by blast

text \<open>What becomes of the further names.\<close>

definition san_of_name :: "rcgen \<Rightarrow> string \<Rightarrow> SanType \<Rightarrow> bool" where
  "san_of_name w name san = (case parse_ip_addr name of
     Some ip \<Rightarrow> san = SanIpAddress ip
   | None \<Rightarrow> (\<exists>dns. rg_ia5 w name = Inr dns \<and> san = SanDnsName dns))"

lemma push_names_sans:
  "push_names w sans names = Inr sans' \<Longrightarrow> \<exists>more. sans' = sans @ more \<and> list_all2 (san_of_name w) names more"
proof (induction names arbitrary: sans)
  case (Cons name names)
  then obtain san where san: "san_of_name w name san" "push_names w (sans @ [san]) names = Inr sans'"
    by (auto simp: and_then_Inr_iff san_of_name_def split: option.splits)
  from Cons.IH [OF san(2)] obtain more where "sans' = (sans @ [san]) @ more" "list_all2 (san_of_name w) names more" by blast
  with san(1) show ?case by (intro exI [of _ "san # more"]) simp
qed simp

text \<open>
  C33. Every leaf that the authority issues, by either function, is short-lived and powerless: it is
  valid from now for exactly 86400 seconds, is no CA, may only sign and authenticate, has an empty
  subject and a serial number of 20 bytes from the random source, and is signed by the root. Its
  first name is the identity's URI, which \<open>issue_leaf\<close> leaves alone; \<open>issue_leaf_with_key\<close> adds for
  each further name that reads as an IP address an address entry, for each other one a DNS entry,
  in order, and returns the key that was certified.
\<close>

theorem issued_leaf_profile:
  assumes "fills_array w"
  shows "(issue_leaf w ca ident = Inr cert \<longrightarrow>
      (\<exists>params leaf_key uri. leaf_profile w params \<and> (\<exists>serial. serial_number params = Some serial \<and> length serial = 20)
         \<and> rg_signed_by w params leaf_key (ca_root_cert ca) (ca_root_key ca) = Inr cert
         \<and> rg_ia5 w (to_uri ident) = Inr uri \<and> subject_alt_names params = [SanURI uri]))
    \<and> (issue_leaf_with_key w ca ident names = Inr (cert', key) \<longrightarrow>
      (\<exists>params leaf_key uri sans. leaf_profile w params \<and> (\<exists>serial. serial_number params = Some serial \<and> length serial = 20)
         \<and> rg_signed_by w params leaf_key (ca_root_cert ca) (ca_root_key ca) = Inr cert' \<and> key = rg_serialize_der w leaf_key
         \<and> rg_ia5 w (to_uri ident) = Inr uri \<and> subject_alt_names params = SanURI uri # sans
         \<and> list_all2 (san_of_name w) names sans))"
proof (intro conjI impI)
  assume "issue_leaf w ca ident = Inr cert"
  then obtain params0 uri leaf_key where "rg_ia5 w (to_uri ident) = Inr uri"
    and sign: "sign_leaf w ca params0 [SanURI uri] = Inr (cert, leaf_key)"
    by (auto simp: issue_leaf_def and_then_Inr_iff)
  with sign_leaf_profile [OF sign] leaf_profile_serial [OF assms]
  show "\<exists>params leaf_key uri. leaf_profile w params \<and> (\<exists>serial. serial_number params = Some serial \<and> length serial = 20)
         \<and> rg_signed_by w params leaf_key (ca_root_cert ca) (ca_root_key ca) = Inr cert
         \<and> rg_ia5 w (to_uri ident) = Inr uri \<and> subject_alt_names params = [SanURI uri]" by blast
next
  assume "issue_leaf_with_key w ca ident names = Inr (cert', key)"
  then obtain params0 uri sans leaf_key where uri: "rg_ia5 w (to_uri ident) = Inr uri"
    and push: "push_names w [SanURI uri] names = Inr sans" and sign: "sign_leaf w ca params0 sans = Inr (cert', leaf_key)"
    and key: "key = rg_serialize_der w leaf_key"
    by (auto simp: issue_leaf_with_key_def sign_leaf_with_key_eq and_then_Inr_iff)
  from push_names_sans [OF push] obtain more where "sans = SanURI uri # more" "list_all2 (san_of_name w) names more" by auto
  with sign_leaf_profile [OF sign] leaf_profile_serial [OF assms] uri key
  show "\<exists>params leaf_key uri sans. leaf_profile w params \<and> (\<exists>serial. serial_number params = Some serial \<and> length serial = 20)
         \<and> rg_signed_by w params leaf_key (ca_root_cert ca) (ca_root_key ca) = Inr cert' \<and> key = rg_serialize_der w leaf_key
         \<and> rg_ia5 w (to_uri ident) = Inr uri \<and> subject_alt_names params = SanURI uri # sans
         \<and> list_all2 (san_of_name w) names sans" by blast
qed

definition sample_params :: CertificateParams where
  "sample_params = \<lparr>subject_alt_names = [], distinguished_name = [], key_usages = [], extended_key_usages = [],
     is_ca = NoCa, not_before = 0, not_after = 0, serial_number = None\<rparr>"

text \<open>An instance that encodes a certificate as its one URI name.\<close>

definition sample_rcgen :: rcgen where
  "sample_rcgen = \<lparr>rg_params_new = Inr sample_params, rg_generate_key = Inr ''key'', rg_ia5 = Inr,
     rg_self_signed = (\<lambda>_ _. Inr ''root''),
     rg_signed_by = (\<lambda>params _ _ _. case concat (map san_uri (subject_alt_names params)) of
        [u] \<Rightarrow> if valid_utf8 u then Inr u else Inl ''not UTF-8'' | _ \<Rightarrow> Inl ''one URI name expected''),
     rg_serialize_der = (\<lambda>k. k), rg_random = (\<lambda>n. Inr (replicate n (CHR ''r''))), rg_now = 1000\<rparr>"

definition sample_ca_pki :: pki where
  "sample_ca_pki = sample_pki\<lparr>x509_parse := (\<lambda>der. if valid_utf8 der
     then Inr [\<lparr>ext_oid = SAN_OID, ext_parsed = SubjectAlternativeName [URI der]\<rparr>] else Inl ''bad'')\<rparr>"

definition sample_ca :: CertificateAuthority where
  "sample_ca = \<lparr>ca_root_key = ''rk'', ca_root_cert = ''root'', ca_root_cert_der = ''root'', ca_trust_domain = ''t''\<rparr>"

lemma sample_ca_pki_utf8: "pki_utf8 sample_ca_pki"
  by (auto simp: pki_utf8_def sample_ca_pki_def san_uris_def ext_uris_def uri_names_def split: if_splits)

lemma sample_encodes: "encodes_sans sample_ca_pki sample_rcgen"
  by (auto simp: encodes_sans_def sample_ca_pki_def sample_rcgen_def san_uris_def ext_uris_def uri_names_def
      split: list.splits if_splits)

lemma sample_names: "parse_ip_addr ''10.0.0.1'' = Some (V4 10 0 0 1)" "parse_ip_addr ''web'' = None"
  by code_simp+

lemma sample_issue:
  "issue_leaf_with_key sample_rcgen sample_ca sample_id [''10.0.0.1'', ''web''] = Inr (to_uri sample_id, ''key'')"
proof -
  have "valid_utf8 (to_uri sample_id)" by code_simp
  then show ?thesis
    by (simp add: issue_leaf_with_key_def sample_rcgen_def sign_leaf_with_key_def generate_serial_number_def sample_names
        identity_error_def san_uri_def Let_def)
qed

lemma sample_issue_plain: "issue_leaf sample_rcgen sample_ca sample_id = Inr (to_uri sample_id)"
proof -
  have "valid_utf8 (to_uri sample_id)" by code_simp
  then show ?thesis
    by (simp add: issue_leaf_def sample_rcgen_def sign_leaf_def generate_serial_number_def identity_error_def san_uri_def Let_def)
qed

theorem issued_leaf_identity_witness:
  "spiffe_id_from_cert_der sample_ca_pki (to_uri sample_id) = Some (Inr sample_id)"
proof -
  have "ia5_exact sample_rcgen" by (simp add: ia5_exact_def sample_rcgen_def)
  moreover have "canonical_id sample_id" "valid_id sample_id"
    using cert_identity_canonical [OF sample_pki_utf8 sample_cert] by simp_all
  ultimately show ?thesis
    using issued_leaf_identity [OF sample_ca_pki_utf8 sample_encodes, of sample_id sample_ca undefined
        "[''10.0.0.1'', ''web'']"] sample_issue by blast
qed

theorem issued_leaf_profile_witness:
  "(\<exists>params. leaf_profile sample_rcgen params \<and> subject_alt_names params = [SanURI (to_uri sample_id)]
      \<and> (\<exists>serial. serial_number params = Some serial \<and> length serial = 20))
   \<and> (\<exists>params. leaf_profile sample_rcgen params \<and> subject_alt_names params =
      [SanURI (to_uri sample_id), SanIpAddress (V4 10 0 0 1), SanDnsName ''web''])"
proof -
  have ia5: "rg_ia5 sample_rcgen = Inr" by (simp add: sample_rcgen_def)
  have fills: "fills_array sample_rcgen" by (simp add: fills_array_def sample_rcgen_def)
  have sans: "list_all2 (san_of_name sample_rcgen) [''10.0.0.1'', ''web''] sans \<longleftrightarrow>
      sans = [SanIpAddress (V4 10 0 0 1), SanDnsName ''web'']" for sans
    by (auto simp: ia5 sample_names list_all2_Cons1 san_of_name_def)
  from issued_leaf_profile [OF fills, of sample_ca sample_id "to_uri sample_id" "[''10.0.0.1'', ''web'']" "to_uri sample_id" "''key''"]
    sample_issue sample_issue_plain
  show ?thesis unfolding ia5 sans by (metis sum.inject(2))
qed

end
