(* ===== verification/Demo.thy ===== *)
theory Demo
  imports Bench_Server Cert_Authority
begin

text \<open>
  \<open>examples/ca_bootstrap.rs\<close>, \<open>backend.rs\<close>, \<open>frontend.rs\<close> and the start of \<open>bench_server.rs\<close>: the
  programs of the demonstration. They end at the first failed \<open>expect\<close>, so they are functions into
  \<open>option\<close>. The file system is a map from paths to contents, with the outcome of each write as an
  argument; each call to the certificate authority has an \<open>rcgen\<close> of its own, because keys and
  serial numbers differ from call to call; base64 is a parameter. Printing is left out.
\<close>

type_synonym files = "string \<rightharpoonup> bytes"

subsection \<open>The bootstrap\<close>

definition TRUST_DOMAIN :: string where
  "TRUST_DOMAIN = ''example.local''"

definition demo_dir :: "string \<Rightarrow> string" where
  "demo_dir temp = path_join temp ''interlink-demo''"

definition write_file :: "(string \<Rightarrow> (IoError, unit) result) \<Rightarrow> string \<Rightarrow> bytes \<Rightarrow> files \<Rightarrow> files panicky" where
  "write_file io path contents files = map_option (\<lambda>_. files(path \<mapsto> contents)) (unwrap (io path))"

function chunks :: "nat \<Rightarrow> bytes \<Rightarrow> bytes list" where
  "chunks n s = (if s = [] then [] else take (max 1 n) s # chunks n (drop (max 1 n) s))"
  by pat_completeness auto
termination
  by (relation "measure (\<lambda>(_, s). length s)") (auto simp: max_def)

declare chunks.simps [simp del]

definition newline :: string where
  "newline = [CHR 0x0A]"

definition der_to_pem :: "(bytes \<Rightarrow> string) \<Rightarrow> string \<Rightarrow> bytes \<Rightarrow> string panicky" where
  "der_to_pem base64 label der =
     (let body = chunks 64 (base64 der) in
      if list_all valid_utf8 body
      then Some (''-----BEGIN '' @ label @ ''-----'' @ newline @ concat (map (\<lambda>chunk. chunk @ newline) body)
                 @ ''-----END '' @ label @ ''-----'' @ newline)
      else None)"

definition ca_bootstrap ::
  "rcgen \<Rightarrow> rcgen \<Rightarrow> rcgen \<Rightarrow> (bytes \<Rightarrow> string) \<Rightarrow> (string \<Rightarrow> (IoError, unit) result)
     \<Rightarrow> (string \<Rightarrow> (IoError, unit) result) \<Rightarrow> string \<Rightarrow> files \<Rightarrow> files panicky" where
  "ca_bootstrap w0 w1 w2 base64 mkdir io temp files =
     (let out = demo_dir temp in
      do {
        _ \<leftarrow> unwrap (mkdir out);
        ca \<leftarrow> unwrap (CertificateAuthority_new w0 TRUST_DOMAIN);
        files \<leftarrow> write_file io (path_join out ''ca.der'') (ca_root_cert_der ca) files;
        server_id \<leftarrow> unwrap (try_new TRUST_DOMAIN ''default'' ''backend'');
        (server_cert, server_key) \<leftarrow> unwrap (issue_leaf_with_key w1 ca server_id
           [''localhost'', ''127.0.0.1'', ''backend.example.local'']);
        files \<leftarrow> write_file io (path_join out ''server.der'') server_cert files;
        files \<leftarrow> write_file io (path_join out ''server.key'') server_key files;
        client_id \<leftarrow> unwrap (try_new TRUST_DOMAIN ''default'' ''frontend'');
        (client_cert, client_key) \<leftarrow> unwrap (issue_leaf_with_key w2 ca client_id
           [''localhost'', ''127.0.0.1'', ''frontend.example.local'']);
        files \<leftarrow> write_file io (path_join out ''client.der'') client_cert files;
        files \<leftarrow> write_file io (path_join out ''client.key'') client_key files;
        pem \<leftarrow> der_to_pem base64 ''CERTIFICATE'' (ca_root_cert_der ca);
        files \<leftarrow> write_file io (path_join out ''ca.pem'') pem files;
        pem \<leftarrow> der_to_pem base64 ''CERTIFICATE'' server_cert;
        files \<leftarrow> write_file io (path_join out ''server.pem'') pem files;
        pem \<leftarrow> der_to_pem base64 ''PRIVATE KEY'' server_key;
        files \<leftarrow> write_file io (path_join out ''server-key.pem'') pem files;
        pem \<leftarrow> der_to_pem base64 ''CERTIFICATE'' client_cert;
        files \<leftarrow> write_file io (path_join out ''client.pem'') pem files;
        pem \<leftarrow> der_to_pem base64 ''PRIVATE KEY'' client_key;
        write_file io (path_join out ''client-key.pem'') pem files
      })"

subsection \<open>The services\<close>

text \<open>The arguments: a directory, a port, and for the benchmark server a delay in milliseconds.\<close>

definition service_dir :: "string \<Rightarrow> string list \<Rightarrow> string" where
  "service_dir temp args = (if 1 < length args then args ! 1 else demo_dir temp)"

definition service_port :: "string list \<Rightarrow> 16 word" where
  "service_port args = (if 2 < length args then (case parse_u16 (args ! 2) of Inr p \<Rightarrow> p | Inl _ \<Rightarrow> 8443) else 8443)"

function trim_end_matches :: "string \<Rightarrow> string \<Rightarrow> string" where
  "trim_end_matches s p = (if p \<noteq> [] \<and> ends_with s p then trim_end_matches (take (length s - length p) s) p else s)"
  by pat_completeness auto
termination
proof (relation "measure (\<lambda>(s, _). length s)")
  fix s p :: string
  assume "p \<noteq> [] \<and> ends_with s p"
  then have "0 < length p" "length p \<le> length s" by (auto simp: ends_with_def)
  then have "length s - length p < length s" by linarith
  then show "((take (length s - length p) s, p), s, p) \<in> measure (\<lambda>(s, _). length s)" by simp
qed simp

declare trim_end_matches.simps [simp del]

definition bench_delay :: "string list \<Rightarrow> 64 word" where
  "bench_delay args =
     (if 3 < length args then (case parse_usize (trim_end_matches (args ! 3) ''ms'') of Inr n \<Rightarrow> n | Inl _ \<Rightarrow> 0) else 0)"

definition file_provider :: "SpiffeId \<Rightarrow> bytes \<Rightarrow> IdentityProvider" where
  "file_provider ident ca = \<lparr>get_identity = Inr ident, get_trust_domain = with_ca (TrustDomain_new ''example.local'') ca\<rparr>"

text \<open>What \<open>backend\<close> and \<open>bench_server\<close> set up alike, and what \<open>frontend\<close> does.\<close>

definition backend_tls :: "pki \<Rightarrow> (string \<Rightarrow> (IoError, bytes) result) \<Rightarrow> string \<Rightarrow> TlsServer panicky" where
  "backend_tls p read dir =
     do {
       ca_der \<leftarrow> unwrap (read (path_join dir ''ca.der''));
       server_cert \<leftarrow> unwrap (read (path_join dir ''server.der''));
       server_key \<leftarrow> unwrap (read (path_join dir ''server.key''));
       server_id \<leftarrow> unwrap (try_new ''example.local'' ''default'' ''backend'');
       unwrap (TlsServer_new p (file_provider server_id ca_der) server_cert server_key)
     }"

definition frontend_tls :: "pki \<Rightarrow> (string \<Rightarrow> (IoError, bytes) result) \<Rightarrow> string \<Rightarrow> TlsClient panicky" where
  "frontend_tls p read dir =
     do {
       ca_der \<leftarrow> unwrap (read (path_join dir ''ca.der''));
       client_cert \<leftarrow> unwrap (read (path_join dir ''client.der''));
       client_key \<leftarrow> unwrap (read (path_join dir ''client.key''));
       client_id \<leftarrow> unwrap (try_new ''example.local'' ''default'' ''frontend'');
       unwrap (with_client_auth p (file_provider client_id ca_der) client_cert client_key)
     }"

text \<open>The echo loop of the backend: what it writes, given what it reads and how its writes go.\<close>

definition echo_response :: "SpiffeId \<Rightarrow> bytes \<Rightarrow> bytes" where
  "echo_response peer buf = ''backend-echo['' @ service_account peer @ '']: '' @ from_utf8_lossy buf"

fun backend_echo :: "SpiffeId \<Rightarrow> (bytes \<Rightarrow> (IoError, unit) result) \<Rightarrow> (IoError, bytes) result list \<Rightarrow> bytes list" where
  "backend_echo peer write [] = []"
| "backend_echo peer write (Inl e # reads) = []"
| "backend_echo peer write (Inr buf # reads) =
     (if buf = [] then []
      else let response = echo_response peer buf in
        response # (case write response of Inl e \<Rightarrow> [] | Inr _ \<Rightarrow> backend_echo peer write reads))"

text \<open>
  The frontend: one connection, one message, one answer. The address must be a socket address. The
  connection has a state that \<open>write\<close> changes and on which depends what \<open>receive\<close> finds, \<open>None\<close> when
  the five seconds pass.
\<close>

datatype frontend_outcome = ConnectFailed InterlinkError | Replied string | ReadFailed IoError | TimedOut

definition frontend_main ::
  "pki \<Rightarrow> (string \<Rightarrow> (IoError, bytes) result) \<Rightarrow> string \<Rightarrow> string list
     \<Rightarrow> (TlsClient \<Rightarrow> SocketAddr \<Rightarrow> globals \<Rightarrow> ((InterlinkError, TlsStream) result \<times> globals) panicky)
     \<Rightarrow> (bytes \<Rightarrow> 'c \<Rightarrow> (IoError, unit) result \<times> 'c) \<Rightarrow> ('c \<Rightarrow> (IoError, bytes) result option) \<Rightarrow> 'c \<Rightarrow> globals
     \<Rightarrow> (frontend_outcome \<times> globals) panicky" where
  "frontend_main p read temp args connect write receive conn g =
     do {
       tls_client \<leftarrow> frontend_tls p read (service_dir temp args);
       connect_addr \<leftarrow> parse_socket_addr (if 2 < length args then args ! 2 else ''127.0.0.1:8443'');
       (connected, g) \<leftarrow> connect tls_client connect_addr g;
       (case connected of
          Inl e \<Rightarrow> Some (ConnectFailed e, g)
        | Inr tls_stream \<Rightarrow> do {
            (sent, conn) \<leftarrow> Some (write ''Hello from frontend!'' conn);
            _ \<leftarrow> unwrap sent;
            Some (case receive conn of
                    None \<Rightarrow> TimedOut
                  | Some (Inr buf) \<Rightarrow> Replied (from_utf8_lossy buf)
                  | Some (Inl e) \<Rightarrow> ReadFailed e, g)
          })
     }"

subsection \<open>Facts\<close>

lemma path_join_inject [simp]: "path_join d a = path_join d b \<longleftrightarrow> a = b"
  by (simp add: path_join_def)

lemma write_file_Some [simp]:
  "write_file io path contents files = Some files' \<longleftrightarrow> is_ok (io path) \<and> files' = files(path \<mapsto> contents)"
  by (cases "io path") (auto simp: write_file_def is_ok_iff)

lemma unwrap_Some [simp]: "unwrap r = Some a \<longleftrightarrow> r = Inr a"
  by (cases r) auto

text \<open>The files in PEM form are recognised as such by the credential loader.\<close>

lemma der_to_pem_header: "der_to_pem base64 label der = Some pem \<Longrightarrow> contains_pem_header pem"
proof -
  assume "der_to_pem base64 label der = Some pem"
  then obtain rest where "pem = pem_marker @ rest" by (auto simp: der_to_pem_def pem_marker_def Let_def split: if_splits)
  then have "pem = [] @ pem_marker @ rest" by simp
  then show ?thesis unfolding contains_pem_header_iff by blast
qed

abbreviation backend_id :: SpiffeId where
  "backend_id \<equiv> SpiffeId_new ''example.local'' ''default'' ''backend''"

lemma try_new_demo: "try_new TRUST_DOMAIN ''default'' ''backend'' = Inr backend_id"
  "try_new TRUST_DOMAIN ''default'' ''frontend'' = Inr (SpiffeId_new ''example.local'' ''default'' ''frontend'')"
  by code_simp+

lemma backend_id_ok: "canonical_id backend_id" "valid_id backend_id"
  by code_simp (simp add: valid_id_def SpiffeId_new_def valid_utf8_all_ascii byte_def)

lemma ca_bootstrap_files:
  assumes "ca_bootstrap w0 w1 w2 base64 mkdir io temp files = Some fs"
  obtains ca cert key where "CertificateAuthority_new w0 TRUST_DOMAIN = Inr ca"
    "issue_leaf_with_key w1 ca backend_id [''localhost'', ''127.0.0.1'', ''backend.example.local''] = Inr (cert, key)"
    "fs (path_join (demo_dir temp) ''ca.der'') = Some (ca_root_cert_der ca)"
    "fs (path_join (demo_dir temp) ''server.der'') = Some cert" "fs (path_join (demo_dir temp) ''server.key'') = Some key"
  using assms unfolding ca_bootstrap_def Let_def try_new_demo
  by (auto simp: bind_eq_Some_conv split: prod.splits)

subsection \<open>The daemon on the demonstration's credentials\<close>

text \<open>
  What the TLS libraries must make of the three files: they are DER, the root can be a trust
  anchor, the leaf parses and validates against it, and certificate and key fit.
\<close>

definition usable_der :: "pki \<Rightarrow> nat \<Rightarrow> bytes \<Rightarrow> bytes \<Rightarrow> bytes \<Rightarrow> bool" where
  "usable_der p now root cert key =
     (list_all (\<lambda>b. b \<noteq> [] \<and> \<not> contains_pem_header b) [root, cert, key]
      \<and> is_ok (root_add p root) \<and> is_ok (client_verifier p [root])
      \<and> is_ok (end_entity_parse p cert) \<and> is_ok (path_validate p cert [root] [] now)
      \<and> is_ok (single_cert p cert key) \<and> is_ok (client_auth_cert p cert key))"

definition reads_from :: "cred_world \<Rightarrow> files \<Rightarrow> bool" where
  "reads_from c fs = (\<forall>n path contents. fs path = Some contents \<longrightarrow> cw_read c n path = Inr contents)"

lemma read_der:
  assumes "reads_from c fs" and "fs (ca_bundle paths) = Some root" and "fs (certificate paths) = Some cert"
    and "fs (private_key paths) = Some key" and "usable_der p now root cert key"
  shows "read_credentials c paths = Inr ([root], cert, [], key)"
proof -
  have "cw_read c n (ca_bundle paths) = Inr root" "cw_read c n (certificate paths) = Inr cert"
    "cw_read c n (private_key paths) = Inr key" for n
    using assms(1-4) by (simp_all add: reads_from_def)
  then show ?thesis
    using assms(5) by (simp add: read_credentials_def read_file_def parse_certificates_def parse_private_key_def usable_der_def)
qed

text \<open>
  The bootstrap and the daemon fit together: when \<open>ca_bootstrap\<close> has run, a daemon that is left
  with the default credential paths loads the files it wrote, provided the TLS libraries accept
  them; and it does so exactly when it expects the backend's identity.
\<close>

lemma bootstrap_credentials_load:
  assumes boot: "ca_bootstrap w0 w1 w2 base64 mkdir io (cw_temp_dir c) files = Some fs"
    and libs: "pki_utf8 p" "encodes_sans p w1" "ia5_exact w1" and reads: "reads_from c fs"
    and usable: "\<And>root cert key. fs (path_join (demo_dir (cw_temp_dir c)) ''ca.der'') = Some root \<Longrightarrow>
        fs (path_join (demo_dir (cw_temp_dir c)) ''server.der'') = Some cert \<Longrightarrow>
        fs (path_join (demo_dir (cw_temp_dir c)) ''server.key'') = Some key \<Longrightarrow> usable_der p (cw_now c) root cert key"
    and paths: "cw_env_os c ''INTERLINK_CERT_DIR'' = None" "cfg_ca_bundle_path cfg = None" "cfg_cert_path cfg = None"
      "cfg_key_path cfg = None"
    and task: "cw_join_error c = None" "is_ok (cw_server_name c ''reload.invalid'')"
  shows "(\<exists>self. reloader_load p c (paths_from_config c cfg) expected mux = Some (Inr self)) \<longleftrightarrow> expected = backend_id"
proof -
  let ?paths = "paths_from_config c cfg"
  obtain ca cert key where files: "issue_leaf_with_key w1 ca backend_id
      [''localhost'', ''127.0.0.1'', ''backend.example.local''] = Inr (cert, key)"
    "fs (path_join (demo_dir (cw_temp_dir c)) ''ca.der'') = Some (ca_root_cert_der ca)"
    "fs (path_join (demo_dir (cw_temp_dir c)) ''server.der'') = Some cert"
    "fs (path_join (demo_dir (cw_temp_dir c)) ''server.key'') = Some key"
    using ca_bootstrap_files [OF boot] by metis
  note ok = usable [OF files(2-4)]
  have p: "ca_bundle ?paths = path_join (demo_dir (cw_temp_dir c)) ''ca.der''"
    "certificate ?paths = path_join (demo_dir (cw_temp_dir c)) ''server.der''"
    "private_key ?paths = path_join (demo_dir (cw_temp_dir c)) ''server.key''"
    using paths by (simp_all add: paths_from_config_def TlsCredentialPaths_new_def demo_dir_def Let_def)
  have read: "read_credentials c ?paths = Inr ([ca_root_cert_der ca], cert, [], key)"
    by (rule read_der [OF reads _ _ _ ok]) (simp_all add: p files)
  have id: "spiffe_id_from_cert_der p cert = Some (Inr backend_id)"
    by (rule issued_identity [OF libs backend_id_ok files(1)])
  have "verify_server_cert p (SpiffeServerVerifier_new [ca_root_cert_der ca] (trust_domain backend_id)) cert [] (cw_now c) = Some (Inr ())"
    using ok id by (auto simp: verify_server_cert_def usable_der_def SpiffeServerVerifier_new_def is_ok_iff)
  moreover have "\<exists>g. build_endpoints p backend_id mux [ca_root_cert_der ca] cert key = Inr g"
    using ok by (simp add: build_endpoints_iff usable_der_def)
  ultimately have "(\<exists>g. build_generation p c ?paths expected mux = Some (Inr g)) \<longleftrightarrow> expected = backend_id"
    using read id task(2) by (auto simp: build_generation_iff [OF libs(1)])
  then show ?thesis
    by (auto simp: reloader_load_def load_generation_def task(1) bind_eq_Some_conv and_then_Inr_iff)
qed

definition demo_creds :: "files \<Rightarrow> cred_world" where
  "demo_creds fs = sample_creds\<lparr>cw_read := (\<lambda>_ path. case fs path of Some b \<Rightarrow> Inr b
     | None \<Rightarrow> Inl \<lparr>io_kind = OsKind 2, io_text = ''missing''\<rparr>)\<rparr>"

abbreviation demo_run :: "files panicky" where
  "demo_run \<equiv> ca_bootstrap sample_rcgen sample_rcgen sample_rcgen (\<lambda>_. ''QUJD'') (\<lambda>_. Inr ()) (\<lambda>_. Inr ()) ''/tmp'' Map.empty"

lemma demo_names: "parse_ip_addr ''localhost'' = None" "parse_ip_addr ''127.0.0.1'' = Some (V4 127 0 0 1)"
  "parse_ip_addr ''backend.example.local'' = None" "parse_ip_addr ''frontend.example.local'' = None"
  by code_simp+

lemma demo_issue:
  assumes "valid_utf8 (to_uri ident)"
  shows "issue_leaf_with_key sample_rcgen ca ident [''localhost'', ''127.0.0.1'', ''backend.example.local''] = Inr (to_uri ident, ''key'')"
    "issue_leaf_with_key sample_rcgen ca ident [''localhost'', ''127.0.0.1'', ''frontend.example.local''] = Inr (to_uri ident, ''key'')"
  using assms by (simp_all add: issue_leaf_with_key_def sample_rcgen_def sign_leaf_with_key_def generate_serial_number_def demo_names
        identity_error_def san_uri_def Let_def)

lemma demo_ca: "\<exists>ca. CertificateAuthority_new sample_rcgen TRUST_DOMAIN = Inr ca \<and> ca_root_cert_der ca = ''root''"
  by (simp add: CertificateAuthority_new_def sample_rcgen_def identity_error_def Let_def)

lemma demo_pem: "\<exists>pem. der_to_pem (\<lambda>_. ''QUJD'') label der = Some pem"
proof -
  have "list_all valid_utf8 (chunks 64 ''QUJD'')" by code_simp
  then show ?thesis by (simp add: der_to_pem_def)
qed

lemma demo_run_files:
  "\<exists>fs. demo_run = Some fs \<and> fs (path_join (demo_dir ''/tmp'') ''ca.der'') = Some ''root''
     \<and> fs (path_join (demo_dir ''/tmp'') ''server.der'') = Some (to_uri backend_id)
     \<and> fs (path_join (demo_dir ''/tmp'') ''server.key'') = Some ''key''"
proof -
  obtain ca where ca: "CertificateAuthority_new sample_rcgen TRUST_DOMAIN = Inr ca" "ca_root_cert_der ca = ''root''"
    using demo_ca by blast
  obtain pem where pem: "\<And>label der. der_to_pem (\<lambda>_. ''QUJD'') label der = Some (pem label der)"
    using demo_pem by metis
  have "valid_utf8 (to_uri backend_id)" "valid_utf8 (to_uri (SpiffeId_new ''example.local'' ''default'' ''frontend''))"
    by code_simp+
  note issue = demo_issue(1) [OF this(1)] demo_issue(2) [OF this(2)]
  show ?thesis by (simp add: ca_bootstrap_def ca pem issue try_new_demo write_file_def Let_def)
qed

end
