(* ===== verification/Daemon.thy ===== *)
theory Daemon
  imports Outbound Admin
begin

text \<open>
  \<open>src/main.rs\<close>: how \<open>interlinkd\<close> puts the components together. Starting it reads the configuration,
  derives the workload's identity, loads the first TLS generation, builds the default-deny policy
  and both proxies and the admin server; it fails with the first error, and the \<open>unwrap\<close>s and
  \<open>expect\<close>s on the way are panics. Logging is left out; a metrics exporter that fails to start
  stops nothing, so its outcome is kept beside the rest. \<open>dw_install\<close> is the Prometheus builder's
  installation of a listener.
\<close>

record daemon_world =
  dw_config :: config_world
  dw_creds :: cred_world
  dw_pki :: pki
  dw_resolver_new :: "(string, unit) result"
  dw_semaphore :: semaphore_new
  dw_install :: "SocketAddr \<Rightarrow> (string, unit) result"

datatype start_error = Interlink InterlinkError | Resolver string

record interlinkd =
  d_config :: Config
  d_metrics :: "(string, unit) result"
  d_tls :: TlsCredentialReloader
  d_policy :: PolicyEngine
  d_admin :: "cred_world \<Rightarrow> TlsCredentialReloader AdminServer"
  d_inbound :: TcpProxy
  d_outbound :: OutboundProxy

definition init_metrics_exporter :: "(SocketAddr \<Rightarrow> (string, unit) result) \<Rightarrow> (string, unit) result" where
  "init_metrics_exporter install =
     (let addr = SocketAddr_new (V4 0 0 0 0) METRICS_PORT in and_then (install addr) Inr)"

definition daemon_identity :: "Config \<Rightarrow> SpiffeId panicky" where
  "daemon_identity config =
     do {
       parsed \<leftarrow> (case cfg_identity config of
                    None \<Rightarrow> Some None
                  | Some s \<Rightarrow> map_option result_ok (SpiffeId_from_uri s));
       (case parsed of
          Some ident \<Rightarrow> Some ident
        | None \<Rightarrow> unwrap (try_new (cfg_trust_domain config) ''default'' ''proxy''))
     }"

definition daemon_policy :: "config_world \<Rightarrow> SpiffeId \<Rightarrow> PolicyEngine panicky" where
  "daemon_policy w ident =
     do {
       rule \<leftarrow> allow (to_uri ident) (to_uri ident) ''allow replicas of this workload identity'';
       (let engine = set_global_policies PolicyEngine_new [rule] in
        Some (if env_var w ''INTERLINK_ALLOW_ALL'' = Some ''true'' then set_default_decision engine Allow else engine))
     }"

text \<open>Steps 6 to 9 of \<open>main\<close>: everything that is built once policy, TLS and resolver are there.
  The exporter of step 3 depends on nothing before it and is recorded here.\<close>

definition daemon_assemble ::
  "daemon_world \<Rightarrow> Config \<Rightarrow> TlsCredentialReloader \<Rightarrow> PolicyEngine \<Rightarrow> interlinkd panicky" where
  "daemon_assemble w config tls policy =
     do {
       inbound \<leftarrow> TcpProxy_new_with_discovery (dw_semaphore w) (to_proxy_config config) (cfg_proxy_inbound_port config) policy
                   (cfg_default_upstream config = None);
       outbound \<leftarrow> OutboundProxy_new_with_discovery (dw_semaphore w) (to_proxy_config config) (cfg_proxy_outbound_port config) policy True;
       Some \<lparr>d_config = config, d_metrics = init_metrics_exporter (dw_install w), d_tls = tls, d_policy = policy,
             d_admin = (\<lambda>creds. with_reload_handler (admin_with_shutdown AdminServer_new False) (reload (dw_pki w) creds)),
             d_inbound = tcp_with_shutdown inbound False, d_outbound = outbound_with_shutdown outbound False\<rparr>
     }"

definition daemon_start :: "daemon_world \<Rightarrow> (start_error, interlinkd) result panicky" where
  "daemon_start w =
     do {
       loaded \<leftarrow> load (dw_config w);
       (case loaded of
          Inl e \<Rightarrow> Some (Inl (Interlink e))
        | Inr config \<Rightarrow> do {
            ident \<leftarrow> daemon_identity config;
            tls_result \<leftarrow> reloader_load (dw_pki w) (dw_creds w) (paths_from_config (dw_creds w) config) ident (cfg_mux config);
            (case tls_result of
               Inl e \<Rightarrow> Some (Inl (Interlink e))
             | Inr tls \<Rightarrow> do {
                 policy \<leftarrow> daemon_policy (dw_config w) ident;
                 (case ServiceDiscovery_new (dw_resolver_new w) Inr of
                    Inl e \<Rightarrow> Some (Inl (Resolver e))
                  | Inr _ \<Rightarrow> do {
                      d \<leftarrow> daemon_assemble w config tls policy;
                      Some (Inr d)
                    })
               })
          })
     }"

text \<open>
  Shutdown: whatever the signal wait returns, \<open>true\<close> is sent on the watch channel once; that is
  the event the three receivers see.
\<close>

datatype signal_outcome = CtrlC | Terminate | SignalError IoError

definition wait_for_shutdown_signal :: "signal_outcome \<Rightarrow> (IoError, unit) result" where
  "wait_for_shutdown_signal s = (case s of CtrlC \<Rightarrow> Inr () | Terminate \<Rightarrow> Inr () | SignalError e \<Rightarrow> Inl e)"

definition daemon_shutdown :: "signal_outcome \<Rightarrow> watch_event list" where
  "daemon_shutdown s = (case wait_for_shutdown_signal s of Inr _ \<Rightarrow> [Changed True] | Inl _ \<Rightarrow> [Changed True])"

subsection \<open>What is put together\<close>

lemma daemon_identity_local: "proxy_local_id (to_proxy_config config) = daemon_identity config"
  by (simp add: proxy_local_id_def daemon_identity_def to_proxy_config_def cong: option.case_cong)

lemma to_proxy_config_fields:
  "px_default_upstream (to_proxy_config config) = cfg_default_upstream config"
  "px_max_connections (to_proxy_config config) = Some (cfg_max_connections config)"
  "px_mux (to_proxy_config config) = cfg_mux config"
  by (simp_all add: to_proxy_config_def)

lemma case_error_Inr:
  "(case r of Inl e \<Rightarrow> Some (Inl (f e)) | Inr a \<Rightarrow> k a) = Some (Inr d) \<longleftrightarrow> (\<exists>a. r = Inr a \<and> k a = Some (Inr d))"
  by (cases r) auto

lemma daemon_start_Inr:
  assumes "daemon_start w = Some (Inr d)"
  obtains config ident tls policy where "load (dw_config w) = Some (Inr config)" "daemon_identity config = Some ident"
    "reloader_load (dw_pki w) (dw_creds w) (paths_from_config (dw_creds w) config) ident (cfg_mux config) = Some (Inr tls)"
    "daemon_policy (dw_config w) ident = Some policy" "daemon_assemble w config tls policy = Some d"
  using assms by (auto simp: daemon_start_def bind_eq_Some_conv case_error_Inr)

lemma daemon_start_parts:
  assumes "daemon_start w = Some (Inr d)"
  obtains ident where "daemon_identity (d_config d) = Some ident" "load (dw_config w) = Some (Inr (d_config d))"
    "reloader_reachable (dw_pki w) (paths_from_config (dw_creds w) (d_config d)) ident (cfg_mux (d_config d)) (d_tls d)"
    "daemon_policy (dw_config w) ident = Some (d_policy d)"
    "in_local_id (d_inbound d) = ident" "out_local_id (d_outbound d) = ident"
    "in_policy (d_inbound d) = d_policy d" "out_policy (d_outbound d) = d_policy d"
    "in_default_upstream (d_inbound d) = from_config (cfg_default_upstream (d_config d))"
    "in_discovery (d_inbound d) \<longleftrightarrow> cfg_default_upstream (d_config d) = None"
    "out_mux_enabled (d_outbound d) = cfg_mux (d_config d)"
    "in_shutdown (d_inbound d) = Some False" "out_shutdown (d_outbound d) = Some False"
    "d_admin d = (\<lambda>creds. with_reload_handler (admin_with_shutdown AdminServer_new False) (reload (dw_pki w) creds))"
    "in_gate (d_inbound d) = gate_new (unat (cfg_max_connections (d_config d)))"
    "out_gate (d_outbound d) = gate_new (unat (cfg_max_connections (d_config d)))"
proof -
  obtain config ident tls policy where s: "load (dw_config w) = Some (Inr config)" "daemon_identity config = Some ident"
    "reloader_load (dw_pki w) (dw_creds w) (paths_from_config (dw_creds w) config) ident (cfg_mux config) = Some (Inr tls)"
    "daemon_policy (dw_config w) ident = Some policy" "daemon_assemble w config tls policy = Some d"
    using daemon_start_Inr [OF assms] by blast
  have "reloader_reachable (dw_pki w) (paths_from_config (dw_creds w) config) ident (cfg_mux config) tls"
    using s(3) by (rule reloader_reachable.loaded)
  with s show ?thesis
    by (intro that [of ident])
       (auto simp: daemon_assemble_def TcpProxy_new_with_discovery_def OutboundProxy_new_with_discovery_def
         daemon_identity_local bind_eq_Some_conv Let_def tcp_with_shutdown_def outbound_with_shutdown_def
         to_proxy_config_fields)
qed

text \<open>The exporter listens on the built-in port: the configured \<open>metrics_port\<close> is not read.\<close>

lemma metrics_port_ignored:
  assumes "daemon_start w = Some (Inr d)"
  shows "d_metrics d = dw_install w (SocketAddr_new (V4 0 0 0 0) METRICS_PORT)"
proof -
  obtain config tls policy where "daemon_assemble w config tls policy = Some d"
    using daemon_start_Inr [OF assms] by metis
  then have "d_metrics d = init_metrics_exporter (dw_install w)"
    by (auto simp: daemon_assemble_def bind_eq_Some_conv)
  then show ?thesis
    by (cases "dw_install w (SocketAddr_new (V4 0 0 0 0) METRICS_PORT)") (simp_all add: init_metrics_exporter_def)
qed

subsection \<open>The default policy\<close>

lemma daemon_policy_allow:
  assumes "canonical_id ident" and "valid_id ident"
  shows "daemon_policy w ident = Some
    (let engine = set_global_policies PolicyEngine_new [\<lparr>rule_source = id_pattern ident, rule_destination = id_pattern ident,
           rule_decision = Allow, rule_description = ''allow replicas of this workload identity''\<rparr>] in
     if env_var w ''INTERLINK_ALLOW_ALL'' = Some ''true'' then set_default_decision engine Allow else engine)"
  by (simp add: daemon_policy_def allow_def pattern_of_id [OF assms] Let_def)

lemma daemon_policy_wf:
  assumes "canonical_id ident" and "valid_id ident" and "daemon_policy w ident = Some engine"
  shows "wf_engine engine"
proof -
  have "wf_pattern (id_pattern ident)" using compiled_from_id [OF assms(2)] by (auto simp: wf_pattern_def)
  then show ?thesis
    using assms(3) by (cases "env_var w ''INTERLINK_ALLOW_ALL'' = Some ''true''")
      (auto simp: daemon_policy_allow [OF assms(1,2)] Let_def wf_engine_def wf_rule_def
        set_global_policies_def set_default_decision_def PolicyEngine_new_def)
qed

lemma daemon_policy_decides:
  assumes "canonical_id ident" and "valid_id ident" and "literal_id ident"
    and "daemon_policy w ident = Some engine" and "env_var w ''INTERLINK_ALLOW_ALL'' \<noteq> Some ''true''"
    and "valid_id a" and "valid_id b"
  shows "evaluate engine a b = Some (if a = ident \<and> b = ident then Allow else Deny ''no matching policy'')"
proof -
  have engine: "engine = set_global_policies PolicyEngine_new [\<lparr>rule_source = id_pattern ident, rule_destination = id_pattern ident,
           rule_decision = Allow, rule_description = ''allow replicas of this workload identity''\<rparr>]"
    using assms(4,5) by (simp add: daemon_policy_allow [OF assms(1,2)] Let_def)
  have "policy_spec engine a b = (if a = ident \<and> b = ident then Allow else Deny ''no matching policy'')"
    using matches_literal_id [OF assms(1-3) assms(6)] matches_literal_id [OF assms(1-3) assms(7)]
    by (auto simp: policy_spec_def rules_for_def scoped_rules_def engine set_global_policies_def PolicyEngine_new_def
        applies_def)
  then show ?thesis
    using evaluate_policy_spec [OF daemon_policy_wf [OF assms(1,2,4)] assms(6,7)] by simp
qed

text \<open>A started daemon without the benchmark escape hatch allows its own identity and nothing else.\<close>

lemma daemon_default_deny:
  assumes start: "daemon_start w = Some (Inr d)" and utf8: "pki_utf8 (dw_pki w)"
    and env: "env_var (dw_config w) ''INTERLINK_ALLOW_ALL'' \<noteq> Some ''true''"
    and literal: "literal_id (in_local_id (d_inbound d))"
  obtains ident where "in_local_id (d_inbound d) = ident" "out_local_id (d_outbound d) = ident"
    "in_policy (d_inbound d) = d_policy d" "out_policy (d_outbound d) = d_policy d"
    "valid_id ident" "wf_engine (d_policy d)"
    "\<And>a b. valid_id a \<Longrightarrow> valid_id b \<Longrightarrow>
       evaluate (d_policy d) a b = Some (if a = ident \<and> b = ident then Allow else Deny ''no matching policy'')"
proof -
  from daemon_start_parts [OF start] obtain ident where
    r: "reloader_reachable (dw_pki w) (paths_from_config (dw_creds w) (d_config d)) ident (cfg_mux (d_config d)) (d_tls d)"
    and policy: "daemon_policy (dw_config w) ident = Some (d_policy d)"
    and ids: "in_local_id (d_inbound d) = ident" "out_local_id (d_outbound d) = ident"
      "in_policy (d_inbound d) = d_policy d" "out_policy (d_outbound d) = d_policy d" by metis
  obtain cert where "spiffe_id_from_cert_der (dw_pki w) cert = Some (Inr ident)"
    using reloader_reachable_sound [OF r utf8] unfolding sound_generation_def by blast
  note id = cert_identity_canonical [OF utf8 this]
  have lit: "literal_id ident" using literal ids by simp
  from that [OF ids id(1) daemon_policy_wf [OF id(2,1) policy] daemon_policy_decides [OF id(2,1) lit policy env]]
  show ?thesis by blast
qed

subsection \<open>Properties\<close>

text \<open>
  C23. The daemon has one identity: once it started, both proxies judge by the identity the loaded
  certificate carries (the one configured, or \<open>default/proxy\<close> of the trust domain), they share one
  policy, and both admit as many connections as configured.
\<close>

theorem daemon_one_identity:
  assumes "daemon_start w = Some (Inr d)" and "pki_utf8 (dw_pki w)"
  shows "\<exists>ident. in_local_id (d_inbound d) = ident \<and> out_local_id (d_outbound d) = ident
    \<and> rl_expected_identity (d_tls d) = ident
    \<and> spiffe_id_from_cert_der (dw_pki w) (server_cert (gen_server (rl_generation (d_tls d)))) = Some (Inr ident)
    \<and> canonical_id ident \<and> valid_id ident
    \<and> (case cfg_identity (d_config d) of
         Some uri \<Rightarrow> SpiffeId_from_uri uri = Some (Inr ident)
       | None \<Rightarrow> ident = SpiffeId_new (cfg_trust_domain (d_config d)) ''default'' ''proxy'')
    \<and> in_policy (d_inbound d) = out_policy (d_outbound d)
    \<and> gate_inv (unat (cfg_max_connections (d_config d))) (in_gate (d_inbound d))
    \<and> gate_inv (unat (cfg_max_connections (d_config d))) (out_gate (d_outbound d))
    \<and> 0 < cfg_max_connections (d_config d)"
proof -
  from daemon_start_parts [OF assms(1)] obtain ident where
    i: "daemon_identity (d_config d) = Some ident" and l: "load (dw_config w) = Some (Inr (d_config d))"
    and r: "reloader_reachable (dw_pki w) (paths_from_config (dw_creds w) (d_config d)) ident (cfg_mux (d_config d)) (d_tls d)"
    and p: "in_local_id (d_inbound d) = ident" "out_local_id (d_outbound d) = ident"
      "in_policy (d_inbound d) = out_policy (d_outbound d)"
      "in_gate (d_inbound d) = gate_new (unat (cfg_max_connections (d_config d)))"
      "out_gate (d_outbound d) = gate_new (unat (cfg_max_connections (d_config d)))" by metis
  have adm: "admissible (d_config d)" using l by (simp add: load_ok_iff)
  obtain cert where c: "server_cert (gen_server (rl_generation (d_tls d))) = cert"
    "spiffe_id_from_cert_der (dw_pki w) cert = Some (Inr ident)" "rl_expected_identity (d_tls d) = ident"
    using reloader_reachable_sound [OF r assms(2)] by (auto simp: sound_generation_def)
  have "case cfg_identity (d_config d) of
         Some uri \<Rightarrow> SpiffeId_from_uri uri = Some (Inr ident)
       | None \<Rightarrow> ident = SpiffeId_new (cfg_trust_domain (d_config d)) ''default'' ''proxy''"
    using i adm by (auto simp: daemon_identity_def admissible_def try_new_Inr_iff SpiffeId_new_def split: option.splits)
  moreover have "0 < cfg_max_connections (d_config d)"
    using adm by (simp add: admissible_def word_neq_0_conv)
  ultimately show ?thesis
    using p c cert_identity_canonical [OF assms(2) c(2)] by auto
qed

definition world_utf8 :: "config_world \<Rightarrow> bool" where
  "world_utf8 w = (env_utf8 w \<and> (\<forall>text cfg i. from_json w text = Inr cfg \<longrightarrow> cfg_identity cfg = Some i \<longrightarrow> valid_utf8 i))"

lemma file_layer_identity:
  assumes "file_layer w = Inr base" and "cfg_identity base = Some v"
  shows "\<exists>text cfg. from_json w text = Inr cfg \<and> cfg_identity cfg = Some v"
proof (cases "path_exists w (config_file w)")
  case True
  then have "with_file w Config_default (config_file w) = Inr base" using assms(1) by (simp add: file_layer_def)
  then obtain contents cfg where "from_json w contents = Inr cfg"
    "cfg_identity base = keep_if_none (cfg_identity cfg) (cfg_identity Config_default)"
    unfolding with_file_def and_then_Inr_iff by fastforce
  moreover have "cfg_identity Config_default = None" by (simp add: Config_default_def)
  ultimately show ?thesis using assms(2) by (auto simp: keep_if_none_def split: if_splits)
next
  case False
  then have "base = Config_default" using assms(1) by (simp add: file_layer_def)
  then show ?thesis using assms(2) by (simp add: Config_default_def)
qed

lemma with_env_identity:
  assumes "with_env w base = Inr cfg"
  shows "cfg_identity cfg = env_text w ''INTERLINK_IDENTITY'' Some (cfg_identity base)"
proof -
  obtain a b c n where "cfg = env_layer w base a b c n" using assms unfolding with_env_layer and_then_Inr_iff by blast
  then show ?thesis by (simp add: env_layer_def)
qed

lemma layered_identity_utf8:
  assumes "world_utf8 w" and "and_then (file_layer w) (with_env w) = Inr cfg" and "cfg_identity cfg = Some i"
  shows "valid_utf8 i"
proof -
  obtain base where base: "file_layer w = Inr base" "with_env w base = Inr cfg"
    using assms(2) unfolding and_then_Inr_iff by blast
  show ?thesis
  proof (cases "env_var w ''INTERLINK_IDENTITY''")
    case None
    then have "cfg_identity base = Some i" using with_env_identity [OF base(2)] assms(3) by (simp add: env_text_def)
    then show ?thesis using file_layer_identity [OF base(1)] assms(1) unfolding world_utf8_def by blast
  next
    case (Some v)
    then have "i = v" using with_env_identity [OF base(2)] assms(3) by (simp add: env_text_def)
    then show ?thesis using Some assms(1) unfolding world_utf8_def env_utf8_def by blast
  qed
qed

lemma load_returns:
  assumes "world_utf8 w"
  shows "load w \<noteq> None"
proof (cases "and_then (file_layer w) (with_env w)")
  case (Inr cfg)
  then have "\<And>i. cfg_identity cfg = Some i \<Longrightarrow> SpiffeId_from_uri i \<noteq> None"
    using layered_identity_utf8 [OF assms] SpiffeId_from_uri_no_panic by blast
  then have "validate w cfg \<noteq> None" by (cases "cfg_identity cfg") (auto simp: validate_def)
  then show ?thesis using Inr by (auto simp: load_layers)
qed (simp add: load_layers)

lemma daemon_identity_returns: "admissible config \<Longrightarrow> daemon_identity config \<noteq> None"
  by (auto simp: daemon_identity_def admissible_def try_new_def validate_segments_def SpiffeId_new_def Let_def
      split: option.splits)

lemma daemon_assemble_panics_iff:
  assumes "tokio_semaphore (dw_semaphore w)" and "daemon_identity config = Some ident"
  shows "daemon_assemble w config tls policy = None \<longleftrightarrow> MAX_PERMITS < unat (cfg_max_connections config)"
proof -
  let ?n = "unat (cfg_max_connections config)"
  have sem: "dw_semaphore w ?n \<noteq> None \<longleftrightarrow> ?n \<le> MAX_PERMITS"
    using assms(1) by (simp only: tokio_semaphore_def)
  show ?thesis
  proof (cases "dw_semaphore w ?n")
    case None
    with sem show ?thesis
      by (simp add: daemon_assemble_def TcpProxy_new_with_discovery_def daemon_identity_local assms(2)
          to_proxy_config_fields)
  next
    case (Some u)
    with sem have "?n \<le> MAX_PERMITS" by simp
    with Some show ?thesis
      by (simp add: daemon_assemble_def TcpProxy_new_with_discovery_def OutboundProxy_new_with_discovery_def
          daemon_identity_local assms(2) to_proxy_config_fields Let_def)
  qed
qed

text \<open>
  C18. Starting up trips over an \<open>unwrap\<close>, \<open>expect\<close> or library assertion in one case only: whatever
  the environment, the configuration file and the credential files hold, \<open>main\<close> ends with an error
  or with a running daemon, except that a configuration which passes validation with a
  \<open>max_connections\<close> above what a semaphore can hold panics where the proxies are made. The policy
  rule that is unwrapped is made from an identity that the certificate has already proved to be
  well formed.
\<close>

theorem daemon_start_panics_iff:
  assumes "world_utf8 (dw_config w)" and "pki_utf8 (dw_pki w)" and "tokio_semaphore (dw_semaphore w)"
  shows "daemon_start w = None \<longleftrightarrow>
    (\<exists>config ident tls. load (dw_config w) = Some (Inr config) \<and> daemon_identity config = Some ident
       \<and> reloader_load (dw_pki w) (dw_creds w) (paths_from_config (dw_creds w) config) ident (cfg_mux config) = Some (Inr tls)
       \<and> dw_resolver_new w = Inr () \<and> MAX_PERMITS < unat (cfg_max_connections config))"
proof -
  obtain loaded where load: "load (dw_config w) = Some loaded" using load_returns [OF assms(1)] by blast
  show ?thesis
  proof (cases loaded)
    case (Inl e)
    then show ?thesis by (simp add: daemon_start_def load)
  next
    case (Inr config)
    then have "admissible config" using load by (simp add: load_ok_iff)
    then obtain ident where ident: "daemon_identity config = Some ident" using daemon_identity_returns by blast
    let ?paths = "paths_from_config (dw_creds w) config"
    obtain r where "build_generation (dw_pki w) (dw_creds w) ?paths ident (cfg_mux config) = Some r"
      using build_generation_returns [OF assms(2)] by blast
    then obtain tls_result where tr: "reloader_load (dw_pki w) (dw_creds w) ?paths ident (cfg_mux config) = Some tls_result"
      by (cases "cw_join_error (dw_creds w)") (simp_all add: reloader_load_def load_generation_def)
    show ?thesis
    proof (cases tls_result)
      case (Inl e)
      then show ?thesis using Inr by (simp add: daemon_start_def load ident tr)
    next
      case tls: (Inr tls)
      from reloader_reachable_sound [OF reloader_reachable.loaded assms(2)] tr tls
      obtain cert where "spiffe_id_from_cert_der (dw_pki w) cert = Some (Inr ident)"
        unfolding sound_generation_def by blast
      then obtain policy where policy: "daemon_policy (dw_config w) ident = Some policy"
        using cert_identity_canonical [OF assms(2)] by (simp only: daemon_policy_allow)
      have "daemon_start w = None \<longleftrightarrow> dw_resolver_new w = Inr () \<and> daemon_assemble w config tls policy = None"
        using Inr tls by (cases "dw_resolver_new w") (simp_all add: daemon_start_def load ident tr policy bind_eq_None_conv)
      then show ?thesis
        using Inr tls by (simp add: load ident tr daemon_assemble_panics_iff [OF assms(3) ident])
    qed
  qed
qed

text \<open>
  C1. Only replicas talk to each other: in a started daemon without the benchmark escape hatch and
  with an identity free of wildcards, after any reloads, the inbound proxy passes data on only from
  a peer whose certificate carries exactly this workload's identity, and in every reachable state
  the outbound proxy sends data only over a session, of a tunnel or of its own, in which the peer's
  certificate carries it.
\<close>

theorem mesh_only_replicas:
  assumes start: "daemon_start w = Some (Inr d)" and utf8: "pki_utf8 (dw_pki w)"
    and env: "env_var (dw_config w) ''INTERLINK_ALLOW_ALL'' \<noteq> Some ''true''"
    and literal: "literal_id (in_local_id (d_inbound d))" and tls: "tls_ok (dw_pki w) g"
  shows "(ie_accept inp = reloader_accept (dw_pki w) keep out creds \<longrightarrow>
      tcp_handle_connection (d_inbound d) inp target g = Some (g', effs) \<longrightarrow> (\<exists>e \<in> set effs. carries_data e) \<longrightarrow>
      (\<exists>s. out (gen_server (rl_generation creds)) = Established s
         \<and> leaf_names (dw_pki w) s (in_local_id (d_inbound d))))
    \<and> (outbound_reachable (dw_pki w) (d_outbound d) g sys \<longrightarrow>
      (ob_tasks sys t = Some (Routed (MuxStream u)) \<longrightarrow> leaf_names (dw_pki w) (tun_session u) (in_local_id (d_inbound d)))
      \<and> (ob_tasks sys t = Some (Routed (Legacy ts)) \<longrightarrow> leaf_names (dw_pki w) (ts_inner ts) (in_local_id (d_inbound d))))"
proof -
  from daemon_default_deny [OF start utf8 env literal] obtain ident where
    ids: "in_local_id (d_inbound d) = ident" "out_local_id (d_outbound d) = ident"
      "in_policy (d_inbound d) = d_policy d" "out_policy (d_outbound d) = d_policy d"
    and id: "valid_id ident" and wf: "wf_engine (d_policy d)"
    and judges: "\<And>a b. valid_id a \<Longrightarrow> valid_id b \<Longrightarrow>
       evaluate (d_policy d) a b = Some (if a = ident \<and> b = ident then Allow else Deny ''no matching policy'')"
    by metis
  have decides: "a = ident \<and> b = ident" if "evaluate (d_policy d) a b = Some Allow" "valid_id a" "valid_id b" for a b
    using judges [OF that(2,3)] that(1) by (auto split: if_splits)
  have inbound: "\<exists>s. out (gen_server (rl_generation creds)) = Established s \<and> session_identity (dw_pki w) s = Some (Inr ident)"
    if acc: "ie_accept inp = reloader_accept (dw_pki w) keep out creds"
      and run: "tcp_handle_connection (d_inbound d) inp target g = Some (g', effs)" "\<exists>e \<in> set effs. carries_data e"
  proof -
    let ?srv = "gen_server (rl_generation creds)" and ?g1 = "on_metrics record_connection_start g"
    have acc': "ie_accept inp = TlsServer_accept (dw_pki w) keep out ?srv"
      using acc by (simp add: fun_eq_iff reloader_accept_def)
    obtain ts g2 where ts: "TlsServer_accept (dw_pki w) keep out ?srv ?g1 = Some (Inr ts, g2)"
      "evaluate (d_policy d) (ts_peer_identity ts) ident = Some Allow"
      using server_accept.inbound_connection [OF tls _ _ acc', of "d_inbound d" target] run wf id ids by auto
    have ok1: "tls_ok (dw_pki w) ?g1" using tls by simp
    have "valid_id (ts_peer_identity ts)" using server_accept.shake_identity [OF ok1 ts(1)] by simp
    then have "ts_peer_identity ts = ident" using decides [OF ts(2)] id by simp
    with finish_handshake_spec [OF ok1, of keep "out ?srv"] ts(1) show ?thesis by (auto simp: TlsServer_accept_def)
  qed
  have sound: "sound_proxy (d_outbound d)" using wf id ids by (simp add: sound_proxy_def)
  have peer: "i = ident"
    if reach: "outbound_reachable (dw_pki w) (d_outbound d) g sys" and pc: "ob_tasks sys t = Some pc"
      and peer: "authorized_peer pc = Some i" for pc i
  proof -
    have "task_ok (d_outbound d) (ob_pool sys) pc"
      using outbound_reachable_inv [OF reach sound tls] pc unfolding outbound_inv_def tasks_ok_def by blast
    then have "valid_id i" "evaluate (d_policy d) ident i = Some Allow"
      using peer ids unfolding task_ok_def by simp_all
    then show ?thesis using decides id by blast
  qed
  have outbound: "ob_tasks sys t = Some (Routed (MuxStream u)) \<Longrightarrow> session_identity (dw_pki w) (tun_session u) = Some (Inr ident)"
    "ob_tasks sys t = Some (Routed (Legacy ts)) \<Longrightarrow> session_identity (dw_pki w) (ts_inner ts) = Some (Inr ident)"
    if reach: "outbound_reachable (dw_pki w) (d_outbound d) g sys"
  proof -
    have "route_proven (dw_pki w) pc" if "ob_tasks sys t = Some pc" for pc
      using outbound_reachable_proven [OF reach sound tls] that by (simp add: sessions_proven_def)
    with peer [OF reach] show
      "ob_tasks sys t = Some (Routed (MuxStream u)) \<Longrightarrow> session_identity (dw_pki w) (tun_session u) = Some (Inr ident)"
      "ob_tasks sys t = Some (Routed (Legacy ts)) \<Longrightarrow> session_identity (dw_pki w) (ts_inner ts) = Some (Inr ident)"
      by (fastforce simp: route_proven_def tunnel_proven_def)+
  qed
  show ?thesis unfolding ids leaf_names_iff using inbound outbound by blast
qed

text \<open>
  C29. Shutdown completes: whatever ends the wait for a signal, a started daemon's two proxies and its
  admin server see the shutdown, and each proxy's drain returns within 301 turns of its loop, with
  no connection active or after the thirty seconds of grace, provided a turn takes the 100 ms it
  sleeps.
\<close>

theorem daemon_shutdown_completes:
  assumes "daemon_start w = Some (Inr d)" and "\<forall>i. now i + 100 \<le> now (Suc i)" and "start \<le> now 0"
  shows "wait_shutdown (in_shutdown (d_inbound d)) (daemon_shutdown s) \<noteq> None
    \<and> wait_shutdown (out_shutdown (d_outbound d)) (daemon_shutdown s) \<noteq> None
    \<and> admin_wait_shutdown (admin_shutdown (d_admin d creds)) (daemon_shutdown s) \<noteq> None
    \<and> (\<exists>out j. wait_for_graceful_shutdown active start now 301 = Some (out, j) \<and> j \<le> 300
        \<and> (out = Drained \<longrightarrow> active j = 0)
        \<and> (out = GraceExpired \<longrightarrow> start + 30000 \<le> now j \<and> active j \<noteq> 0)
        \<and> (\<forall>k < j. active k \<noteq> 0 \<and> now k < start + 30000))"
proof -
  have ev: "daemon_shutdown s = [Changed True]" by (simp add: daemon_shutdown_def split: sum.splits)
  from daemon_start_parts [OF assms(1)] have sh: "in_shutdown (d_inbound d) = Some False"
    "out_shutdown (d_outbound d) = Some False" and admin: "d_admin d =
      (\<lambda>creds. with_reload_handler (admin_with_shutdown AdminServer_new False) (reload (dw_pki w) creds))"
    by metis+
  have "admin_shutdown (d_admin d creds) = Some False"
    by (simp add: admin with_reload_handler_def admin_with_shutdown_def)
  with sh show ?thesis
    using graceful_shutdown_terminates [OF assms(2,3), of active]
    by (simp add: wait_shutdown_def ev admin_wait_shutdown_def)
qed

text \<open>
  C39. A hostname as default upstream cannot be served inbound: \<open>main\<close> hands the resolver to the inbound
  proxy only when no default upstream is configured, so every connection is directed to the
  hostname, fails to resolve it and is dropped before the TLS handshake.
\<close>

theorem inbound_hostname_never_resolves:
  assumes "daemon_start w = Some (Inr d)" and "from_config (cfg_default_upstream (d_config d)) = Some (Host name port)"
  shows "tcp_choose_upstream (d_inbound d) original_dst = Some (Host name port)
    \<and> tcp_handle_connection (d_inbound d) inp (Host name port) g =
        Some (on_metrics record_connection_failed (on_metrics record_connection_start g), [])"
proof -
  from daemon_start_parts [OF assms(1)] have
    up: "in_default_upstream (d_inbound d) = from_config (cfg_default_upstream (d_config d))"
    and disc: "in_discovery (d_inbound d) \<longleftrightarrow> cfg_default_upstream (d_config d) = None" by metis+
  have "cfg_default_upstream (d_config d) \<noteq> None" using assms(2) by (cases "cfg_default_upstream (d_config d)") (simp_all add: from_config_def)
  then show ?thesis
    using up disc assms(2) by (simp add: tcp_choose_upstream_def tcp_handle_connection_def tcp_resolve_upstream_def Let_def)
qed

subsection \<open>Examples\<close>

text \<open>
  A daemon whose credentials carry the configured identity, whose default upstream is \<open>up\<close> and
  whose connection limit is the text \<open>conns\<close>.
\<close>

definition sample_daemon_config :: "string \<Rightarrow> string \<Rightarrow> config_world" where
  "sample_daemon_config conns up = sample_world\<lparr>env_var := (\<lambda>n.
     if n = ''INTERLINK_MAX_CONNECTIONS'' then Some conns
     else if n = ''INTERLINK_CA_BUNDLE_PATH'' then Some ''ca''
     else if n = ''INTERLINK_CERT_PATH'' then Some ''crt''
     else if n = ''INTERLINK_KEY_PATH'' then Some ''key''
     else if n = ''INTERLINK_DEFAULT_UPSTREAM'' then Some up
     else env_var sample_world n)\<rparr>"

definition daemon_with_limit :: "string \<Rightarrow> string \<Rightarrow> daemon_world" where
  "daemon_with_limit conns up = \<lparr>dw_config = sample_daemon_config conns up, dw_creds = sample_creds, dw_pki = sample_pki,
     dw_resolver_new = Inr (), dw_semaphore = (\<lambda>n. if n \<le> MAX_PERMITS then Some () else None), dw_install = (\<lambda>_. Inr ())\<rparr>"

abbreviation sample_daemon :: "string \<Rightarrow> daemon_world" where
  "sample_daemon \<equiv> daemon_with_limit ''512''"

lemma sample_daemon_load:
  assumes "parse_usize conns = Inr n" and "n \<noteq> 0"
  shows "load (sample_daemon_config conns up) = Some (Inr (Config_default\<lparr>cfg_max_connections := n,
     cfg_identity := Some ''spiffe://t/ns/n/sa/s'', cfg_ca_bundle_path := Some ''ca'', cfg_cert_path := Some ''crt'',
     cfg_key_path := Some ''key'', cfg_default_upstream := Some up\<rparr>))"
proof -
  have "SpiffeId_from_uri ''spiffe://t/ns/n/sa/s'' = Some (Inr (SpiffeId_new ''t'' ''n'' ''s''))" by code_simp
  then show ?thesis
    using assms by (simp add: load_def with_env_def validate_def config_file_def sample_daemon_config_def sample_world_def env_set_def
        env_parse_def parse_max_connections_def Config_default_def Let_def)
qed

lemma sample_limits: "parse_usize ''512'' = Inr 512" "parse_usize ''2305843009213693952'' = Inr 2305843009213693952"
  by (simp_all add: parse_usize_def parse_unsigned_def is_ascii_digit_def byte_def)

lemma sample_identity: "SpiffeId_from_uri ''spiffe://t/ns/n/sa/s'' = Some (Inr sample_id)"
  by code_simp

lemma sample_id_literal: "canonical_id sample_id" "literal_id sample_id"
  by code_simp+

lemma sample_daemon_start:
  obtains d where "daemon_start (sample_daemon up) = Some (Inr d)" "cfg_default_upstream (d_config d) = Some up"
    "in_local_id (d_inbound d) = sample_id"
proof -
  let ?c = "Config_default\<lparr>cfg_max_connections := 512,
     cfg_identity := Some ''spiffe://t/ns/n/sa/s'', cfg_ca_bundle_path := Some ''ca'', cfg_cert_path := Some ''crt'',
     cfg_key_path := Some ''key'', cfg_default_upstream := Some up\<rparr>"
  have ident: "daemon_identity ?c = Some sample_id" by (simp add: daemon_identity_def sample_identity)
  have paths: "paths_from_config sample_creds ?c = sample_paths"
    by (simp add: paths_from_config_def sample_paths_def)
  have mux: "cfg_mux ?c" by (simp add: Config_default_def)
  obtain tls where tls: "reloader_load sample_pki sample_creds sample_paths sample_id True = Some (Inr tls)"
    using sample_load by blast
  obtain policy where policy: "daemon_policy (sample_daemon_config ''512'' up) sample_id = Some policy"
    using daemon_policy_allow [OF sample_id_literal(1) sample_id_valid] by simp
  have sem: "dw_semaphore (sample_daemon up) 512 = Some ()" by (simp add: daemon_with_limit_def MAX_PERMITS_def)
  have conn: "unat (512 :: 64 word) = 512" by simp
  obtain d where d: "daemon_assemble (sample_daemon up) ?c tls policy = Some d" "d_config d = ?c"
    by (simp add: sem conn to_proxy_config_fields daemon_assemble_def TcpProxy_new_with_discovery_def OutboundProxy_new_with_discovery_def
        daemon_identity_local ident Let_def)
  have start: "daemon_start (sample_daemon up) = Some (Inr d)"
    using sample_daemon_load [OF sample_limits(1), of up] ident paths mux tls policy d
    by (simp add: daemon_start_def daemon_with_limit_def)
  from daemon_start_parts [OF start] have "daemon_identity (d_config d) = Some (in_local_id (d_inbound d))" by metis
  then have "in_local_id (d_inbound d) = sample_id" using ident d(2) by simp
  then show ?thesis using that start d(2) by simp
qed

lemma sample_daemon_fields:
  "dw_pki (daemon_with_limit conns up) = sample_pki" "dw_config (daemon_with_limit conns up) = sample_daemon_config conns up"
  "dw_creds (daemon_with_limit conns up) = sample_creds" "dw_resolver_new (daemon_with_limit conns up) = Inr ()"
  by (simp_all add: daemon_with_limit_def)

theorem daemon_one_identity_witness:
  "\<exists>d. daemon_start (sample_daemon ''127.0.0.1:80'') = Some (Inr d) \<and> out_local_id (d_outbound d) = sample_id
     \<and> rl_expected_identity (d_tls d) = sample_id"
proof -
  obtain d where d: "daemon_start (sample_daemon ''127.0.0.1:80'') = Some (Inr d)" "in_local_id (d_inbound d) = sample_id"
    using sample_daemon_start by metis
  from daemon_one_identity [OF d(1)] sample_pki_utf8 d(2) have "out_local_id (d_outbound d) = sample_id"
    "rl_expected_identity (d_tls d) = sample_id" by (auto simp: sample_daemon_fields)
  then show ?thesis using d(1) by blast
qed

lemma sample_daemon_utf8: "valid_utf8 conns \<Longrightarrow> valid_utf8 up \<Longrightarrow> world_utf8 (sample_daemon_config conns up)"
  by (auto simp: world_utf8_def env_utf8_def sample_daemon_config_def sample_world_def valid_utf8_all_ascii byte_def
      Config_default_def)

lemma sample_daemon_semaphore: "tokio_semaphore (dw_semaphore (daemon_with_limit conns up))"
  by (simp add: tokio_semaphore_def daemon_with_limit_def)

theorem daemon_start_panics_iff_witness:
  "daemon_start (sample_daemon ''127.0.0.1:80'') \<noteq> None
   \<and> daemon_start (daemon_with_limit ''2305843009213693952'' ''127.0.0.1:80'') = None"
proof -
  have utf8: "valid_utf8 ''127.0.0.1:80''" "valid_utf8 ''512''" "valid_utf8 ''2305843009213693952''"
    by (simp_all add: valid_utf8_all_ascii byte_def)
  have world: "pki_utf8 (dw_pki (daemon_with_limit conns up))" for conns up
    using sample_pki_utf8 by (simp add: sample_daemon_fields)
  have start: "daemon_start (sample_daemon ''127.0.0.1:80'') \<noteq> None"
    using daemon_start_panics_iff [OF _ world sample_daemon_semaphore, of "''512''" "''127.0.0.1:80''"]
      sample_daemon_load [OF sample_limits(1), of "''127.0.0.1:80''"] sample_daemon_utf8 [OF utf8(2,1)]
    by (auto simp: sample_daemon_fields MAX_PERMITS_def)
  let ?c = "Config_default\<lparr>cfg_max_connections := 2305843009213693952,
     cfg_identity := Some ''spiffe://t/ns/n/sa/s'', cfg_ca_bundle_path := Some ''ca'', cfg_cert_path := Some ''crt'',
     cfg_key_path := Some ''key'', cfg_default_upstream := Some ''127.0.0.1:80''\<rparr>"
  obtain tls where tls: "reloader_load sample_pki sample_creds sample_paths sample_id True = Some (Inr tls)"
    using sample_load by blast
  have "load (sample_daemon_config ''2305843009213693952'' ''127.0.0.1:80'') = Some (Inr ?c)"
    by (rule sample_daemon_load [OF sample_limits(2)]) simp
  moreover have "daemon_identity ?c = Some sample_id" by (simp add: daemon_identity_def sample_identity)
  moreover have "reloader_load sample_pki sample_creds (paths_from_config sample_creds ?c) sample_id (cfg_mux ?c) = Some (Inr tls)"
    using tls by (simp add: paths_from_config_def sample_paths_def Config_default_def)
  moreover have "MAX_PERMITS < unat (cfg_max_connections ?c)" by (simp add: MAX_PERMITS_def)
  ultimately have "daemon_start (daemon_with_limit ''2305843009213693952'' ''127.0.0.1:80'') = None"
    using daemon_start_panics_iff [OF _ world sample_daemon_semaphore, of "''2305843009213693952''" "''127.0.0.1:80''"]
      sample_daemon_utf8 [OF utf8(3,1)]
    unfolding sample_daemon_fields by blast
  with start show ?thesis by simp
qed

theorem mesh_only_replicas_witness:
  "\<exists>d s. daemon_start (sample_daemon ''127.0.0.1:80'') = Some (Inr d) \<and> Established sample_session = Established s
     \<and> leaf_names sample_pki s (in_local_id (d_inbound d))"
proof -
  let ?w = "sample_daemon ''127.0.0.1:80''"
  obtain d where d: "daemon_start ?w = Some (Inr d)" "in_local_id (d_inbound d) = sample_id"
    using sample_daemon_start by metis
  have env: "env_var (dw_config ?w) ''INTERLINK_ALLOW_ALL'' \<noteq> Some ''true''"
    by (simp add: sample_daemon_fields sample_daemon_config_def sample_world_def)
  from daemon_start_parts [OF d(1)] have "daemon_policy (dw_config ?w) sample_id = Some (in_policy (d_inbound d))"
    using d(2) by metis
  from daemon_policy_decides [OF sample_id_literal(1) sample_id_valid sample_id_literal(2) this env sample_id_valid sample_id_valid]
  have allowed: "evaluate (in_policy (d_inbound d)) sample_id sample_id = Some Allow" by simp
  let ?accept = "reloader_accept sample_pki UNIV (\<lambda>_. Established sample_session) (d_tls d)"
  obtain g' effs where run: "tcp_handle_connection (d_inbound d) (sample_env\<lparr>ie_accept := ?accept\<rparr>) sample_target sample_globals =
     Some (g', effs)" "\<exists>e \<in> set effs. carries_data e"
    by (simp add: tcp_handle_connection_def d(2) sample_env_def sample_target_def tcp_resolve_upstream_def
      reloader_accept_def TlsServer_accept_def finish_handshake_def extract_identity_from_tls_stream_def
      sample_session_def sample_globals_def sample_cert allowed tcp_serve_def negotiated_alpn_def
      tcp_relay_def Let_def)
  have hyps: "pki_utf8 (dw_pki ?w)" "literal_id (in_local_id (d_inbound d))" "tls_ok (dw_pki ?w) sample_globals"
    using sample_pki_utf8 sample_id_literal sample_coherent d(2) by (simp_all add: sample_daemon_fields)
  from mesh_only_replicas [OF d(1) hyps(1) env hyps(2,3), of "sample_env\<lparr>ie_accept := ?accept\<rparr>"] run
  show ?thesis unfolding sample_daemon_fields using d(1) by (metis (no_types, lifting) inbound_env.select_convs(2) inbound_env.update_convs(2) inbound_env.surjective)
qed

theorem daemon_shutdown_completes_witness:
  "\<exists>d out j. daemon_start (sample_daemon ''127.0.0.1:80'') = Some (Inr d)
     \<and> wait_shutdown (in_shutdown (d_inbound d)) (daemon_shutdown Terminate) \<noteq> None
     \<and> wait_for_graceful_shutdown (\<lambda>i. if i < 3 then 1 else 0) 0 (\<lambda>i. 100 * i) 301 = Some (out, j)"
proof -
  obtain d where d: "daemon_start (sample_daemon ''127.0.0.1:80'') = Some (Inr d)" using sample_daemon_start by metis
  have "\<forall>i::nat. 100 * i + 100 \<le> 100 * Suc i" "(0 :: nat) \<le> 100 * 0" by simp_all
  from daemon_shutdown_completes [OF d this, of Terminate sample_creds "\<lambda>i. if i < 3 then 1 else 0"]
  show ?thesis using d by (auto simp del: not_None_eq)
qed

theorem inbound_hostname_never_resolves_witness:
  "\<exists>d. daemon_start (sample_daemon ''svc'') = Some (Inr d)
     \<and> tcp_choose_upstream (d_inbound d) None = Some (Host ''svc'' None)
     \<and> (\<exists>g'. tcp_handle_connection (d_inbound d) sample_env (Host ''svc'' None) sample_globals = Some (g', []))"
proof -
  obtain d where d: "daemon_start (sample_daemon ''svc'') = Some (Inr d)" "cfg_default_upstream (d_config d) = Some ''svc''"
    using sample_daemon_start by metis
  have "from_config (Some ''svc'') = Some (Host ''svc'' None)" by code_simp
  with inbound_hostname_never_resolves [OF d(1), of "''svc''" None None sample_env sample_globals] d
  show ?thesis by auto
qed

end
