(* ===== verification/Mesh.thy ===== *)
theory Mesh
  imports Daemon
begin

text \<open>
  Two sidecars on one connection: the outbound proxy of one daemon dials the inbound proxy of
  another. Each side runs its own handshake on its own credentials; what rustls makes of a client
  and a server that meet is a parameter, with its documented behaviour as a hypothesis. The
  theorem puts both proxies, both policies, both reloaders and the ALPN offers together.
\<close>

text \<open>
  A link is what the TLS library makes of one client and one server: the two sessions, or nothing
  when the handshake fails.
\<close>

type_synonym tls_link = "TlsClient \<Rightarrow> TlsServer \<Rightarrow> (tls_session \<times> tls_session) option"

text \<open>
  rustls: the handshake succeeds when the client's verifier accepts the server's certificate, the
  server's verifier accepts the client's and the ALPN offers meet. The endpoints are configured
  with the leaf alone, so no intermediate certificate is sent. Each side then has the
  certificate of the other, and both have the first protocol of the server that the client offers.
  A connection may resume an earlier session of the same two endpoints, without another check of
  the certificates; the session still has them. So \<open>checked\<close> is the time of the full handshake that
  the connection goes back to, its own or the one it resumes. Session stores belong to an endpoint,
  and a reload makes new endpoints: no session outlives the credentials it was checked with.
\<close>

definition mutual_tls :: "pki \<Rightarrow> (bytes list \<Rightarrow> bytes \<Rightarrow> bool) \<Rightarrow> nat \<Rightarrow> tls_link \<Rightarrow> bool" where
  "mutual_tls p client_ok checked link \<longleftrightarrow> (\<forall>cl sv.
     (link cl sv \<noteq> None \<longleftrightarrow>
        verify_server_cert p (client_checks cl) (server_cert sv) [] checked = Some (Inr ())
        \<and> (\<exists>cert key. client_auth cl = Some (cert, key) \<and> client_ok (server_roots sv) cert)
        \<and> (\<exists>a \<in> set (server_alpn sv). a \<in> set (client_alpn cl)))
     \<and> (\<forall>cs ss. link cl sv = Some (cs, ss) \<longrightarrow>
          peer_certificates cs = Some [server_cert sv]
          \<and> peer_certificates ss = map_option (\<lambda>(cert, key). [cert]) (client_auth cl)
          \<and> alpn_protocol cs = List.find (\<lambda>a. a \<in> set (client_alpn cl)) (server_alpn sv)
          \<and> alpn_protocol ss = alpn_protocol cs))"

definition client_end :: "tls_link \<Rightarrow> IoError \<Rightarrow> TlsServer \<Rightarrow> TlsClient \<Rightarrow> handshake_outcome" where
  "client_end link e sv cl = (case link cl sv of Some (cs, ss) \<Rightarrow> Established cs | None \<Rightarrow> HandshakeIo e)"

definition server_end :: "tls_link \<Rightarrow> IoError \<Rightarrow> TlsClient \<Rightarrow> TlsServer \<Rightarrow> handshake_outcome" where
  "server_end link e cl sv = (case link cl sv of Some (cs, ss) \<Rightarrow> Established ss | None \<Rightarrow> HandshakeIo e)"

text \<open>The two handshakes of one connection between the holders of the credentials \<open>a\<close> and \<open>b\<close>.\<close>

definition sidecar_connect ::
  "pki \<Rightarrow> bytes set \<Rightarrow> tls_link \<Rightarrow> IoError \<Rightarrow> TlsCredentialReloader \<Rightarrow> TlsCredentialReloader \<Rightarrow> SocketAddr \<Rightarrow> globals
     \<Rightarrow> ((InterlinkError, TlsStream) result \<times> globals) panicky" where
  "sidecar_connect p keep link e a b =
     reloader_connect p keep (\<lambda>_ _. Inr ()) (\<lambda>cl _. client_end link e (gen_server (rl_generation b)) cl) a"

definition sidecar_accept ::
  "pki \<Rightarrow> bytes set \<Rightarrow> tls_link \<Rightarrow> IoError \<Rightarrow> TlsCredentialReloader \<Rightarrow> TlsCredentialReloader \<Rightarrow> globals
     \<Rightarrow> ((InterlinkError, TlsStream) result \<times> globals) panicky" where
  "sidecar_accept p keep link e a b =
     reloader_accept p keep (server_end link e (gen_client (rl_generation a))) b"

text \<open>
  When the credentials of two replicas fit at the time they are checked: each leaf alone validates
  against the roots of the other side.
\<close>

definition credentials_fit :: "pki \<Rightarrow> (bytes list \<Rightarrow> bytes \<Rightarrow> bool) \<Rightarrow> nat \<Rightarrow> TlsCredentialReloader \<Rightarrow> TlsCredentialReloader \<Rightarrow> bool" where
  "credentials_fit p client_ok checked a b \<longleftrightarrow>
     (let cl = gen_client (rl_generation a); sv = gen_server (rl_generation b) in
      is_ok (end_entity_parse p (server_cert sv))
      \<and> is_ok (path_validate p (server_cert sv) (sv_roots (client_checks cl)) [] checked)
      \<and> (case client_auth cl of Some (cert, key) \<Rightarrow> client_ok (server_roots sv) cert | None \<Rightarrow> False))"

subsection \<open>The link\<close>

lemma finish_established:
  assumes "tls_ok p g" and "session_identity p s = Some (Inr i)"
  shows "\<exists>g'. finish_handshake p keep (Established s) g = Some (Inr \<lparr>ts_inner = s, ts_peer_identity = i\<rparr>, g')"
  using extract_identity_uncached [of p "on_metrics (record_handshake_kind (handshake_resumed s)) g" keep s] assms
  by (auto simp: finish_handshake_def)

lemma sound_generation_parts:
  assumes "sound_generation p ident m generation"
  obtains roots cert key where
    "client_checks (gen_client generation) = SpiffeServerVerifier_new roots (trust_domain ident)"
    "client_auth (gen_client generation) = Some (cert, key)"
    "client_alpn (gen_client generation) = (if m then alpn_protocols else legacy_alpn_protocols)"
    "server_roots (gen_server generation) = roots" "server_cert (gen_server generation) = cert"
    "server_alpn (gen_server generation) = (if m then alpn_protocols else legacy_alpn_protocols)"
    "spiffe_id_from_cert_der p cert = Some (Inr ident)"
proof -
  from assms obtain roots cert key where
    "gen_client generation = \<lparr>client_checks = SpiffeServerVerifier_new roots (trust_domain ident),
       client_auth = Some (cert, key), client_alpn = if m then alpn_protocols else legacy_alpn_protocols\<rparr>"
    "gen_server generation = \<lparr>server_roots = roots, server_cert = cert, server_key = key,
       server_alpn = if m then alpn_protocols else legacy_alpn_protocols\<rparr>"
    "spiffe_id_from_cert_der p cert = Some (Inr ident)"
    unfolding sound_generation_def by blast
  then show ?thesis by (intro that [of roots cert key]) simp_all
qed

lemma link_alpn_cases:
  "\<forall>m1 m2. (\<exists>a \<in> set (if m2 then alpn_protocols else legacy_alpn_protocols).
       a \<in> set (if m1 then alpn_protocols else legacy_alpn_protocols))
     \<and> (List.find (\<lambda>a. a \<in> set (if m1 then alpn_protocols else legacy_alpn_protocols))
          (if m2 then alpn_protocols else legacy_alpn_protocols) = Some ALPN_MUX \<longleftrightarrow> m1 \<and> m2)"
  unfolding all_bool_eq by code_simp

lemma link_alpn:
  "\<exists>a \<in> set (if m2 then alpn_protocols else legacy_alpn_protocols).
      a \<in> set (if m1 then alpn_protocols else legacy_alpn_protocols)"
  "List.find (\<lambda>a. a \<in> set (if m1 then alpn_protocols else legacy_alpn_protocols))
     (if m2 then alpn_protocols else legacy_alpn_protocols) = Some ALPN_MUX \<longleftrightarrow> m1 \<and> m2"
  using link_alpn_cases by blast+

lemma link_up_iff:
  assumes tls: "mutual_tls p client_ok checked link" and utf8: "pki_utf8 p"
    and a: "sound_generation p id1 m1 (rl_generation a)" and b: "sound_generation p id2 m2 (rl_generation b)"
  shows "link (gen_client (rl_generation a)) (gen_server (rl_generation b)) \<noteq> None \<longleftrightarrow>
    trust_domain id1 = trust_domain id2 \<and> credentials_fit p client_ok checked a b"
proof -
  let ?cl = "gen_client (rl_generation a)" and ?sv = "gen_server (rl_generation b)"
  obtain roots1 cert1 key1 where cl: "client_checks ?cl = SpiffeServerVerifier_new roots1 (trust_domain id1)"
    "client_auth ?cl = Some (cert1, key1)" "client_alpn ?cl = (if m1 then alpn_protocols else legacy_alpn_protocols)"
    by (rule sound_generation_parts [OF a])
  obtain roots2 cert2 where sv: "server_cert ?sv = cert2" "server_roots ?sv = roots2"
    "server_alpn ?sv = (if m2 then alpn_protocols else legacy_alpn_protocols)"
    "spiffe_id_from_cert_der p cert2 = Some (Inr id2)"
    by (rule sound_generation_parts [OF b])
  have "link ?cl ?sv \<noteq> None \<longleftrightarrow>
      verify_server_cert p (client_checks ?cl) (server_cert ?sv) [] checked = Some (Inr ())
      \<and> (\<exists>cert key. client_auth ?cl = Some (cert, key) \<and> client_ok (server_roots ?sv) cert)
      \<and> (\<exists>a \<in> set (server_alpn ?sv). a \<in> set (client_alpn ?cl))"
    using tls unfolding mutual_tls_def by blast
  also have "\<dots> \<longleftrightarrow> trust_domain id1 = trust_domain id2 \<and> credentials_fit p client_ok checked a b"
    unfolding verify_server_cert_ok_iff [OF utf8] credentials_fit_def Let_def cl sv
    using link_alpn(1) [of m2 m1] sv(4) by (auto simp: SpiffeServerVerifier_new_def)
  finally show ?thesis .
qed

lemma link_sessions:
  assumes tls: "mutual_tls p client_ok checked link"
    and a: "sound_generation p id1 m1 (rl_generation a)" and b: "sound_generation p id2 m2 (rl_generation b)"
    and link: "link (gen_client (rl_generation a)) (gen_server (rl_generation b)) = Some (cs, ss)"
  shows "session_identity p cs = Some (Inr id2)" and "session_identity p ss = Some (Inr id1)"
    and "negotiated_alpn cs = Some ALPN_MUX \<longleftrightarrow> m1 \<and> m2" and "negotiated_alpn ss = Some ALPN_MUX \<longleftrightarrow> m1 \<and> m2"
proof -
  let ?cl = "gen_client (rl_generation a)" and ?sv = "gen_server (rl_generation b)"
  obtain cert1 key1 where cl: "client_auth ?cl = Some (cert1, key1)" "spiffe_id_from_cert_der p cert1 = Some (Inr id1)"
    "client_alpn ?cl = (if m1 then alpn_protocols else legacy_alpn_protocols)"
    by (rule sound_generation_parts [OF a])
  obtain cert2 where sv: "server_cert ?sv = cert2" "spiffe_id_from_cert_der p cert2 = Some (Inr id2)"
    "server_alpn ?sv = (if m2 then alpn_protocols else legacy_alpn_protocols)"
    by (rule sound_generation_parts [OF b])
  have s: "peer_certificates cs = Some [cert2]" "peer_certificates ss = Some [cert1]"
    "alpn_protocol cs = List.find (\<lambda>a. a \<in> set (client_alpn ?cl)) (server_alpn ?sv)" "alpn_protocol ss = alpn_protocol cs"
    using tls link cl(1) sv(1) unfolding mutual_tls_def by auto
  then show "session_identity p cs = Some (Inr id2)" "session_identity p ss = Some (Inr id1)"
    using cl sv by (simp_all add: session_identity_def)
  show "negotiated_alpn cs = Some ALPN_MUX \<longleftrightarrow> m1 \<and> m2" "negotiated_alpn ss = Some ALPN_MUX \<longleftrightarrow> m1 \<and> m2"
    using s(3,4) cl(3) sv(3) link_alpn(2) [of m1 m2] by (simp_all add: negotiated_alpn_def)
qed

subsection \<open>The two ends\<close>

text \<open>
  What the outbound proxy of a daemon makes of a connect: it is authorized exactly for the peers
  the policy allows, and it opens a tunnel or relays plainly as ALPN said.
\<close>

lemma establish_established:
  assumes "oi_connect inp addr g = Some (Inr ts, g1)"
    and "evaluate (out_policy self) (out_local_id self) (ts_peer_identity ts) = Some decision"
    and "establish self inp addr guard pool g = (pool', g', pc)"
  shows "authorized_peer pc = (if decision = Allow then Some (ts_peer_identity ts) else None)"
    and "decision = Allow \<Longrightarrow> (\<exists>tun. pc = Registered addr guard tun) \<longleftrightarrow> negotiated_alpn (ts_inner ts) = Some ALPN_MUX"
  using assms
  by (cases decision; auto simp: establish_def register_def Let_def split: if_splits prod.splits)+

lemma establish_refused:
  assumes "oi_connect inp addr g = Some (Inl e, g1)" and "establish self inp addr guard pool g = (pool', g', pc)"
  shows "authorized_peer pc = None"
  using assms by (auto simp: establish_def)

text \<open>And the inbound proxy, when the upstream answers and the peer has something to send.\<close>

definition peer_sends :: "inbound_env \<Rightarrow> nat \<Rightarrow> bool" where
  "peer_sends env n \<longleftrightarrow> (\<exists>rest. ie_streams env = Inr n # rest) \<and> (\<exists>c buf. ie_read env = Inr (c # buf))"

lemma tcp_handle_established:
  assumes "tcp_resolve_upstream self (ie_resolve env) target = Inr up" and "ie_connect env up = Inr ()"
    and "peer_sends env n" and "ie_accept env (on_metrics record_connection_start g) = Some (Inr ts, g1)"
    and "evaluate (in_policy self) (ts_peer_identity ts) (in_local_id self) = Some decision"
    and "tcp_handle_connection self env target g = Some (g', effs)"
  shows "(\<exists>e \<in> set effs. carries_data e) \<longleftrightarrow> decision = Allow"
    and "decision = Allow \<Longrightarrow> SpawnStream n up \<in> set effs \<longleftrightarrow> negotiated_alpn (ts_inner ts) = Some ALPN_MUX"
proof -
  obtain rest c buf where env: "ie_streams env = Inr n # rest" "ie_read env = Inr (c # buf)"
    using assms(3) unfolding peer_sends_def by blast
  show "(\<exists>e \<in> set effs. carries_data e) \<longleftrightarrow> decision = Allow"
    "decision = Allow \<Longrightarrow> SpawnStream n up \<in> set effs \<longleftrightarrow> negotiated_alpn (ts_inner ts) = Some ALPN_MUX"
    using assms(1,2,4-6) env
    by (cases decision; auto simp: tcp_handle_connection_def tcp_serve_def tcp_relay_def Let_def
        split: prod.splits sum.splits if_splits)+
qed

lemma tcp_handle_refused:
  assumes "tcp_resolve_upstream self (ie_resolve env) target = Inr up"
    and "ie_accept env (on_metrics record_connection_start g) = Some (Inl e, g1)"
    and "tcp_handle_connection self env target g = Some (g', effs)"
  shows "\<not> (\<exists>e \<in> set effs. carries_data e)"
  using assms by (auto simp: tcp_handle_connection_def Let_def split: if_splits)

lemma sidecar_connect_outcome:
  assumes "tls_ok p g"
  shows "(case link (gen_client (rl_generation a)) (gen_server (rl_generation b)) of
      Some (cs, ss) \<Rightarrow> (\<forall>i. session_identity p cs = Some (Inr i) \<longrightarrow>
         (\<exists>g'. sidecar_connect p keep link e a b addr g = Some (Inr \<lparr>ts_inner = cs, ts_peer_identity = i\<rparr>, g')))
    | None \<Rightarrow> sidecar_connect p keep link e a b addr g = Some (Inl (Io e), g))"
proof (cases "link (gen_client (rl_generation a)) (gen_server (rl_generation b))")
  case None
  then show ?thesis
    by (simp add: sidecar_connect_def reloader_connect_def TlsClient_connect_def client_end_def finish_handshake_def)
next
  case (Some s)
  then show ?thesis
    using finish_established [OF assms, of "fst s"]
    by (cases s) (simp add: sidecar_connect_def reloader_connect_def TlsClient_connect_def client_end_def)
qed

lemma sidecar_accept_outcome:
  assumes "tls_ok p g"
  shows "(case link (gen_client (rl_generation a)) (gen_server (rl_generation b)) of
      Some (cs, ss) \<Rightarrow> (\<forall>i. session_identity p ss = Some (Inr i) \<longrightarrow>
         (\<exists>g'. sidecar_accept p keep link e a b g = Some (Inr \<lparr>ts_inner = ss, ts_peer_identity = i\<rparr>, g')))
    | None \<Rightarrow> sidecar_accept p keep link e a b g = Some (Inl (Io e), g))"
proof (cases "link (gen_client (rl_generation a)) (gen_server (rl_generation b))")
  case None
  then show ?thesis
    by (simp add: sidecar_accept_def reloader_accept_def TlsServer_accept_def server_end_def finish_handshake_def)
next
  case (Some s)
  then show ?thesis
    using finish_established [OF assms, of "snd s"]
    by (cases s) (simp add: sidecar_accept_def reloader_accept_def TlsServer_accept_def server_end_def)
qed

subsection \<open>Property\<close>


text \<open>A link that behaves as required, and two replicas on it.\<close>

definition sample_link :: "pki \<Rightarrow> tls_link" where
  "sample_link p cl sv =
     (case client_auth cl of
        None \<Rightarrow> None
      | Some (cert, key) \<Rightarrow>
          (let alpn = List.find (\<lambda>a. a \<in> set (client_alpn cl)) (server_alpn sv) in
           if verify_server_cert p (client_checks cl) (server_cert sv) [] 0 = Some (Inr ()) \<and> alpn \<noteq> None
           then Some (\<lparr>peer_certificates = Some [server_cert sv], alpn_protocol = alpn, handshake_resumed = False\<rparr>,
                      \<lparr>peer_certificates = Some [cert], alpn_protocol = alpn, handshake_resumed = False\<rparr>)
           else None))"

lemma sample_mutual: "mutual_tls p (\<lambda>_ _. True) 0 (sample_link p)"
proof -
  have find: "List.find P xs \<noteq> None \<longleftrightarrow> (\<exists>x \<in> set xs. P x)" for P and xs :: "bytes list"
    by (auto simp: find_None_iff)
  show ?thesis
    unfolding mutual_tls_def
    by (auto simp: sample_link_def Let_def find simp del: not_None_eq split: option.splits prod.splits if_splits)
qed

abbreviation sample_reset :: IoError where
  "sample_reset \<equiv> \<lparr>io_kind = OsKind 104, io_text = ''reset''\<rparr>"


end
