(* ===== verification/Demo_Run.thy ===== *)
theory Demo_Run
  imports Demo Mesh
begin

text \<open>
  The demonstration as it runs: the accept loops of \<open>examples/backend.rs\<close> and
  \<open>examples/bench_server.rs\<close> around their connection loops, and one exchange from the bootstrap of
  the certificates to the answer the frontend prints.
\<close>

subsection \<open>Serving\<close>

text \<open>
  One accepted connection: what the TLS library makes of it, which cache entries have survived,
  how its writes go and what is read. A spawned task gives what it wrote, \<open>None\<close> if it panicked,
  which only an aborting build passes on to the process.
\<close>

record service_conn =
  sc_outcome :: handshake_outcome
  sc_keep :: "bytes set"
  sc_write :: "bytes \<Rightarrow> (IoError, unit) result"
  sc_reads :: "(IoError, bytes) result list"

type_synonym service_task = "service_conn \<Rightarrow> globals \<Rightarrow> (bytes list panicky \<times> globals) panicky"

definition service_task_of ::
  "(SpiffeId \<Rightarrow> (bytes \<Rightarrow> (IoError, unit) result) \<Rightarrow> (IoError, bytes) result list \<Rightarrow> bytes list panicky)
     \<Rightarrow> pki \<Rightarrow> TlsServer \<Rightarrow> service_task" where
  "service_task_of serve p tls conn g =
     do {
       (accepted, g) \<leftarrow> TlsServer_accept p (sc_keep conn) (\<lambda>_. sc_outcome conn) tls g;
       Some (case accepted of
               Inr tls_stream \<Rightarrow> serve (ts_peer_identity tls_stream) (sc_write conn) (sc_reads conn)
             | Inl e \<Rightarrow> Some [], g)
     }"

definition backend_task :: "pki \<Rightarrow> TlsServer \<Rightarrow> service_task" where
  "backend_task = service_task_of (\<lambda>peer_id write reads. Some (backend_echo peer_id write reads))"

definition bench_task :: "bool \<Rightarrow> pki \<Rightarrow> TlsServer \<Rightarrow> service_task" where
  "bench_task checks = service_task_of (\<lambda>peer_id write reads. bench_connection checks write reads)"

text \<open>
  The accept loop over the outcomes of \<open>accept\<close> so far, tasks in the order their handshakes end;
  a failed \<open>accept\<close> trips the \<open>expect\<close>.
\<close>

fun service_loop ::
  "bool \<Rightarrow> service_task \<Rightarrow> (IoError, service_conn) result list \<Rightarrow> globals \<Rightarrow> (bytes list panicky list \<times> globals) panicky" where
  "service_loop abort task [] g = Some ([], g)"
| "service_loop abort task (Inl e # accepts) g = None"
| "service_loop abort task (Inr conn # accepts) g =
     do {
       (written, g) \<leftarrow> task conn g;
       (if abort \<and> written = None then None
        else do {
          (rest, g) \<leftarrow> service_loop abort task accepts g;
          Some (written # rest, g)
        })
     }"

definition service_addr :: "string list \<Rightarrow> string" where
  "service_addr args = ''0.0.0.0:'' @ show_nat (unat (service_port args))"

definition backend_main ::
  "bool \<Rightarrow> pki \<Rightarrow> (string \<Rightarrow> (IoError, bytes) result) \<Rightarrow> string \<Rightarrow> string list \<Rightarrow> (string \<Rightarrow> (IoError, unit) result)
     \<Rightarrow> (IoError, service_conn) result list \<Rightarrow> globals \<Rightarrow> (bytes list panicky list \<times> globals) panicky" where
  "backend_main abort p read temp args bind_to accepts g =
     do {
       tls_server \<leftarrow> backend_tls p read (service_dir temp args);
       _ \<leftarrow> unwrap (bind_to (service_addr args));
       service_loop abort (backend_task p tls_server) accepts g
     }"

text \<open>\<open>bench_server\<close> differs in the task; its delay is waited out and changes nothing it writes.\<close>

definition bench_main ::
  "bool \<Rightarrow> bool \<Rightarrow> pki \<Rightarrow> (string \<Rightarrow> (IoError, bytes) result) \<Rightarrow> string \<Rightarrow> string list \<Rightarrow> (string \<Rightarrow> (IoError, unit) result)
     \<Rightarrow> (IoError, service_conn) result list \<Rightarrow> globals \<Rightarrow> (bytes list panicky list \<times> globals) panicky" where
  "bench_main checks abort p read temp args bind_to accepts g =
     do {
       tls_server \<leftarrow> backend_tls p read (service_dir temp args);
       _ \<leftarrow> unwrap (bind_to (service_addr args));
       service_loop abort (bench_task checks p tls_server) accepts g
     }"

subsection \<open>Facts\<close>

interpretation file_source: identity_source "\<lambda>(ident, ca). file_provider ident ca" "\<lambda>_. ''example.local''" "\<lambda>(ident, ca). [ca]"
  by unfold_locales (auto simp: file_provider_def with_ca_def TrustDomain_new_def)

text \<open>A handshake that ends keeps the process going; a connection never stops the ones behind it.\<close>

lemma service_task_returns:
  assumes "tls_ok p g"
  shows "\<exists>written g'. service_task_of serve p tls conn g = Some (written, g') \<and> tls_ok p g'"
  using server_accept.shake_returns [OF assms, of "sc_keep conn" "\<lambda>_. sc_outcome conn" tls]
  by (auto simp: service_task_of_def)

lemma service_task_written:
  assumes "service_task_of serve p tls conn g = Some (written, g')"
  shows "written = Some [] \<or> (\<exists>peer_id. written = serve peer_id (sc_write conn) (sc_reads conn))"
proof -
  obtain r g1 where "TlsServer_accept p (sc_keep conn) (\<lambda>_. sc_outcome conn) tls g = Some (r, g1)"
    using assms by (auto simp: service_task_of_def bind_eq_Some_conv)
  then show ?thesis using assms by (cases r) (auto simp: service_task_of_def)
qed

lemma service_loop_returns:
  assumes "tls_ok p g" and "\<forall>a \<in> set accepts. is_ok a"
    and "\<not> abort \<or> (\<forall>peer_id write reads. serve peer_id write reads \<noteq> None)"
  shows "\<exists>outs g'. service_loop abort (service_task_of serve p tls) accepts g = Some (outs, g') \<and> length outs = length accepts"
  using assms
proof (induction abort "service_task_of serve p tls" accepts g rule: service_loop.induct)
  case (3 abort conn accepts g)
  obtain written g1 where t: "service_task_of serve p tls conn g = Some (written, g1)" "tls_ok p g1"
    using service_task_returns [OF 3(2)] by blast
  have "\<not> (abort \<and> written = None)" using service_task_written [OF t(1)] 3(4) by auto
  moreover from this obtain outs g' where
    "service_loop abort (service_task_of serve p tls) accepts g1 = Some (outs, g')" "length outs = length accepts"
    using 3(1) [OF t(1) refl _ t(2)] 3(3,4) by auto
  ultimately show ?case using t(1) by simp
qed (simp_all add: is_ok_iff)

abbreviation frontend_id :: SpiffeId where
  "frontend_id \<equiv> SpiffeId_new ''example.local'' ''default'' ''frontend''"

lemma frontend_id_ok: "canonical_id frontend_id" "valid_id frontend_id"
  by code_simp (simp add: valid_id_def SpiffeId_new_def valid_utf8_all_ascii byte_def)

lemma ca_bootstrap_pairs:
  assumes "ca_bootstrap w0 w1 w2 base64 mkdir io temp files = Some fs"
  obtains ca scert skey ccert ckey where
    "issue_leaf_with_key w1 ca backend_id [''localhost'', ''127.0.0.1'', ''backend.example.local''] = Inr (scert, skey)"
    "issue_leaf_with_key w2 ca frontend_id [''localhost'', ''127.0.0.1'', ''frontend.example.local''] = Inr (ccert, ckey)"
    "fs (path_join (demo_dir temp) ''ca.der'') = Some (ca_root_cert_der ca)"
    "fs (path_join (demo_dir temp) ''server.der'') = Some scert" "fs (path_join (demo_dir temp) ''server.key'') = Some skey"
    "fs (path_join (demo_dir temp) ''client.der'') = Some ccert" "fs (path_join (demo_dir temp) ''client.key'') = Some ckey"
  using assms unfolding ca_bootstrap_def Let_def try_new_demo
  by (auto simp: bind_eq_Some_conv split: prod.splits)

text \<open>What the TLS libraries must make of the files for the two programs to start and to meet.\<close>

definition demo_accepted :: "pki \<Rightarrow> (bytes list \<Rightarrow> bytes \<Rightarrow> bool) \<Rightarrow> nat \<Rightarrow> files \<Rightarrow> string \<Rightarrow> bool" where
  "demo_accepted p client_ok now fs dir \<longleftrightarrow>
     (\<forall>root scert skey ccert ckey.
        fs (path_join dir ''ca.der'') = Some root \<longrightarrow>
        fs (path_join dir ''server.der'') = Some scert \<longrightarrow> fs (path_join dir ''server.key'') = Some skey \<longrightarrow>
        fs (path_join dir ''client.der'') = Some ccert \<longrightarrow> fs (path_join dir ''client.key'') = Some ckey \<longrightarrow>
        is_ok (root_add p root) \<and> is_ok (client_verifier p [root]) \<and> is_ok (single_cert p scert skey)
        \<and> is_ok (client_auth_cert p ccert ckey) \<and> is_ok (end_entity_parse p scert)
        \<and> is_ok (path_validate p scert [root] [] now) \<and> client_ok [root] ccert)"

lemma demo_endpoints:
  assumes "read (path_join dir ''ca.der'') = Inr root"
    and "read (path_join dir ''server.der'') = Inr scert" "read (path_join dir ''server.key'') = Inr skey"
    and "read (path_join dir ''client.der'') = Inr ccert" "read (path_join dir ''client.key'') = Inr ckey"
    and "is_ok (root_add p root)" "is_ok (client_verifier p [root])" "is_ok (single_cert p scert skey)"
      "is_ok (client_auth_cert p ccert ckey)"
  shows "backend_tls p read dir = Some \<lparr>server_roots = [root], server_cert = scert, server_key = skey, server_alpn = alpn_protocols\<rparr>"
    and "frontend_tls p read dir = Some \<lparr>client_checks = SpiffeServerVerifier_new [root] ''example.local'',
      client_auth = Some (ccert, ckey), client_alpn = alpn_protocols\<rparr>"
proof -
  have server: "TlsServer_new p (file_provider backend_id root) scert skey =
      Inr \<lparr>server_roots = [root], server_cert = scert, server_key = skey, server_alpn = alpn_protocols\<rparr>"
    using file_source.server_alpn_iff [of p "(backend_id, root)" scert skey alpn_protocols] assms(6-9)
    by (simp add: TlsServer_new_def)
  have client: "with_client_auth p (file_provider frontend_id root) ccert ckey =
      Inr \<lparr>client_checks = SpiffeServerVerifier_new [root] ''example.local'', client_auth = Some (ccert, ckey),
           client_alpn = alpn_protocols\<rparr>"
    using file_source.client_auth_alpn_iff [of p "(frontend_id, root)" ccert ckey alpn_protocols] assms(6-9)
    by (simp add: with_client_auth_def)
  show "backend_tls p read dir = Some \<lparr>server_roots = [root], server_cert = scert, server_key = skey, server_alpn = alpn_protocols\<rparr>"
    unfolding backend_tls_def assms(1-3) using server try_new_demo(1) by (simp only: TRUST_DOMAIN_def unwrap_simps Option.bind.simps)
  show "frontend_tls p read dir = Some \<lparr>client_checks = SpiffeServerVerifier_new [root] ''example.local'',
      client_auth = Some (ccert, ckey), client_alpn = alpn_protocols\<rparr>"
    unfolding frontend_tls_def assms(1,4,5) using client try_new_demo(2) by (simp only: TRUST_DOMAIN_def unwrap_simps Option.bind.simps)
qed

lemma demo_link:
  assumes tls: "mutual_tls p client_ok now link" and utf8: "pki_utf8 p"
    and sv: "sv = \<lparr>server_roots = [root], server_cert = scert, server_key = skey, server_alpn = alpn_protocols\<rparr>"
    and cl: "cl = \<lparr>client_checks = SpiffeServerVerifier_new [root] ''example.local'', client_auth = Some (ccert, ckey),
      client_alpn = alpn_protocols\<rparr>"
    and ids: "spiffe_id_from_cert_der p scert = Some (Inr backend_id)" "spiffe_id_from_cert_der p ccert = Some (Inr frontend_id)"
    and ok: "is_ok (end_entity_parse p scert)" "is_ok (path_validate p scert [root] [] now)" "client_ok [root] ccert"
  obtains cs ss where "link cl sv = Some (cs, ss)" "session_identity p cs = Some (Inr backend_id)"
    "session_identity p ss = Some (Inr frontend_id)"
proof -
  have "\<exists>a \<in> set alpn_protocols. a \<in> set alpn_protocols" using link_alpn(1) [of True True] by (simp only: if_True)
  moreover have "verify_server_cert p (client_checks cl) (server_cert sv) [] now = Some (Inr ())"
    using ok(1,2) ids(1) by (simp add: verify_server_cert_ok_iff [OF utf8] cl sv SpiffeServerVerifier_new_def SpiffeId_new_def)
  ultimately have "link cl sv \<noteq> None" using tls ok(3) cl sv unfolding mutual_tls_def by simp
  then obtain cs ss where l: "link cl sv = Some (cs, ss)" by auto
  then have "peer_certificates cs = Some [scert]" "peer_certificates ss = Some [ccert]"
    using tls cl sv unfolding mutual_tls_def by fastforce+
  then show ?thesis using that [OF l] ids by (simp add: session_identity_def)
qed

text \<open>
  The two programs on one connection: what the frontend has written is what the backend reads, each
  write in one read and then the end, and what the frontend finds to read is what the backend, run on
  that, writes first; nothing when it writes nothing.
\<close>

definition demo_conn :: "tls_link \<Rightarrow> IoError \<Rightarrow> bytes set \<Rightarrow> TlsClient \<Rightarrow> TlsServer \<Rightarrow> bytes list \<Rightarrow> service_conn" where
  "demo_conn link e keep cl sv sent =
     \<lparr>sc_outcome = server_end link e cl sv, sc_keep = keep, sc_write = (\<lambda>_. Inr ()), sc_reads = map Inr sent @ [Inr []]\<rparr>"

definition demo_write :: "bytes \<Rightarrow> bytes list \<Rightarrow> (IoError, unit) result \<times> bytes list" where
  "demo_write msg sent = (Inr (), sent @ [msg])"

definition demo_receive ::
  "(service_conn \<Rightarrow> (bytes list panicky list \<times> globals) panicky) \<Rightarrow> (bytes list \<Rightarrow> service_conn) \<Rightarrow> bytes list
     \<Rightarrow> (IoError, bytes) result option" where
  "demo_receive backend conn sent =
     (case backend (conn sent) of
        Some ([Some (answer # later)], g) \<Rightarrow> Some (Inr answer)
      | _ \<Rightarrow> None)"

lemma demo_answer:
  "echo_response frontend_id ''Hello from frontend!'' = ''backend-echo[frontend]: Hello from frontend!''"
  "from_utf8_lossy ''backend-echo[frontend]: Hello from frontend!'' = ''backend-echo[frontend]: Hello from frontend!''"
  "parse_socket_addr ''127.0.0.1:8443'' = Some (SocketAddr_new (V4 127 0 0 1) 8443)"
  by code_simp+

subsection \<open>Property\<close>

text \<open>
  C34. The demonstration works end to end: when \<open>ca_bootstrap\<close> has written the certificates and the
  TLS libraries accept them, backend and frontend start on them; over one connection, on which each
  reads what the other has written, the frontend greets, the backend answers by the echo that names
  the identity the frontend's certificate proved, and this is the answer the frontend reports.
\<close>

theorem demo_round_trip:
  assumes boot: "ca_bootstrap w0 w1 w2 base64 mkdir io temp files = Some fs"
    and libs: "pki_utf8 p" "encodes_sans p w1" "ia5_exact w1" "encodes_sans p w2" "ia5_exact w2"
    and reads: "\<forall>path contents. fs path = Some contents \<longrightarrow> read path = Inr contents"
    and accepted: "demo_accepted p client_ok now fs (demo_dir temp)"
    and tls: "mutual_tls p client_ok now link" and state: "tls_ok p gb" "tls_ok p gf"
  shows "\<exists>sv cl gf'. backend_tls p read (demo_dir temp) = Some sv \<and> frontend_tls p read (demo_dir temp) = Some cl
    \<and> frontend_main p read temp [prog] (TlsClient_connect p keep' (\<lambda>_ _. Inr ()) (\<lambda>cl _. client_end link e sv cl)) demo_write
        (demo_receive (\<lambda>conn. backend_main abort p read temp [prog'] (\<lambda>_. Inr ()) [Inr conn] gb) (demo_conn link e keep cl sv)) [] gf
      = Some (Replied ''backend-echo[frontend]: Hello from frontend!'', gf')"
proof -
  obtain ca scert skey ccert ckey where issued:
      "issue_leaf_with_key w1 ca backend_id [''localhost'', ''127.0.0.1'', ''backend.example.local''] = Inr (scert, skey)"
      "issue_leaf_with_key w2 ca frontend_id [''localhost'', ''127.0.0.1'', ''frontend.example.local''] = Inr (ccert, ckey)"
    and fs: "fs (path_join (demo_dir temp) ''ca.der'') = Some (ca_root_cert_der ca)"
      "fs (path_join (demo_dir temp) ''server.der'') = Some scert" "fs (path_join (demo_dir temp) ''server.key'') = Some skey"
      "fs (path_join (demo_dir temp) ''client.der'') = Some ccert" "fs (path_join (demo_dir temp) ''client.key'') = Some ckey"
    by (rule ca_bootstrap_pairs [OF boot])
  let ?root = "ca_root_cert_der ca"
  have ok: "is_ok (root_add p ?root)" "is_ok (client_verifier p [?root])" "is_ok (single_cert p scert skey)"
    "is_ok (client_auth_cert p ccert ckey)" "is_ok (end_entity_parse p scert)"
    "is_ok (path_validate p scert [?root] [] now)" "client_ok [?root] ccert"
    using accepted fs unfolding demo_accepted_def by blast+
  note rd = fs [THEN reads [rule_format]]
  define sv where "sv = \<lparr>server_roots = [?root], server_cert = scert, server_key = skey, server_alpn = alpn_protocols\<rparr>"
  define cl where "cl = \<lparr>client_checks = SpiffeServerVerifier_new [?root] ''example.local'', client_auth = Some (ccert, ckey),
      client_alpn = alpn_protocols\<rparr>"
  have ends: "backend_tls p read (demo_dir temp) = Some sv" "frontend_tls p read (demo_dir temp) = Some cl"
    unfolding sv_def cl_def by (rule demo_endpoints [OF rd ok(1-4)])+
  obtain cs ss where link: "link cl sv = Some (cs, ss)" "session_identity p cs = Some (Inr backend_id)"
      "session_identity p ss = Some (Inr frontend_id)"
    by (rule demo_link [OF tls libs(1) sv_def cl_def issued_identity [OF libs(1-3) backend_id_ok issued(1)]
        issued_identity [OF libs(1,4,5) frontend_id_ok issued(2)] ok(5-7)])
  obtain gb' where gb: "finish_handshake p keep (Established ss) gb = Some (Inr \<lparr>ts_inner = ss, ts_peer_identity = frontend_id\<rparr>, gb')"
    using finish_established [OF state(1) link(3)] by blast
  obtain gf' where gf: "finish_handshake p keep' (Established cs) gf = Some (Inr \<lparr>ts_inner = cs, ts_peer_identity = backend_id\<rparr>, gf')"
    using finish_established [OF state(2) link(2)] by blast
  let ?greeting = "''Hello from frontend!''" and ?answer = "''backend-echo[frontend]: Hello from frontend!''"
  let ?backend = "\<lambda>conn. backend_main abort p read temp [prog'] (\<lambda>_. Inr ()) [Inr conn] gb"
  have "backend_task p sv (demo_conn link e keep cl sv [?greeting]) gb = Some (Some [?answer], gb')"
    using gb link(1) demo_answer(1)
    by (simp add: backend_task_def service_task_of_def demo_conn_def TlsServer_accept_def server_end_def Let_def)
  then have "?backend (demo_conn link e keep cl sv [?greeting]) = Some ([Some [?answer]], gb')"
    using ends(1) by (simp add: backend_main_def service_dir_def)
  then have "demo_receive ?backend (demo_conn link e keep cl sv) [?greeting] = Some (Inr ?answer)"
    by (simp add: demo_receive_def)
  then have "frontend_main p read temp [prog] (TlsClient_connect p keep' (\<lambda>_ _. Inr ()) (\<lambda>cl _. client_end link e sv cl)) demo_write
        (demo_receive ?backend (demo_conn link e keep cl sv)) [] gf = Some (Replied ?answer, gf')"
    using ends(2) gf link(1) demo_answer(2,3)
    by (simp add: frontend_main_def service_dir_def TlsClient_connect_def client_end_def demo_write_def)
  then show ?thesis using ends by blast
qed

theorem demo_round_trip_witness:
  "\<exists>fs sv cl gf. demo_run = Some fs \<and> frontend_main sample_ca_pki (\<lambda>path. cw_read (demo_creds fs) 0 path) ''/tmp'' [''frontend'']
        (TlsClient_connect sample_ca_pki UNIV (\<lambda>_ _. Inr ()) (\<lambda>cl _. client_end (sample_link sample_ca_pki) sample_reset sv cl)) demo_write
        (demo_receive (\<lambda>conn. backend_main True sample_ca_pki (\<lambda>path. cw_read (demo_creds fs) 0 path) ''/tmp'' [''backend'']
             (\<lambda>_. Inr ()) [Inr conn] sample_globals)
           (demo_conn (sample_link sample_ca_pki) sample_reset UNIV cl sv)) [] sample_globals
      = Some (Replied ''backend-echo[frontend]: Hello from frontend!'', gf)"
proof -
  obtain fs where run: "demo_run = Some fs" using demo_run_files by blast
  let ?read = "\<lambda>path. cw_read (demo_creds fs) 0 path" and ?p = sample_ca_pki and ?link = "sample_link sample_ca_pki"
  have ia5: "ia5_exact sample_rcgen" by (simp add: ia5_exact_def sample_rcgen_def)
  have reads: "\<forall>path contents. fs path = Some contents \<longrightarrow> ?read path = Inr contents"
    by (simp add: demo_creds_def)
  have accepted: "demo_accepted ?p (\<lambda>_ _. True) 0 fs (demo_dir ''/tmp'')"
    by (simp add: demo_accepted_def sample_ca_pki_def sample_pki_def)
  have ok: "tls_ok ?p sample_globals"
    using sample_ca_pki_utf8 by (simp add: tls_ok_def cache_coherent_def sample_globals_def)
  from demo_round_trip [OF run sample_ca_pki_utf8 sample_encodes ia5 sample_encodes ia5 reads accepted sample_mutual ok ok,
      where e = sample_reset and keep = UNIV and keep' = UNIV and abort = True and prog = "''frontend''" and prog' = "''backend''"] run
  show ?thesis by blast
qed

end
