(* ===== verification/Tests_Common.thy ===== *)
theory Tests_Common
  imports Proxy_Common Proto_Detect
begin

text \<open>
  The unit tests at the end of \<open>src/common/identity.rs\<close>, \<open>src/policy/mod.rs\<close>,
  \<open>src/protocol/mod.rs\<close>, \<open>src/common/config.rs\<close>, \<open>src/metrics/mod.rs\<close> and \<open>src/proxy/mod.rs\<close>, each a
  boolean over the model with the assertions of the test in its order. That they hold is the
  model's answer to the expectations the authors wrote down.
\<close>

definition errs :: "('e, 'a) result panicky \<Rightarrow> bool" where
  "errs r = (case r of Some (Inl e) \<Rightarrow> True | _ \<Rightarrow> False)"

definition gives :: "('e, 'a) result panicky \<Rightarrow> 'a \<Rightarrow> bool" where
  "gives r a = (case r of Some (Inr b) \<Rightarrow> b = a | _ \<Rightarrow> False)"

subsection \<open>Identities\<close>

definition test_spiffe_id_roundtrip :: bool where
  "test_spiffe_id_roundtrip =
     (let ident = SpiffeId_new ''cluster.local'' ''default'' ''payments''; uri = to_uri ident in
      uri = ''spiffe://cluster.local/ns/default/sa/payments'' \<and> gives (SpiffeId_from_uri uri) ident)"

definition test_spiffe_id_from_uri :: bool where
  "test_spiffe_id_from_uri =
     (case SpiffeId_from_uri ''spiffe://example.org/ns/foo/sa/bar'' of
        Some (Inr ident) \<Rightarrow> trust_domain ident = ''example.org'' \<and> namespace ident = ''foo'' \<and> service_account ident = ''bar''
      | _ \<Rightarrow> False)"

definition test_spiffe_id_missing_scheme :: bool where
  "test_spiffe_id_missing_scheme = errs (SpiffeId_from_uri ''https://example.org/ns/foo/sa/bar'')"

definition test_spiffe_id_malformed_path :: bool where
  "test_spiffe_id_malformed_path = errs (SpiffeId_from_uri ''spiffe://example.org/foo/bar'')"

definition test_spiffe_id_empty_segments :: bool where
  "test_spiffe_id_empty_segments =
     (errs (SpiffeId_from_uri ''spiffe:///ns/default/sa/web'')
      \<and> errs (SpiffeId_from_uri ''spiffe://example.org/ns//sa/web'')
      \<and> errs (SpiffeId_from_uri ''spiffe://example.org/ns/default/sa/''))"

definition test_spiffe_id_wildcard_match :: bool where
  "test_spiffe_id_wildcard_match =
     (let ident = SpiffeId_new ''trust'' ''default'' ''web-api'' in
      list_all (\<lambda>(pattern, expected). matches_pattern ident pattern = Some expected)
        [(''spiffe://trust/ns/default/sa/web-api'', True),
         (''spiffe://trust/ns/*/sa/*'', True),
         (''spiffe://trust/ns/default/sa/*'', True),
         (''spiffe://trust/ns/default/sa/web*'', True),
         (''spiffe://trust/ns/default/sa/*api'', True),
         (''spiffe://trust/ns/other/sa/web-api'', False),
         (''spiffe://other/ns/default/sa/web-api'', False),
         (''spiffe://trust/ns/default/sa/web'', False)])"

definition segment_glob_covers_all_compiled_shapes :: bool where
  "segment_glob_covers_all_compiled_shapes =
     list_all (\<lambda>(pattern, v, expected). SegmentGlob_matches (SegmentGlob_new pattern) v = Some expected)
       [([], [], True),
        ([], ''anything'', False),
        (''*'', ''anything'', True),
        (''exact'', ''exact'', True),
        (''exact'', ''other'', False),
        (''pre*'', ''prefix'', True),
        (''pre*'', ''other'', False),
        (''*suffix'', ''suffix-suffix'', True),
        (''*suffix'', ''suffix-other'', False),
        (''*middle*'', ''a-middle-z'', True),
        (''*middle*'', ''absent'', False),
        (''pre*suffix'', ''pre-middle-suffix'', True),
        (''pre*suffix'', ''presuffix'', True),
        (''pre*suffix'', ''prefix'', False),
        (''a*b*c'', ''a-1-b-2-c'', True),
        (''a*b*c'', ''a-1-c-2-b'', False),
        (''*a*b*'', ''z-a-1-b-z'', True),
        (''*a*b*'', ''z-b-1-a-z'', False),
        (''a**b'', ''a-middle-b'', True),
        (''**'', ''anything'', True)]"

definition spiffe_uri_rejects_non_identity_components :: bool where
  "spiffe_uri_rejects_non_identity_components =
     list_all (\<lambda>uri. errs (SpiffeId_from_uri uri) \<and> errs (CompiledPattern_from_uri uri))
       [''spiffe://user@example.org/ns/foo/sa/bar'',
        ''spiffe://example.org:443/ns/foo/sa/bar'',
        ''spiffe://example.org/ns/foo/sa/bar?query'',
        ''spiffe://example.org/ns/foo/sa/bar#fragment'',
        ''spiffe://example.org/ns/foo/sa/bar/extra'']"

definition spiffe_uri_normalizes_scheme_and_trust_domain_case :: bool where
  "spiffe_uri_normalizes_scheme_and_trust_domain_case =
     (case SpiffeId_from_uri ''SPIFFE://EXAMPLE.ORG/ns/foo/sa/bar'' of
        Some (Inr ident) \<Rightarrow> trust_domain ident = ''example.org'' \<and> to_uri ident = ''spiffe://example.org/ns/foo/sa/bar''
      | _ \<Rightarrow> False)"

definition test_display :: bool where
  "test_display = (display_SpiffeId (SpiffeId_new ''a.com'' ''b'' ''c'') = ''spiffe://a.com/ns/b/sa/c'')"

lemma identity_tests:
  "test_spiffe_id_roundtrip" "test_spiffe_id_from_uri" "test_spiffe_id_missing_scheme" "test_spiffe_id_malformed_path"
  "test_spiffe_id_empty_segments" "test_spiffe_id_wildcard_match" "segment_glob_covers_all_compiled_shapes"
  "spiffe_uri_rejects_non_identity_components" "spiffe_uri_normalizes_scheme_and_trust_domain_case" "test_display"
  by code_simp+

subsection \<open>Policies\<close>

definition make_id :: "string \<Rightarrow> string \<Rightarrow> SpiffeId" where
  "make_id ns sa = SpiffeId_new ''trust.local'' ns sa"

text \<open>A rule written out in a test; the patterns are unwrapped.\<close>

definition test_rule :: "string \<Rightarrow> string \<Rightarrow> Decision \<Rightarrow> string \<Rightarrow> PolicyRule panicky" where
  "test_rule source destination decision description =
     do {
       s \<leftarrow> CompiledPattern_from_uri source;
       s \<leftarrow> unwrap s;
       d \<leftarrow> CompiledPattern_from_uri destination;
       d \<leftarrow> unwrap d;
       Some \<lparr>rule_source = s, rule_destination = d, rule_decision = decision, rule_description = description\<rparr>
     }"

definition test_default_deny :: bool where
  "test_default_deny =
     (evaluate PolicyEngine_new (make_id ''default'' ''evil'') (make_id ''default'' ''api'') = Some (Deny ''no matching policy''))"

definition test_namespace_rule_allow :: bool where
  "test_namespace_rule_allow =
     (do {
        rule \<leftarrow> allow_same_namespace ''trust.local'' ''default'';
        evaluate (add_namespace_rule PolicyEngine_new ''default'' rule) (make_id ''default'' ''web'') (make_id ''default'' ''api'')
      } = Some Allow)"

definition test_specific_allow_overrides_default_deny :: bool where
  "test_specific_allow_overrides_default_deny =
     (do {
        rule \<leftarrow> allow ''spiffe://trust.local/ns/default/sa/web'' ''spiffe://trust.local/ns/default/sa/api'' ''web can call api'';
        evaluate (add_namespace_rule PolicyEngine_new ''default'' rule) (make_id ''default'' ''web'') (make_id ''default'' ''api'')
      } = Some Allow)"

definition test_cross_namespace_deny :: bool where
  "test_cross_namespace_deny =
     (do {
        rule \<leftarrow> allow_same_namespace ''trust.local'' ''billing'';
        evaluate (add_namespace_rule PolicyEngine_new ''billing'' rule) (make_id ''default'' ''web'') (make_id ''billing'' ''payments'')
      } = Some (Deny ''no matching policy''))"

definition test_global_policy_overrides_namespace :: bool where
  "test_global_policy_overrides_namespace =
     (do {
        rule \<leftarrow> allow_same_namespace ''trust.local'' ''default'';
        global \<leftarrow> test_rule ''spiffe://trust.local/ns/default/sa/blocked'' ''spiffe://trust.local/ns/*/sa/*''
                    (Deny ''blocked from all services'') [];
        evaluate (set_global_policies (add_namespace_rule PolicyEngine_new ''default'' rule) [global])
          (make_id ''default'' ''blocked'') (make_id ''default'' ''api'')
      } = Some Allow)"

definition test_policy_pattern_wildcard :: bool where
  "test_policy_pattern_wildcard =
     (do {
        rule \<leftarrow> test_rule ''spiffe://trust.local/ns/*/sa/*'' ''spiffe://trust.local/ns/default/sa/api'' Allow
                  ''any namespace can call api'';
        evaluate (add_namespace_rule PolicyEngine_new ''default'' rule) (make_id ''other'' ''service'') (make_id ''default'' ''api'')
      } = Some Allow)"

definition test_default_allow_mode :: bool where
  "test_default_allow_mode =
     (evaluate (set_default_decision PolicyEngine_new Allow) (make_id ''default'' ''anything'') (make_id ''other'' ''anything'') =
        Some Allow)"

definition test_explicit_deny_rule :: bool where
  "test_explicit_deny_rule =
     (do {
        evil_rule \<leftarrow> test_rule ''spiffe://trust.local/ns/default/sa/evil'' ''spiffe://trust.local/ns/default/sa/*''
                       (Deny ''blocked source'') ''deny evil'';
        rest \<leftarrow> allow_same_namespace ''trust.local'' ''default'';
        let engine = add_namespace_rule (add_namespace_rule PolicyEngine_new ''default'' evil_rule) ''default'' rest in do {
          evil \<leftarrow> evaluate engine (make_id ''default'' ''evil'') (make_id ''default'' ''api'');
          good \<leftarrow> evaluate engine (make_id ''default'' ''good'') (make_id ''default'' ''api'');
          Some (evil, good)
        }
      } = Some (Deny ''blocked source'', Allow))"

lemma policy_tests:
  "test_default_deny" "test_namespace_rule_allow" "test_specific_allow_overrides_default_deny" "test_cross_namespace_deny"
  "test_global_policy_overrides_namespace" "test_policy_pattern_wildcard" "test_default_allow_mode" "test_explicit_deny_rule"
  by code_simp+

subsection \<open>Protocol detection\<close>

abbreviation test_crlf :: bytes where
  "test_crlf \<equiv> [CHR 0x0D, CHR 0x0A]"

definition test_detect_http2_preface :: bool where
  "test_detect_http2_preface =
     (detect (''PRI * HTTP/2.0'' @ test_crlf @ test_crlf @ ''SM'' @ test_crlf @ test_crlf) = Http2)"

definition test_detect_http11_get :: bool where
  "test_detect_http11_get =
     (detect (''GET /api/v1/users HTTP/1.1'' @ test_crlf @ ''Host: example.com'' @ test_crlf) = Http11)"

definition test_detect_http11_post :: bool where
  "test_detect_http11_post =
     (detect (''POST /submit HTTP/1.1'' @ test_crlf @ ''Host: example.com'' @ test_crlf) = Http11)"

definition test_detect_http11_patch :: bool where
  "test_detect_http11_patch = (detect (''PATCH /resource HTTP/1.1'' @ test_crlf) = Http11)"

definition test_detect_tcp_fallback :: bool where
  "test_detect_tcp_fallback =
     (detect [CHR 0x00, CHR 0x01, CHR 0x02, CHR 0x03, CHR 0x04, CHR 0x05, CHR 0x06, CHR 0x07] = Tcp)"

definition test_detect_empty_buffer :: bool where
  "test_detect_empty_buffer = (detect [] = Tcp \<and> detect ''SHORT'' = Tcp)"

definition test_validate_http11_get :: bool where
  "test_validate_http11_get = is_ok (validate_http11_request_line (''GET /index.html HTTP/1.1'' @ [CHR 0x0D]))"

definition test_validate_http11_missing_version :: bool where
  "test_validate_http11_missing_version = (\<not> is_ok (validate_http11_request_line ''GET /index.html''))"

definition test_validate_http11_bad_method :: bool where
  "test_validate_http11_bad_method = (\<not> is_ok (validate_http11_request_line (''get /index.html HTTP/1.1'' @ [CHR 0x0D])))"

definition test_validate_http11_h2_version :: bool where
  "test_validate_http11_h2_version = (\<not> is_ok (validate_http11_request_line (''GET / HTTP/2.0'' @ [CHR 0x0D])))"

lemma protocol_tests:
  "test_detect_http2_preface" "test_detect_http11_get" "test_detect_http11_post" "test_detect_http11_patch"
  "test_detect_tcp_fallback" "test_detect_empty_buffer" "test_validate_http11_get" "test_validate_http11_missing_version"
  "test_validate_http11_bad_method" "test_validate_http11_h2_version"
  by code_simp+

subsection \<open>Configuration\<close>

text \<open>The environment a test sets up; there is no configuration file.\<close>

definition test_world :: "(string \<times> string) list \<Rightarrow> config_world" where
  "test_world vars =
     \<lparr>env_var = map_of vars, path_exists = (\<lambda>_. False), read_to_string = (\<lambda>_. Inr []),
      from_json = (\<lambda>_. Inr Config_default), show_tls_error = (\<lambda>_. [])\<rparr>"

definition test_default_config :: bool where
  "test_default_config =
     (let cfg = Config_default in
      cfg_trust_domain cfg = ''cluster.local'' \<and> cfg_identity cfg = None \<and> cfg_max_connections cfg = 1024)"

definition test_config_from_env :: bool where
  "test_config_from_env =
     (case load (test_world [(''INTERLINK_CONFIG_FILE'', ''/nonexistent/interlink.json''),
              (''INTERLINK_TRUST_DOMAIN'', ''env.local''), (''INTERLINK_MAX_CONNECTIONS'', ''512'')]) of
        Some (Inr cfg) \<Rightarrow>
          cfg_trust_domain cfg = ''env.local'' \<and> cfg_max_connections cfg = 512 \<and> cfg_identity cfg = None
      | _ \<Rightarrow> False)"

definition test_config_invalid_identity :: bool where
  "test_config_invalid_identity =
     errs (validate (test_world []) (Config_default\<lparr>cfg_identity := Some ''not-a-spiffe-id''\<rparr>))"

definition test_config_empty_trust_domain :: bool where
  "test_config_empty_trust_domain = errs (validate (test_world []) (Config_default\<lparr>cfg_trust_domain := []\<rparr>))"

text \<open>The file holds the JSON text of the configuration; reading it back is the JSON library's.\<close>

definition config_file_overrides_mux_flag :: bool where
  "config_file_overrides_mux_flag =
     (let file_cfg = Config_default\<lparr>cfg_mux := False\<rparr>;
          w = (test_world [])\<lparr>read_to_string := (\<lambda>path. Inr ''json''),
                               from_json := (\<lambda>text. if text = ''json'' then Inr file_cfg else Inl ''other text'')\<rparr> in
      case with_file w Config_default ''interlink-config-mux.json'' of Inr loaded \<Rightarrow> \<not> cfg_mux loaded | Inl _ \<Rightarrow> False)"

lemma config_from_env_holds: "test_config_from_env"
proof -
  have "parse_usize ''512'' = Inr 512"
    by (simp add: parse_usize_def parse_unsigned_def is_ascii_digit_def byte_def)
  then show ?thesis
    by (simp add: test_config_from_env_def test_world_def load_def with_env_def validate_def config_file_def env_set_def
        env_parse_def parse_max_connections_def Config_default_def Let_def)
qed

lemma config_tests:
  "test_default_config" "test_config_invalid_identity" "test_config_empty_trust_domain" "config_file_overrides_mux_flag"
  by (simp add: test_default_config_def Config_default_def Let_def) code_simp+

subsection \<open>Metrics\<close>

text \<open>The counters of \<open>test_helpers\<close>: atomic 64-bit numbers that wrap.\<close>

record test_counters =
  TEST_CONNECTIONS :: "64 word"
  TEST_BYTES :: "64 word"
  TEST_ALLOWED :: "64 word"
  TEST_DENIED :: "64 word"
  TEST_HANDSHAKE_ERRORS :: "64 word"

definition test_record_connection :: "test_counters \<Rightarrow> test_counters" where
  "test_record_connection c = c\<lparr>TEST_CONNECTIONS := TEST_CONNECTIONS c + 1\<rparr>"

definition test_record_bytes :: "64 word \<Rightarrow> test_counters \<Rightarrow> test_counters" where
  "test_record_bytes n c = c\<lparr>TEST_BYTES := TEST_BYTES c + n\<rparr>"

definition test_record_policy :: "bool \<Rightarrow> test_counters \<Rightarrow> test_counters" where
  "test_record_policy allowed c =
     (if allowed then c\<lparr>TEST_ALLOWED := TEST_ALLOWED c + 1\<rparr> else c\<lparr>TEST_DENIED := TEST_DENIED c + 1\<rparr>)"

definition increment_connections :: "test_counters \<Rightarrow> test_counters" where
  "increment_connections c = test_record_connection c"

definition add_bytes :: "64 word \<Rightarrow> test_counters \<Rightarrow> test_counters" where
  "add_bytes n c = test_record_bytes n c"

definition increment_allowed :: "test_counters \<Rightarrow> test_counters" where
  "increment_allowed c = c\<lparr>TEST_ALLOWED := TEST_ALLOWED c + 1\<rparr>"

definition increment_denied :: "test_counters \<Rightarrow> test_counters" where
  "increment_denied c = c\<lparr>TEST_DENIED := TEST_DENIED c + 1\<rparr>"

definition increment_handshake_errors :: "test_counters \<Rightarrow> test_counters" where
  "increment_handshake_errors c = c\<lparr>TEST_HANDSHAKE_ERRORS := TEST_HANDSHAKE_ERRORS c + 1\<rparr>"

definition test_reset :: "test_counters \<Rightarrow> test_counters" where
  "test_reset c = c\<lparr>TEST_CONNECTIONS := 0, TEST_BYTES := 0, TEST_ALLOWED := 0, TEST_DENIED := 0, TEST_HANDSHAKE_ERRORS := 0\<rparr>"

lemmas test_counter_defs = test_record_connection_def test_record_bytes_def test_record_policy_def
  increment_connections_def add_bytes_def increment_allowed_def increment_denied_def increment_handshake_errors_def test_reset_def

text \<open>The counters are process-wide, so each test starts from any values.\<close>

definition test_metrics_counters :: "test_counters \<Rightarrow> bool" where
  "test_metrics_counters c =
     (let c = test_record_policy False (test_record_policy True (test_record_bytes 1024 (test_record_connection (test_reset c)))) in
      TEST_CONNECTIONS c = 1 \<and> TEST_BYTES c = 1024 \<and> TEST_ALLOWED c = 1 \<and> TEST_DENIED c = 1)"

definition test_metrics_multiple_increments :: "test_counters \<Rightarrow> bool" where
  "test_metrics_multiple_increments c = (TEST_CONNECTIONS ((test_record_connection ^^ 100) (test_reset c)) = 100)"

definition test_metrics_reset :: "test_counters \<Rightarrow> bool" where
  "test_metrics_reset c =
     (let c0 = test_reset c; c1 = test_record_connection c0; c2 = test_reset c1 in
      TEST_CONNECTIONS c0 = 0 \<and> TEST_CONNECTIONS c1 = 1 \<and> TEST_CONNECTIONS c2 = 0)"

lemma test_record_connection_many: "TEST_CONNECTIONS ((test_record_connection ^^ n) c) = TEST_CONNECTIONS c + of_nat n"
  by (induction n) (simp_all add: test_counter_defs)

lemma counter_tests: "test_metrics_counters c" "test_metrics_multiple_increments c" "test_metrics_reset c"
  by (simp_all add: test_metrics_counters_def test_metrics_multiple_increments_def test_metrics_reset_def
      test_record_connection_many test_counter_defs Let_def)

text \<open>
  Each test passes alone. The harness runs them on threads of one process, though, and they share
  the counters: one connection counted by another test after the reset is one too many.
\<close>

lemma counter_tests_interfere:
  "TEST_CONNECTIONS (test_record_connection (increment_connections (test_reset c))) \<noteq> 1"
  by (simp add: test_counter_defs)

lemma policy_counters: "test_record_policy allowed c = (if allowed then increment_allowed c else increment_denied c)"
  by (simp add: test_counter_defs)

text \<open>
  The relay test renders the registry; the four lines it looks for are the values of four series.
  Its other two assertions are about the result, which the function hands back as it was given.
\<close>

definition relay_metrics_distinguish_success_from_failure :: "IoError \<Rightarrow> duration \<Rightarrow> duration \<Rightarrow> bool" where
  "relay_metrics_distinguish_success_from_failure reset t1 t2 =
     (let m = record_relay_result (Inr (7, 11)) t1 (record_connection_start InterlinkMetrics_new);
          m = record_relay_result (Inl reset) t2 (record_connection_start m) in
      connections_total m = 2 \<and> connection_errors_total m = 1 \<and> bytes_total m = 18
      \<and> length (connection_duration m) = 1)"

lemma relay_test: "relay_metrics_distinguish_success_from_failure reset t1 t2"
  by (simp add: relay_metrics_distinguish_success_from_failure_def record_relay_result_def metric_defs
      InterlinkMetrics_new_def Let_def)

end
