(* ===== verification/Tests_Mesh.thy ===== *)
theory Tests_Mesh
  imports Tests_Common Admin Cert_Authority Discovery
begin

text \<open>
  The unit tests at the end of \<open>src/discovery/dns.rs\<close>, \<open>src/identity/provider/mod.rs\<close>,
  \<open>src/identity/ca/mod.rs\<close>, \<open>src/proxy/handshake.rs\<close>, \<open>src/proxy/reload.rs\<close> and
  \<open>src/admin/mod.rs\<close>. What a library does in a test is an argument here as it is in the model, with
  the documented behaviour the test rests on as a hypothesis of the lemma that it holds.
\<close>

subsection \<open>Service discovery\<close>

definition test_new_discovery :: "(string, 'b) result \<Rightarrow> ('b \<Rightarrow> (string, 'r) result) \<Rightarrow> bool" where
  "test_new_discovery builder_tokio build =
     (case ServiceDiscovery_new builder_tokio build of Inr sd \<Rightarrow> sd_cache sd = Map.empty | Inl _ \<Rightarrow> False)"

definition test_cache_clear :: "(string, 'b) result \<Rightarrow> ('b \<Rightarrow> (string, 'r) result) \<Rightarrow> nat \<Rightarrow> bool" where
  "test_cache_clear builder_tokio build now =
     (case ServiceDiscovery_new builder_tokio build of
        Inr sd \<Rightarrow>
          (let sd = sd\<lparr>sd_cache := (sd_cache sd)(''test'' \<mapsto> \<lparr>ce_endpoints = None, expires_at = now + 60\<rparr>)\<rparr> in
           sd_cache sd \<noteq> Map.empty \<and> sd_cache (clear_cache sd) = Map.empty)
      | Inl _ \<Rightarrow> False)"

text \<open>The answers of the fake resolver; how often it was asked is the length of the log.\<close>

definition counting_resolver :: "bool \<Rightarrow> lookup_result" where
  "counting_resolver fail =
     (if fail then Inl (DnsResolution ''fake failure'') else Inr [SocketAddr_new (V4 127 0 0 1) 8080])"

text \<open>
  Tests run on one thread: a task runs until it has to wait. The fake resolver answers at once, so
  each call runs to its end; the gated one lets the first call wait in its lookup while the others
  queue up behind its semaphore.
\<close>

definition turns :: "nat \<Rightarrow> nat \<Rightarrow> lookup_result \<Rightarrow> dns_event list" where
  "turns t n answer = replicate n (Turn t answer)"

definition finished_with :: "(resolve_result \<Rightarrow> bool) \<Rightarrow> nat list \<Rightarrow> dns_system \<Rightarrow> bool" where
  "finished_with P ts s = list_all (\<lambda>t. case dns_tasks s t of Some (RDone name r) \<Rightarrow> P r | _ \<Rightarrow> False) ts"

definition test_resolve_failure_does_not_hang :: bool where
  "test_resolve_failure_does_not_hang =
     (case dns_exec (Call 0 ''nonexistent.invalid.'' # turns 0 7 (counting_resolver True)) (dns_start 30) of
        Some s \<Rightarrow> finished_with (\<lambda>r. \<not> is_ok r) [0] s
      | None \<Rightarrow> False)"

definition test_concurrent_resolve_dedup :: bool where
  "test_concurrent_resolve_dedup =
     (let answer = counting_resolver False; tasks = [0, 1, 2, 3, 4, 5, 6, 7, 8, 9] in
      case dns_exec (concat (map (\<lambda>t. [Call t ''test.example.'']) tasks) @ turns 0 7 answer
             @ concat (map (\<lambda>t. turns t 1 answer) (tl tasks))) (dns_start 30) of
        Some s \<Rightarrow> length (lookups s) = 1
          \<and> finished_with (\<lambda>r. r = Inr \<lparr>addrs = [SocketAddr_new (V4 127 0 0 1) 8080], ep_spiffe_id = None\<rparr>) tasks s
      | None \<Rightarrow> False)"

definition test_concurrent_resolve_success_path :: bool where
  "test_concurrent_resolve_success_path =
     (let answer = counting_resolver False; tasks = [0, 1, 2, 3, 4, 5, 6, 7, 8, 9] in
      case dns_exec (concat (map (\<lambda>t. [Call t ''success.example.'']) tasks) @ turns 0 7 answer
             @ concat (map (\<lambda>t. turns t 1 answer) (tl tasks))) (dns_start 30) of
        Some s \<Rightarrow> finished_with is_ok tasks s
      | None \<Rightarrow> False)"

text \<open>The gated resolver hands its receiver to the first lookup and panics on a second one.\<close>

definition test_waiter_branch :: bool where
  "test_waiter_branch =
     (let answer = counting_resolver False; tasks = [0, 1, 2, 3, 4] in
      case dns_exec (concat (map (\<lambda>t. [Call t ''gated.example.'']) tasks)
             @ concat (map (\<lambda>t. turns t 3 answer) tasks)
             @ turns 0 4 answer @ concat (map (\<lambda>t. turns t 3 answer) (tl tasks))) (dns_start 30) of
        Some s \<Rightarrow> length (lookups s) = 1
          \<and> finished_with (\<lambda>r. r = Inr \<lparr>addrs = [SocketAddr_new (V4 127 0 0 1) 8080], ep_spiffe_id = None\<rparr>) tasks s
      | None \<Rightarrow> False)"

lemmas schedule_defs = turns_def finished_with_def counting_resolver_def dns_start_def with_resolver_def advance_def cached_def
  is_expired_def acquire_def release_def resolve_inner_def logged_def Let_def

text \<open>The first two tests need a system configuration to build the resolver from.\<close>

lemma discovery_state_tests:
  assumes "builder_tokio = Inr b" and "build b = Inr resolver"
  shows "test_new_discovery builder_tokio build" "test_cache_clear builder_tokio build now"
  using assms by (simp_all add: test_new_discovery_def test_cache_clear_def with_resolver_def clear_cache_def Let_def)

lemma discovery_tests:
  "test_resolve_failure_does_not_hang" "test_concurrent_resolve_dedup" "test_concurrent_resolve_success_path" "test_waiter_branch"
  by (simp_all add: test_resolve_failure_does_not_hang_def test_concurrent_resolve_dedup_def
      test_concurrent_resolve_success_path_def test_waiter_branch_def schedule_defs eval_nat_numeral)

text \<open>
  The count of one is the thread's doing: with two threads a task that has missed the cache and then
  waits for its turn elects itself after the leader is done, and looks up again what is cached.
\<close>

lemma dedup_needs_one_thread:
  "\<exists>s. dns_exec ([Call 0 ''test.example.'', Call 1 ''test.example.''] @ turns 1 1 (counting_resolver False)
         @ turns 0 7 (counting_resolver False) @ turns 1 6 (counting_resolver False)) (dns_start 30) = Some s
     \<and> length (lookups s) = 2 \<and> clock s = 0"
  by (simp add: schedule_defs eval_nat_numeral)

subsection \<open>Identity providers\<close>

text \<open>
  The tests encode a JSON object as the payload of a token. \<open>encode\<close> is the encoder of the
  \<open>base64\<close> crate, whose alphabet has no full stop and which its decoder inverts.
\<close>

definition sub_payload :: "string \<Rightarrow> string" where
  "sub_payload sub = ''{'' @ [CHR 0x22] @ ''sub'' @ [CHR 0x22] @ '':'' @ [CHR 0x22] @ sub @ [CHR 0x22] @ ''}''"

definition payload_token :: "(bytes \<Rightarrow> string) \<Rightarrow> string \<Rightarrow> string" where
  "payload_token encode payload = ''header.'' @ encode payload @ ''.signature''"

definition test_extract_service_account_from_token :: "'a k8s_world_scheme \<Rightarrow> (bytes \<Rightarrow> string) \<Rightarrow> bool" where
  "test_extract_service_account_from_token w encode =
     (let payload = sub_payload ''system:serviceaccount:default:my-sa'' in
      extract_service_account_from_token w (payload_token encode payload) = Some ''my-sa'')"

definition test_extract_service_account_malformed_sub :: "'a k8s_world_scheme \<Rightarrow> (bytes \<Rightarrow> string) \<Rightarrow> bool" where
  "test_extract_service_account_malformed_sub w encode =
     (let payload = sub_payload ''not-a-serviceaccount-sub'' in
      extract_service_account_from_token w (payload_token encode payload) = None)"

definition base64_pair :: "'a k8s_world_scheme \<Rightarrow> (bytes \<Rightarrow> string) \<Rightarrow> bool" where
  "base64_pair w encode = (\<forall>bs. url_safe_decode w (encode bs) = Some bs \<and> CHR ''.'' \<notin> set (encode bs))"

definition reads_sub :: "'a k8s_world_scheme \<Rightarrow> string \<Rightarrow> bool" where
  "reads_sub w sub = (jwt_claims w (sub_payload sub) = Some [''sub'' \<mapsto> JsonString sub])"

lemma payload_token_fields:
  assumes "base64_pair w encode"
  shows "split_on (\<lambda>c. c = CHR ''.'') (payload_token encode payload) = [''header'', encode payload, ''signature'']"
proof -
  have clean: "CHR ''.'' \<notin> set (encode payload)" using assms by (simp add: base64_pair_def)
  have "payload_token encode payload = ''header'' @ CHR ''.'' # (encode payload @ CHR ''.'' # ''signature'')"
    by (simp add: payload_token_def)
  moreover have "split_on (\<lambda>c. c = CHR ''.'') (encode payload @ CHR ''.'' # ''signature'') = [encode payload, ''signature'']"
    by (simp only: split_on_field [OF clean]) simp
  ultimately show ?thesis by simp
qed

lemma provider_tests:
  assumes "base64_pair w encode"
  shows "reads_sub w ''system:serviceaccount:default:my-sa'' \<Longrightarrow> test_extract_service_account_from_token w encode"
    and "reads_sub w ''not-a-serviceaccount-sub'' \<Longrightarrow> test_extract_service_account_malformed_sub w encode"
  using assms
  by (simp_all add: test_extract_service_account_from_token_def test_extract_service_account_malformed_sub_def Let_def
      extract_service_account_from_token_def payload_token_fields [OF assms] reads_sub_def base64_pair_def)

subsection \<open>Credential reload\<close>

definition credential_paths_expose_the_configured_files :: bool where
  "credential_paths_expose_the_configured_files =
     (let paths = TlsCredentialPaths_new ''ca'' ''cert'' ''key'' in
      ca_bundle paths = ''ca'' \<and> certificate paths = ''cert'' \<and> private_key paths = ''key'')"

definition parses_pem_certificate_bundles_and_private_keys :: "cred_world \<Rightarrow> bytes \<Rightarrow> bytes \<Rightarrow> bytes \<Rightarrow> bytes \<Rightarrow> bool" where
  "parses_pem_certificate_bundles_and_private_keys c pem cert_der key_pem key_der =
     (let bundle = pem @ [CHR 0x0A] @ pem in
      case (parse_certificates c bundle, parse_private_key c key_pem) of
        (Inr certificates, Inr key) \<Rightarrow>
          length certificates = 2 \<and> certificates ! 0 = cert_der \<and> certificates ! 1 = cert_der \<and> key = key_der
      | _ \<Rightarrow> False)"

lemma reload_paths_test: "credential_paths_expose_the_configured_files"
  by (simp add: credential_paths_expose_the_configured_files_def TlsCredentialPaths_new_def Let_def)

text \<open>The PEM text of a certificate or key begins with the marker, and the reader gives back what was written.\<close>

lemma reload_pem_test:
  assumes "\<exists>rest. pem = pem_marker @ rest" and "\<exists>rest. key_pem = pem_marker @ rest"
    and "cw_pem_certs c (pem @ [CHR 0x0A] @ pem) = [Inr cert_der, Inr cert_der]" and "cw_pem_key c key_pem = Inr (Some key_der)"
  shows "parses_pem_certificate_bundles_and_private_keys c pem cert_der key_pem key_der"
proof -
  have "contains_pem_header (pem @ [CHR 0x0A] @ pem)" "contains_pem_header key_pem"
    unfolding contains_pem_header_iff using assms(1,2) by (metis append_Nil append_assoc)+
  then show ?thesis
    using assms(3,4)
    by (simp add: parses_pem_certificate_bundles_and_private_keys_def parse_certificates_def parse_private_key_def ok_or_def Let_def)
qed

subsection \<open>Certificate authority\<close>

definition test_ca_init :: "rcgen \<Rightarrow> bool" where
  "test_ca_init rg =
     (case CertificateAuthority_new rg ''td.local'' of Inr ca \<Rightarrow> ca_root_cert_der ca \<noteq> [] | Inl _ \<Rightarrow> False)"

text \<open>Both tests walk over all names: every URI is the identity, and there is one.\<close>

definition test_leaf_san :: "pki \<Rightarrow> rcgen \<Rightarrow> bool" where
  "test_leaf_san p rg =
     (case and_then (CertificateAuthority_new rg ''td.local'') (\<lambda>ca. issue_leaf rg ca (SpiffeId_new ''td.local'' ''ns'' ''sa'')) of
        Inr cert_der \<Rightarrow> (case x509_parse p cert_der of
            Inr exts \<Rightarrow> list_all (\<lambda>uri. uri = ''spiffe://td.local/ns/ns/sa/sa'') (san_uris exts) \<and> san_uris exts \<noteq> []
          | Inl _ \<Rightarrow> False)
      | Inl _ \<Rightarrow> False)"

definition issue_leaf_reports_non_ascii_uri_instead_of_panicking :: "rcgen \<Rightarrow> bool" where
  "issue_leaf_reports_non_ascii_uri_instead_of_panicking rg =
     (case (CertificateAuthority_new rg ''td.local'', try_new ''td.local'' ''ns'' (''servic'' @ [CHR 0xC3, CHR 0xA9])) of
        (Inr ca, Inr ident) \<Rightarrow> \<not> is_ok (issue_leaf rg ca ident)
      | _ \<Rightarrow> False)"

text \<open>IA5 strings are ASCII strings.\<close>

definition ia5_ascii :: "rcgen \<Rightarrow> bool" where
  "ia5_ascii rg = (\<forall>s. is_ok (rg_ia5 rg s) \<longrightarrow> list_all (\<lambda>c. of_char c < (128 :: nat)) s)"

lemma ca_init_test:
  assumes "CertificateAuthority_new rg ''td.local'' = Inr ca" and "\<And>params key. rg_self_signed rg params key \<noteq> Inr []"
  shows "test_ca_init rg"
proof -
  have "ca_root_cert_der ca \<noteq> []"
    using assms by (auto simp: CertificateAuthority_new_def and_then_Inr_iff Let_def)
  with assms(1) show ?thesis by (simp add: test_ca_init_def)
qed

lemma issued_names:
  assumes "encodes_sans p rg" and "ia5_exact rg" and "issue_leaf rg ca ident = Inr cert"
  shows "\<exists>exts. x509_parse p cert = Inr exts \<and> san_uris exts = [to_uri ident]"
proof -
  obtain params k where "sign_leaf rg ca params [SanURI (to_uri ident)] = Inr (cert, k)"
    using assms(3) by (auto simp: issue_leaf_def and_then_Inr_iff dest!: ia5_exactD [OF assms(2)])
  from sign_leaf_profile [OF this] obtain ps
    where ps: "rg_signed_by rg ps k (ca_root_cert ca) (ca_root_key ca) = Inr cert"
      "subject_alt_names ps = [SanURI (to_uri ident)]" by blast
  then show ?thesis using assms(1) unfolding encodes_sans_def by (fastforce simp: san_uri_def)
qed

lemma leaf_san_test:
  assumes "encodes_sans p rg" and "ia5_exact rg" and "CertificateAuthority_new rg ''td.local'' = Inr ca"
    and "issue_leaf rg ca (SpiffeId_new ''td.local'' ''ns'' ''sa'') = Inr cert"
  shows "test_leaf_san p rg"
proof -
  have "to_uri (SpiffeId_new ''td.local'' ''ns'' ''sa'') = ''spiffe://td.local/ns/ns/sa/sa''"
    by (simp add: to_uri_def SpiffeId_new_def)
  with issued_names [OF assms(1,2,4)] assms(3,4) show ?thesis by (auto simp: test_leaf_san_def)
qed

lemma non_ascii_uri_test:
  assumes "CertificateAuthority_new rg ''td.local'' = Inr ca" and "ia5_ascii rg"
  shows "issue_leaf_reports_non_ascii_uri_instead_of_panicking rg"
proof -
  let ?sa = "''servic'' @ [CHR 0xC3, CHR 0xA9]"
  have "\<not> list_all (\<lambda>c. of_char c < (128 :: nat)) (to_uri (SpiffeId_new ''td.local'' ''ns'' ?sa))"
    by (simp add: to_uri_def SpiffeId_new_def)
  then obtain e where "rg_ia5 rg (to_uri (SpiffeId_new ''td.local'' ''ns'' ?sa)) = Inl e"
    using assms(2) unfolding ia5_ascii_def by (cases "rg_ia5 rg (to_uri (SpiffeId_new ''td.local'' ''ns'' ?sa))") auto
  moreover have "try_new ''td.local'' ''ns'' ?sa = Inr (SpiffeId_new ''td.local'' ''ns'' ?sa)"
    by (simp add: try_new_def validate_segments_def SpiffeId_new_def Let_def)
  ultimately show ?thesis
    using assms(1)
    by (cases "rg_params_new rg")
       (simp_all add: issue_leaf_reports_non_ascii_uri_instead_of_panicking_def issue_leaf_def identity_error_def)
qed

subsection \<open>Identity extraction\<close>

text \<open>The tests' own reading of a chain: the first URI name decides, unlike in the code under test.\<close>

definition extract_spiffe_id_from_certs :: "pki \<Rightarrow> bytes list \<Rightarrow> (InterlinkError, SpiffeId) result panicky" where
  "extract_spiffe_id_from_certs p certs =
     (case certs of
        [] \<Rightarrow> Some (Inl (Identity ''empty certificate chain''))
      | leaf # _ \<Rightarrow> (case x509_parse p leaf of
          Inl e \<Rightarrow> Some (Inl (Identity (''cert parse: '' @ e)))
        | Inr exts \<Rightarrow> (case san_uris exts of
            uri # _ \<Rightarrow> SpiffeId_from_uri uri
          | [] \<Rightarrow> Some (Inl (Identity ''no URI in SAN'')))))"

definition test_extract_identity_rejects_empty_certs :: "pki \<Rightarrow> bool" where
  "test_extract_identity_rejects_empty_certs p = errs (extract_spiffe_id_from_certs p [])"

definition test_extract_identity_from_real_cert :: "pki \<Rightarrow> rcgen \<Rightarrow> bool" where
  "test_extract_identity_from_real_cert p rg =
     (let ident = SpiffeId_new ''test.local'' ''ns1'' ''sa1'' in
      case and_then (CertificateAuthority_new rg ''test.local'') (\<lambda>ca. issue_leaf rg ca ident) of
        Inr cert \<Rightarrow> gives (extract_spiffe_id_from_certs p [cert]) ident
      | Inl _ \<Rightarrow> False)"

lemma empty_chain_test: "test_extract_identity_rejects_empty_certs p"
  by (simp add: test_extract_identity_rejects_empty_certs_def extract_spiffe_id_from_certs_def errs_def)

lemma real_cert_test:
  assumes "encodes_sans p rg" and "ia5_exact rg" and "CertificateAuthority_new rg ''test.local'' = Inr ca"
    and "issue_leaf rg ca (SpiffeId_new ''test.local'' ''ns1'' ''sa1'') = Inr cert"
  shows "test_extract_identity_from_real_cert p rg"
proof -
  let ?id = "SpiffeId_new ''test.local'' ''ns1'' ''sa1''"
  have "gives (SpiffeId_from_uri (to_uri ?id)) ?id" by code_simp
  moreover obtain exts where "x509_parse p cert = Inr exts" "san_uris exts = [to_uri ?id]"
    using issued_names [OF assms(1,2,4)] by blast
  ultimately have "gives (extract_spiffe_id_from_certs p [cert]) ?id"
    by (simp only: extract_spiffe_id_from_certs_def list.case sum.case)
  then show ?thesis
    by (simp only: test_extract_identity_from_real_cert_def Let_def assms(3,4) and_then_simps sum.case)
qed

text \<open>The hypotheses hold together: the instance of the authority's witnesses passes the tests.\<close>

lemma sample_new_ca:
  "CertificateAuthority_new sample_rcgen td =
     Inr \<lparr>ca_root_key = ''key'', ca_root_cert = ''root'', ca_root_cert_der = ''root'', ca_trust_domain = td\<rparr>"
  by (simp add: CertificateAuthority_new_def sample_rcgen_def identity_error_def Let_def)

lemma sample_leaf: "valid_utf8 (to_uri ident) \<Longrightarrow> issue_leaf sample_rcgen ca ident = Inr (to_uri ident)"
  by (simp add: issue_leaf_def sample_rcgen_def sign_leaf_def generate_serial_number_def identity_error_def san_uri_def Let_def)

lemma sample_ia5_exact: "ia5_exact sample_rcgen"
  by (simp add: ia5_exact_def sample_rcgen_def)

lemma sample_ca_tests:
  "test_ca_init sample_rcgen" "test_leaf_san sample_ca_pki sample_rcgen"
  "test_extract_identity_from_real_cert sample_ca_pki sample_rcgen"
proof -
  have ids: "valid_utf8 (to_uri (SpiffeId_new ''td.local'' ''ns'' ''sa''))"
    "valid_utf8 (to_uri (SpiffeId_new ''test.local'' ''ns1'' ''sa1''))" by code_simp+
  show "test_ca_init sample_rcgen" by (rule ca_init_test [OF sample_new_ca]) (simp add: sample_rcgen_def)
  show "test_leaf_san sample_ca_pki sample_rcgen"
    by (rule leaf_san_test [OF sample_encodes sample_ia5_exact sample_new_ca sample_leaf [OF ids(1)]])
  show "test_extract_identity_from_real_cert sample_ca_pki sample_rcgen"
    by (rule real_cert_test [OF sample_encodes sample_ia5_exact sample_new_ca sample_leaf [OF ids(2)]])
qed

subsection \<open>Admin server\<close>

definition admin_response :: "'s AdminServer \<Rightarrow> bytes \<Rightarrow> 's \<Rightarrow> (bytes \<times> 's) option" where
  "admin_response admin request s =
     (case handle_request admin (Inr request) s of Some (Some response, s') \<Rightarrow> Some (response, s') | _ \<Rightarrow> None)"

definition test_admin_healthz :: "16 word \<Rightarrow> bool" where
  "test_admin_healthz port =
     (case admin_response (admin_with_port AdminServer_new port) (''GET /healthz HTTP/1.1'' @ crlf @ crlf) () of
        Some (response, _) \<Rightarrow>
          starts_with (from_utf8_lossy response) ''HTTP/1.1 200 OK'' \<and> contains_str (from_utf8_lossy response) ''ok''
      | None \<Rightarrow> False)"

definition test_admin_readyz_not_ready :: "16 word \<Rightarrow> bool" where
  "test_admin_readyz_not_ready port =
     (case admin_response (set_ready (admin_with_port AdminServer_new port) False) (''GET /readyz HTTP/1.1'' @ crlf @ crlf) () of
        Some (response, _) \<Rightarrow> starts_with (from_utf8_lossy response) ''HTTP/1.1 503 Service Unavailable''
      | None \<Rightarrow> False)"

text \<open>The handler of the tests counts its calls.\<close>

definition fixed_reload_handler :: "bool \<Rightarrow> nat \<Rightarrow> ((InterlinkError, unit) result \<times> nat) panicky" where
  "fixed_reload_handler fail calls =
     Some (if fail then Inl (ConfigError ''invalid replacement'') else Inr (), calls + 1)"

definition reload_is_unavailable_without_a_handler :: bool where
  "reload_is_unavailable_without_a_handler =
     (case admin_response AdminServer_new (''POST /reload HTTP/1.1'' @ crlf @ crlf) () of
        Some (response, _) \<Rightarrow> starts_with response (''HTTP/1.1 503 Service Unavailable'' @ crlf)
      | None \<Rightarrow> False)"

definition reload_reports_handler_success :: bool where
  "reload_reports_handler_success =
     (case admin_response (with_reload_handler AdminServer_new (fixed_reload_handler False))
             (''POST /reload HTTP/1.1'' @ crlf @ crlf) 0 of
        Some (response, calls) \<Rightarrow> starts_with response (''HTTP/1.1 200 OK'' @ crlf) \<and> calls = 1
      | None \<Rightarrow> False)"

definition reload_reports_handler_failure :: bool where
  "reload_reports_handler_failure =
     (case admin_response (with_reload_handler AdminServer_new (fixed_reload_handler True))
             (''POST /reload HTTP/1.1'' @ crlf @ crlf) 0 of
        Some (response, calls) \<Rightarrow> starts_with response (''HTTP/1.1 500 Internal Server Error'' @ crlf) \<and> calls = 1
      | None \<Rightarrow> False)"

lemma admin_tests:
  "test_admin_healthz port" "test_admin_readyz_not_ready port" "reload_is_unavailable_without_a_handler"
  "reload_reports_handler_success" "reload_reports_handler_failure"
  by code_simp+

end
