(* ===== verification/Handshake_Count.thy ===== *)
theory Handshake_Count
  imports Outbound
begin

text \<open>
  What multiplexing is for (\<open>src/proxy/mux.rs\<close>, "handshake avoidance"): connections to one peer share
  its tunnel instead of paying a TLS handshake each. \<open>peer_run\<close> is the interleaved outbound proxy
  of \<open>Outbound\<close> with a counter of the handshakes it starts, as the wrapper \<open>CountingHandshake\<close> of
  \<open>tests/mux_tunnel.rs\<close> has it, on connections to one peer that is up: the handshake succeeds,
  the policy allows it, tunnels stay and open the streams asked for. No more than \<open>limit\<close> handlers
  are unfinished at a time.
\<close>

definition allows :: "OutboundProxy \<Rightarrow> SpiffeId \<Rightarrow> bool" where
  "allows self i = (evaluate (out_policy self) (out_local_id self) i = Some Allow)"

definition peer_up :: "pki \<Rightarrow> OutboundProxy \<Rightarrow> SocketAddr \<Rightarrow> bool \<Rightarrow> outbound_input \<Rightarrow> bool" where
  "peer_up p self a mux inp \<longleftrightarrow> oi_reply inp = Opened \<and> (\<forall>g. tls_ok p g \<longrightarrow>
     (\<exists>ts h. oi_connect inp a g = Some (Inr ts, h) \<and> allows self (ts_peer_identity ts)
        \<and> (negotiated_alpn (ts_inner ts) = Some ALPN_MUX \<longleftrightarrow> mux)))"

fun dials :: "route_pc \<Rightarrow> bool" where
  "dials (Establish _ _) = True"
| "dials _ = False"

definition unfinished :: "route_pc \<Rightarrow> bool" where
  "unfinished pc = (pc \<noteq> Finished)"

inductive peer_run ::
  "pki \<Rightarrow> OutboundProxy \<Rightarrow> SocketAddr \<Rightarrow> bool \<Rightarrow> nat \<Rightarrow> globals \<Rightarrow> nat \<Rightarrow> outbound_system \<Rightarrow> bool"
  for p :: pki and self :: OutboundProxy and a :: SocketAddr and mux :: bool and limit :: nat and g :: globals where
  start: "peer_run p self a mux limit g 0 (outbound_init g)"
| arrive: "peer_run p self a mux limit g n s \<Longrightarrow> ob_tasks s t = None \<Longrightarrow> count_tasks unfinished (ob_tasks s) < limit \<Longrightarrow>
    peer_run p self a mux limit g n (s\<lparr>ob_tasks := (ob_tasks s)(t \<mapsto> Begin (Socket a))\<rparr>)"
| move: "peer_run p self a mux limit g n s \<Longrightarrow> ob_tasks s t = Some pc \<Longrightarrow> client_input p inp \<Longrightarrow> peer_up p self a mux inp \<Longrightarrow>
    route_step self inp (ob_pool s) (ob_globals s) pc = Some (pool, h, pc') \<Longrightarrow>
    peer_run p self a mux limit g (n + of_bool (dials pc)) \<lparr>ob_pool = pool, ob_globals = h, ob_tasks = (ob_tasks s)(t \<mapsto> pc')\<rparr>"

lemma peer_run_reachable: "peer_run p self a mux limit g n s \<Longrightarrow> outbound_reachable p self g s"
  by (induction rule: peer_run.induct)
     (auto intro: outbound_reachable.intros outbound_step.intros)

lemma peer_run_inv:
  assumes "peer_run p self a mux limit g n s" and "sound_proxy self" and "tls_ok p g"
  shows "outbound_inv p self g s"
  by (rule outbound_reachable_inv [OF peer_run_reachable [OF assms(1)] assms(2,3)])

lemma unfinished_bounded:
  assumes "peer_run p self a mux limit g n s" and "sound_proxy self" and "tls_ok p g"
  shows "count_tasks unfinished (ob_tasks s) \<le> limit"
  using assms(1)
proof induction
  case start
  show ?case by (simp add: outbound_init_def)
next
  case (arrive n s t)
  have fin: "finite (dom (ob_tasks s))" using peer_run_inv [OF arrive(1) assms(2,3)] by (simp add: outbound_inv_def)
  have "unfinished (Begin (Socket a))" by (simp add: unfinished_def)
  then show ?case
    using count_tasks_new [OF fin arrive(2), of unfinished "Begin (Socket a)"] arrive(3) by (simp del: fun_upd_apply)
next
  case (move n s t pc inp pool h pc')
  have fin: "finite (dom (ob_tasks s))" using peer_run_inv [OF move(1) assms(2,3)] by (simp add: outbound_inv_def)
  have "unfinished pc" using move(5) by (auto simp: unfinished_def)
  then have "count_tasks unfinished ((ob_tasks s)(t \<mapsto> pc')) \<le> count_tasks unfinished (ob_tasks s)"
    using count_tasks_move [OF fin move(2), of unfinished pc'] by (cases "unfinished pc'") (simp_all del: fun_upd_apply)
  with move(6) show ?case by (simp del: fun_upd_apply)
qed

subsection \<open>A peer that multiplexes\<close>

text \<open>Where a handler can be: it never fails, is never denied and never gets a connection of its own.\<close>

fun mux_pc :: "(SpiffeId \<Rightarrow> bool) \<Rightarrow> SocketAddr \<Rightarrow> route_pc \<Rightarrow> bool" where
  "mux_pc ok a (Begin target) = (target = Socket a)"
| "mux_pc ok a (Resolving target) = (target = Socket a)"
| "mux_pc ok a (Routing b) = (b = a)"
| "mux_pc ok a (Attempt b k) = (b = a \<and> 0 < k)"
| "mux_pc ok a (TryTunnel b k t) = (b = a \<and> ok (tun_peer t))"
| "mux_pc ok a (AwaitStream b k t) = (b = a)"
| "mux_pc ok a (AwaitLock b k l) = (b = a)"
| "mux_pc ok a (Recheck b k l) = (b = a)"
| "mux_pc ok a (CheckRoom b k l) = (b = a)"
| "mux_pc ok a (PickAny b k) = (b = a)"
| "mux_pc ok a (Establish b guard) = (b = a \<and> guard \<noteq> None)"
| "mux_pc ok a (Registered b guard t) = (b = a)"
| "mux_pc ok a (AwaitFresh b guard t) = (b = a)"
| "mux_pc ok a (Routed r) = (\<exists>t. r = MuxStream t)"
| "mux_pc ok a Finished = True"
| "mux_pc ok a Panicked = False"

text \<open>Between the second look at the pool and the registration the lock is held.\<close>

fun dialling :: "route_pc \<Rightarrow> bool" where
  "dialling (CheckRoom _ _ _) = True"
| "dialling (Establish _ _) = True"
| "dialling _ = False"

text \<open>Points a handler reaches only once the peer has a tunnel.\<close>

fun served :: "route_pc \<Rightarrow> bool" where
  "served (TryTunnel _ _ _) = True"
| "served (AwaitStream _ _ _) = True"
| "served (PickAny _ _) = True"
| "served (Registered _ _ _) = True"
| "served (AwaitFresh _ _ _) = True"
| "served (Routed _) = True"
| "served Finished = True"
| "served _ = False"

lemma establish_up:
  assumes "peer_up p self a mux inp" and "tls_ok p g" and "establish self inp a guard pool g = (pool', g', pc')"
  shows "if mux then \<exists>t. allows self (tun_peer t) \<and> tun_id t = tunnel_next pool \<and> tunnels pool' a = tunnels pool a @ [t]
       \<and> pc' = Registered a guard t
    else (\<exists>ts. pc' = Routed (Legacy ts)) \<and> tunnels pool' a = tunnels pool a"
proof -
  obtain ts h where "oi_connect inp a g = Some (Inr ts, h)" "evaluate (out_policy self) (out_local_id self) (ts_peer_identity ts) = Some Allow"
    "negotiated_alpn (ts_inner ts) = Some ALPN_MUX \<longleftrightarrow> mux"
    using assms(1,2) unfolding peer_up_def allows_def by blast
  note up = this
  show ?thesis
  proof (cases mux)
    case True
    obtain q t m where reg: "register pool a (ts_inner ts) (ts_peer_identity ts)
        (g_metrics (on_metrics (record_policy Allow) (on_metrics (record_handshake (oi_handshake_time inp)) h))) = (q, t, m)"
      by (rule prod_cases3)
    with assms(3) up True have "pool' = q" "pc' = Registered a guard t" by (simp_all add: establish_def Let_def)
    with tunnels_register [OF reg] up(2) True show ?thesis by (simp add: allows_def)
  next
    case False
    with assms(3) up have "pool' = unlock pool guard" "pc' = Routed (Legacy ts)" by (simp_all add: establish_def Let_def)
    with False show ?thesis by (simp add: frame_simps)
  qed
qed

lemma mux_step:
  assumes step: "route_step self inp pool g pc = Some (pool', g', pc')" and pc: "mux_pc (allows self) a pc"
    and up: "peer_up p self a True inp" and tls: "tls_ok p g" and mux: "out_mux_enabled self"
    and peers: "\<forall>t \<in> set (tunnels pool a). allows self (tun_peer t)" and served: "served pc \<Longrightarrow> tunnels pool a \<noteq> []"
  shows "mux_pc (allows self) a pc' \<and> (served pc' \<longrightarrow> tunnels pool' a \<noteq> [])
    \<and> (dialling pc' \<longrightarrow> \<not> dials pc \<and> (dialling pc \<or> pick_under_cap pool a = None \<and> (\<forall>tid. \<not> slot tid pc)))
    \<and> (if dials pc then \<exists>t. allows self (tun_peer t) \<and> tun_id t = tunnel_next pool \<and> tunnels pool' a = tunnels pool a @ [t]
       else tunnels pool' a = tunnels pool a)"
proof (cases "dials pc")
  case True
  then obtain guard where "pc = Establish a guard" using pc by (cases pc) auto
  moreover from this step have "establish self inp a guard pool g = (pool', g', pc')" by simp
  note establish_up [OF up tls this]
  ultimately show ?thesis by fastforce
next
  case False
  have opened: "oi_reply inp = Opened" using up by (simp add: peer_up_def)
  have picked: "allows self (tun_peer t)" "tunnels pool a \<noteq> []" if "pick_under_cap pool a = Some t" for t
    using that peers pick_under_cap_Some(1) by fastforce+
  have picked_any: "allows self (tun_peer t)" if "pick_any pool a = Some t" for t
    using that peers pick_any_Some by blast
  have room: "tunnels pool a \<noteq> []" if "\<not> can_grow pool a" using that by (auto simp: pool.room_iff MAX_TUNNELS_PER_PEER_def)
  show ?thesis
  proof (cases pc)
    case (Attempt b k)
    with pc obtain k' where "b = a" "k = Suc k'" by (cases k) auto
    with Attempt step show ?thesis
      using picked creation_lock_frame(1) [of pool a] by (auto split: option.splits prod.splits)
  next
    case (TryTunnel b k t)
    with pc step served show ?thesis by (auto simp: try_tunnel_stream_def allows_def frame_simps Let_def)
  next
    case (AwaitLock b k l)
    with pc step show ?thesis by (auto simp: frame_simps split: option.splits)
  next
    case (Recheck b k l)
    with pc step show ?thesis using picked by (auto simp: frame_simps split: option.splits)
  next
    case (CheckRoom b k l)
    with pc step room show ?thesis by (auto simp: frame_simps split: if_splits)
  next
    case (PickAny b k)
    with pc step served picked_any show ?thesis by (auto simp: pick_any_None split: option.splits)
  next
    case (Routed r)
    with pc step served show ?thesis by (auto simp: finish_route_def frame_simps)
  qed (use pc step opened mux served False in \<open>auto simp: outbound_resolve_upstream_def frame_simps\<close>)
qed

text \<open>
  A handler that finds every tunnel of the peer at its soft cap is one more than the handlers that
  hold the streams.
\<close>

lemma full_tunnels:
  assumes inv: "outbound_inv p self g0 s" and few: "count_tasks unfinished (ob_tasks s) \<le> limit"
    and t: "ob_tasks s t = Some pc" and pc: "unfinished pc" "\<And>tid. \<not> slot tid pc"
    and none: "pick_under_cap (ob_pool s) a = None" and ids: "distinct (map tun_id (tunnels (ob_pool s) a))"
  shows "STREAMS_PER_TUNNEL * length (tunnels (ob_pool s) a) < limit"
proof -
  let ?ids = "set (map tun_id (tunnels (ob_pool s) a))"
  let ?slots = "\<lambda>i. {v. \<exists>pd. ob_tasks s v = Some pd \<and> slot i pd}"
  let ?open = "{v. \<exists>pd. ob_tasks s v = Some pd \<and> unfinished pd}"
  have dom: "finite (dom (ob_tasks s))" using inv by (simp add: outbound_inv_def)
  note fin = count_tasks_finite [OF dom]
  have one: "i = j" if "slot i pd" "slot j pd" for i j pd
    using slot_pc_tunnel [OF that(1)] slot_pc_tunnel [OF that(2)] by auto
  have "STREAMS_PER_TUNNEL * length (tunnels (ob_pool s) a) = (\<Sum>i \<in> ?ids. STREAMS_PER_TUNNEL)"
    using distinct_card [OF ids] by simp
  also have "\<dots> \<le> (\<Sum>i \<in> ?ids. live (ob_pool s) i)"
    using none by (intro sum_mono) (auto simp: pick_under_cap_None tunnel_load_def)
  also have "\<dots> = (\<Sum>i \<in> ?ids. card (?slots i))"
    using inv by (simp add: outbound_inv_def counted_def count_tasks_def)
  also have "\<dots> = card (\<Union>i \<in> ?ids. ?slots i)"
    using fin one by (intro card_UN_disjoint [symmetric]) fastforce+
  also have "\<dots> \<le> card (?open - {t})"
    using t pc(2) fin by (intro card_mono) (auto simp: unfinished_def)
  also have "\<dots> < card ?open"
    using t pc(1) fin by (intro card_Diff1_less) auto
  finally show ?thesis using few by (simp add: count_tasks_def)
qed

definition mux_inv :: "OutboundProxy \<Rightarrow> SocketAddr \<Rightarrow> nat \<Rightarrow> nat \<Rightarrow> outbound_system \<Rightarrow> bool" where
  "mux_inv self a limit n s \<longleftrightarrow> length (tunnels (ob_pool s) a) = n \<and> (0 < n \<longrightarrow> STREAMS_PER_TUNNEL * (n - 1) < limit)
     \<and> (\<forall>t \<in> set (tunnels (ob_pool s) a). allows self (tun_peer t)) \<and> distinct (map tun_id (tunnels (ob_pool s) a))
     \<and> (\<forall>t pc. ob_tasks s t = Some pc \<longrightarrow> mux_pc (allows self) a pc \<and> (served pc \<longrightarrow> 0 < n)
          \<and> (dialling pc \<longrightarrow> STREAMS_PER_TUNNEL * n < limit))"

lemma mux_invD:
  assumes "mux_inv self a limit n s"
  shows "length (tunnels (ob_pool s) a) = n" and "0 < n \<Longrightarrow> STREAMS_PER_TUNNEL * (n - 1) < limit"
    and "\<forall>t \<in> set (tunnels (ob_pool s) a). allows self (tun_peer t)" and "distinct (map tun_id (tunnels (ob_pool s) a))"
    and "ob_tasks s t = Some pc \<Longrightarrow> mux_pc (allows self) a pc"
    and "ob_tasks s t = Some pc \<Longrightarrow> served pc \<Longrightarrow> 0 < n"
    and "ob_tasks s t = Some pc \<Longrightarrow> dialling pc \<Longrightarrow> STREAMS_PER_TUNNEL * n < limit"
  using assms by (simp_all add: mux_inv_def)

lemma dials_dialling: "dials pc \<Longrightarrow> dialling pc"
  by (cases pc) simp_all

lemma dialling_alone:
  assumes inv: "outbound_inv p self g0 s" and t: "ob_tasks s t = Some pc" and u: "ob_tasks s u = Some pd"
    and "dialling pc" "mux_pc ok a pc" and "dialling pd" "mux_pc ok a pd"
  shows "t = u"
proof -
  have "\<exists>l. holds_lock l pd \<and> pc_lock pd = Some (a, l)" if "dialling pd" "mux_pc ok a pd" for pd
    using that by (cases pd) auto
  then obtain l m where l: "holds_lock l pc" "pc_lock pc = Some (a, l)" and m: "holds_lock m pd" "pc_lock pd = Some (a, m)"
    using assms(4-7) by metis
  have "l = m" using outbound_inv_lock [OF inv t l(2)] outbound_inv_lock [OF inv u m(2)] by simp
  with l m show ?thesis using held_by_one [OF inv t u] by blast
qed

lemma mux_inv_move:
  assumes inv: "outbound_inv p self g0 s" and few: "count_tasks unfinished (ob_tasks s) \<le> limit"
    and mux: "out_mux_enabled self" and mi: "mux_inv self a limit n s" and t: "ob_tasks s t = Some pc" and up: "peer_up p self a True inp"
    and step: "route_step self inp (ob_pool s) (ob_globals s) pc = Some (pool, h, pc')"
  shows "mux_inv self a limit (n + of_bool (dials pc)) \<lparr>ob_pool = pool, ob_globals = h, ob_tasks = (ob_tasks s)(t \<mapsto> pc')\<rparr>"
    (is "mux_inv self a limit ?n _")
proof -
  have tls: "tls_ok p (ob_globals s)" and wf: "wf_pool (ob_pool s)" using inv by (simp_all add: outbound_inv_def pool_ok_def)
  have open_pc: "unfinished pc" using step by (auto simp: unfinished_def)
  note pc = mux_invD(5) [OF mi t]
  have "served pc \<Longrightarrow> tunnels (ob_pool s) a \<noteq> []" using mux_invD(1,6) [OF mi] t by fastforce
  note moved = mux_step [OF step pc up tls mux mux_invD(3) [OF mi] this]
  from moved have pc': "mux_pc (allows self) a pc'" "served pc' \<Longrightarrow> tunnels pool a \<noteq> []"
    and from_pc: "dialling pc' \<Longrightarrow> \<not> dials pc" "dialling pc' \<Longrightarrow> dialling pc \<or> pick_under_cap (ob_pool s) a = None \<and> (\<forall>tid. \<not> slot tid pc)"
    and dial: "dials pc \<Longrightarrow> \<exists>t. allows self (tun_peer t) \<and> tun_id t = tunnel_next (ob_pool s) \<and> tunnels pool a = tunnels (ob_pool s) a @ [t]"
    and keep: "\<not> dials pc \<Longrightarrow> tunnels pool a = tunnels (ob_pool s) a" by simp_all
  have pool: "length (tunnels pool a) = ?n \<and> (0 < ?n \<longrightarrow> STREAMS_PER_TUNNEL * (?n - 1) < limit)
      \<and> (\<forall>t \<in> set (tunnels pool a). allows self (tun_peer t)) \<and> distinct (map tun_id (tunnels pool a))"
  proof (cases "dials pc")
    case True
    obtain u where u: "allows self (tun_peer u)" "tun_id u = tunnel_next (ob_pool s)" "tunnels pool a = tunnels (ob_pool s) a @ [u]"
      using dial [OF True] by blast
    have "tun_id u \<notin> tun_id ` set (tunnels (ob_pool s) a)" using wf u(2) by (fastforce simp: wf_pool_def wf_tunnel_def)
    with u True mux_invD(1,3,4) [OF mi] mux_invD(7) [OF mi t dials_dialling [OF True]] show ?thesis by auto
  next
    case False
    with keep mux_invD(1-4) [OF mi] show ?thesis by simp
  qed
  have new: "dialling pc' \<Longrightarrow> STREAMS_PER_TUNNEL * ?n < limit"
    using from_pc mux_invD(7) [OF mi t] full_tunnels [OF inv few t open_pc _ _ mux_invD(4) [OF mi]] mux_invD(1) [OF mi] by auto
  have other: "STREAMS_PER_TUNNEL * ?n < limit" if u: "ob_tasks s u = Some pd" and ne: "u \<noteq> t" and d: "dialling pd" for u pd
  proof -
    have "\<not> dials pc"
      using dialling_alone [OF inv t u dials_dialling pc d mux_invD(5) [OF mi u]] ne by blast
    then show ?thesis using mux_invD(7) [OF mi u d] by simp
  qed
  have tasks: "mux_pc (allows self) a pd \<and> (served pd \<longrightarrow> 0 < ?n) \<and> (dialling pd \<longrightarrow> STREAMS_PER_TUNNEL * ?n < limit)"
    if "((ob_tasks s)(t \<mapsto> pc')) u = Some pd" for u pd
  proof (cases "u = t")
    case True
    with that have "pd = pc'" by simp
    with pc' new pool show ?thesis by auto
  next
    case False
    with that have u: "ob_tasks s u = Some pd" by simp
    with False other mux_invD(5,6) [OF mi u] show ?thesis by auto
  qed
  with pool show ?thesis by (simp add: mux_inv_def del: fun_upd_apply)
qed

lemma mux_inv_run:
  assumes "peer_run p self a True limit g n s" and "sound_proxy self" and "tls_ok p g" and "out_mux_enabled self"
  shows "mux_inv self a limit n s"
  using assms(1)
proof induction
  case start
  show ?case by (simp add: mux_inv_def outbound_init_def MuxPool_new_def tunnels_def)
next
  case (arrive n s t)
  then show ?case by (simp add: mux_inv_def)
next
  case (move n s t pc inp pool h pc')
  show ?case
    by (rule mux_inv_move [OF peer_run_inv [OF move(1) assms(2,3)] unfinished_bounded [OF move(1) assms(2,3)] assms(4)
          move(6) move(2) move(4) move(5)])
qed

subsection \<open>A peer that does not\<close>

text \<open>The pool stays empty, and every handler dials once on its way to a connection of its own.\<close>

fun connected :: "route_pc \<Rightarrow> bool" where
  "connected (Routed _) = True"
| "connected Finished = True"
| "connected _ = False"

fun legacy_pc :: "SocketAddr \<Rightarrow> route_pc \<Rightarrow> bool" where
  "legacy_pc a (Begin target) = (target = Socket a)"
| "legacy_pc a (Resolving target) = (target = Socket a)"
| "legacy_pc a (Routing b) = (b = a)"
| "legacy_pc a (Attempt b k) = (b = a \<and> 0 < k)"
| "legacy_pc a (AwaitLock b k l) = (b = a)"
| "legacy_pc a (Recheck b k l) = (b = a)"
| "legacy_pc a (CheckRoom b k l) = (b = a)"
| "legacy_pc a (Establish b guard) = (b = a)"
| "legacy_pc a (Routed r) = (\<exists>ts. r = Legacy ts)"
| "legacy_pc a Finished = True"
| "legacy_pc a _ = False"

lemma legacy_step:
  assumes step: "route_step self inp pool g pc = Some (pool', g', pc')" and pc: "legacy_pc a pc"
    and up: "peer_up p self a False inp" and tls: "tls_ok p g" and none: "tunnels pool a = []"
  shows "legacy_pc a pc' \<and> tunnels pool' a = [] \<and> (connected pc' \<longleftrightarrow> connected pc \<or> dials pc)"
proof (cases "dials pc")
  case True
  then obtain guard where "pc = Establish a guard" using pc by (cases pc) auto
  moreover from this step have "establish self inp a guard pool g = (pool', g', pc')" by simp
  note establish_up [OF up tls this]
  ultimately show ?thesis using none by auto
next
  case False
  have nopick: "pick_under_cap pool a = None" using none by (simp add: pick_under_cap_None)
  have room: "can_grow pool a" using none by (simp add: pool.room_iff MAX_TUNNELS_PER_PEER_def)
  show ?thesis
  proof (cases pc)
    case (Attempt b k)
    with pc obtain k' where "b = a" "k = Suc k'" by (cases k) auto
    with Attempt step nopick none show ?thesis
      using creation_lock_frame(1) [of pool a] by (auto split: prod.splits)
  next
    case (AwaitLock b k l)
    with pc step none show ?thesis by (auto simp: frame_simps split: option.splits)
  next
    case (Routed r)
    with pc step none show ?thesis by (auto simp: finish_route_def)
  qed (use pc step none nopick room False in \<open>auto simp: outbound_resolve_upstream_def split: if_splits\<close>)
qed

definition legacy_inv :: "SocketAddr \<Rightarrow> nat \<Rightarrow> outbound_system \<Rightarrow> bool" where
  "legacy_inv a n s \<longleftrightarrow> tunnels (ob_pool s) a = [] \<and> n = count_tasks connected (ob_tasks s)
     \<and> (\<forall>t pc. ob_tasks s t = Some pc \<longrightarrow> legacy_pc a pc)"

lemma legacy_inv_run:
  assumes "peer_run p self a False limit g n s" and "sound_proxy self" and "tls_ok p g"
  shows "legacy_inv a n s"
  using assms(1)
proof induction
  case start
  show ?case by (simp add: legacy_inv_def outbound_init_def MuxPool_new_def tunnels_def)
next
  case (arrive n s t)
  have fin: "finite (dom (ob_tasks s))" using peer_run_inv [OF arrive(1) assms(2,3)] by (simp add: outbound_inv_def)
  have "legacy_pc a pd" if "((ob_tasks s)(t \<mapsto> Begin (Socket a))) u = Some pd" for u pd
    using that arrive(4) by (auto simp: legacy_inv_def split: if_splits)
  with count_tasks_new [OF fin arrive(2), of connected "Begin (Socket a)"] arrive(4)
  show ?case by (simp add: legacy_inv_def del: fun_upd_apply)
next
  case (move n s t pc inp pool h pc')
  have inv: "outbound_inv p self g s" by (rule peer_run_inv [OF move(1) assms(2,3)])
  then have fin: "finite (dom (ob_tasks s))" and tls: "tls_ok p (ob_globals s)" by (simp_all add: outbound_inv_def)
  have old: "legacy_pc a pc" "tunnels (ob_pool s) a = []" "n = count_tasks connected (ob_tasks s)"
    using move(2,6) by (simp_all add: legacy_inv_def)
  note moved = legacy_step [OF move(5) old(1) move(4) tls old(2)]
  have "\<not> (connected pc \<and> dials pc)" by (cases pc) simp_all
  with count_tasks_move [OF fin move(2), of connected pc'] moved old(3)
  have "n + of_bool (dials pc) = count_tasks connected ((ob_tasks s)(t \<mapsto> pc'))"
    by (cases "dials pc"; cases "connected pc") (simp_all del: fun_upd_apply)
  moreover have "legacy_pc a pd" if "((ob_tasks s)(t \<mapsto> pc')) u = Some pd" for u pd
    using that moved move(6) by (auto simp: legacy_inv_def split: if_splits)
  ultimately show ?case using moved by (simp add: legacy_inv_def del: fun_upd_apply)
qed

subsection \<open>Runs of one handler\<close>

lemma peer_run_route:
  assumes "peer_run p self a mux limit g0 n s" and "ob_tasks s t = Some pc" and "client_input p inp" and "peer_up p self a mux inp"
    and "route_run self inp k (ob_pool s, ob_globals s, pc) = (pool, g, pc')"
  shows "\<exists>m. peer_run p self a mux limit g0 m \<lparr>ob_pool = pool, ob_globals = g, ob_tasks = (ob_tasks s)(t \<mapsto> pc')\<rparr>"
  using assms
proof (induction k arbitrary: n s pc)
  case 0
  then show ?case by (cases s) (auto simp: fun_upd_idem)
next
  case (Suc k)
  show ?case
  proof (cases "route_step self inp (ob_pool s) (ob_globals s) pc")
    case None
    with Suc.prems show ?thesis by (cases s) (auto simp: fun_upd_idem)
  next
    case (Some c)
    obtain pool1 g1 pc1 where c: "c = (pool1, g1, pc1)" by (cases c)
    note moved = peer_run.move [OF Suc.prems(1-4) Some [unfolded c]]
    from Suc.IH [OF moved _ Suc.prems(3,4), of pc1] Suc.prems(5) Some c show ?thesis
      by (simp add: fun_upd_same del: fun_upd_apply)
  qed
qed

lemma peer_run_new_task:
  assumes "peer_run p self a mux limit g0 n s" and "ob_tasks s t = None" and "count_tasks unfinished (ob_tasks s) < limit"
    and "client_input p inp" and "peer_up p self a mux inp"
    and "route_run self inp k (ob_pool s, ob_globals s, Begin (Socket a)) = (pool, g, pc')"
  shows "\<exists>m. peer_run p self a mux limit g0 m \<lparr>ob_pool = pool, ob_globals = g, ob_tasks = (ob_tasks s)(t \<mapsto> pc')\<rparr>"
  using peer_run_route [OF peer_run.arrive [OF assms(1-3)], of t "Begin (Socket a)" inp k] assms(4-6) by simp

subsection \<open>Properties\<close>

text \<open>
  C12. Handshake avoidance: with multiplexing on, and as long as a peer that multiplexes is up and
  opens every stream it is asked for, the handlers that connect to it cost few TLS handshakes, however they interleave: never more than 16, and with at most
  \<open>limit\<close> of them unfinished at a time no more than \<open>limit\<close> / 200, rounded up; so any number of
  connections, up to 200 of them at a time, share a single handshake. Each of them gets a
  stream. A peer that does not multiplex costs exactly one handshake for each handler that got its
  connection. No handler fails, is denied or panics.
\<close>

theorem handshakes_shared:
  assumes "peer_run p self a mux limit g n s" and "sound_proxy self" and "tls_ok p g" and "out_mux_enabled self"
  shows "(mux \<longrightarrow> n \<le> 16 \<and> (0 < n \<longrightarrow> 200 * (n - 1) < limit)
        \<and> (ob_tasks s t = Some (Routed r) \<longrightarrow> 0 < n \<and> (\<exists>u. r = MuxStream u)))
    \<and> (\<not> mux \<longrightarrow> n = count_tasks connected (ob_tasks s) \<and> (ob_tasks s t = Some (Routed r) \<longrightarrow> (\<exists>ts. r = Legacy ts)))
    \<and> ob_tasks s t \<noteq> Some Panicked"
proof (cases mux)
  case True
  with assms(1) have run: "peer_run p self a True limit g n s" by simp
  note mi = mux_inv_run [OF run assms(2-4)]
  have "n \<le> 16"
    using outbound_reachable_bounded [OF peer_run_reachable [OF run] assms(2-4)] mux_invD(1) [OF mi]
    by (auto simp: bounded_inv_def MAX_TUNNELS_PER_PEER_def)
  moreover have "0 < n \<and> (\<exists>u. r = MuxStream u)" if "ob_tasks s t = Some (Routed r)"
    using mux_invD(5,6) [OF mi that] by simp
  moreover have "ob_tasks s t \<noteq> Some Panicked" using mux_invD(5) [OF mi, of t Panicked] by auto
  ultimately show ?thesis using True mux_invD(2) [OF mi] by (simp add: STREAMS_PER_TUNNEL_def)
next
  case False
  with assms(1) have run: "peer_run p self a False limit g n s" by simp
  note li = legacy_inv_run [OF run assms(2,3)]
  have "legacy_pc a pc" if "ob_tasks s t = Some pc" for pc using li that by (simp add: legacy_inv_def)
  from this [of "Routed r"] this [of Panicked] li False show ?thesis by (auto simp: legacy_inv_def)
qed

lemma sample_peer_up: "peer_up sample_pki sample_out a True sample_input"
proof -
  have "\<exists>ts h. oi_connect sample_input a g = Some (Inr ts, h) \<and> allows sample_out (ts_peer_identity ts)
      \<and> negotiated_alpn (ts_inner ts) = Some ALPN_MUX" if "tls_ok sample_pki g" for g
  proof -
    let ?g = "on_metrics (record_handshake_kind (handshake_resumed sample_mux_session)) g"
    have "session_identity sample_pki sample_mux_session = Some (Inr sample_id)"
      by (simp add: session_identity_def sample_mux_session_def sample_session_def sample_cert)
    moreover have "tls_ok sample_pki ?g" using that by simp
    ultimately obtain h where "extract_identity_from_tls_stream sample_pki UNIV sample_mux_session ?g = Some (Inr sample_id, h)"
      using extract_identity_uncached [of sample_pki ?g UNIV sample_mux_session] by auto
    then have "oi_connect sample_input a g = Some (Inr \<lparr>ts_inner = sample_mux_session, ts_peer_identity = sample_id\<rparr>, h)"
      by (simp add: sample_input_def TlsClient_connect_def finish_handshake_def)
    then show ?thesis
      by (simp add: allows_def sample_out_def sample_allowed negotiated_alpn_def sample_mux_session_def)
  qed
  then show ?thesis by (simp add: peer_up_def sample_input_def)
qed

text \<open>Two connections on one tunnel: the second takes six steps and no handshake.\<close>

lemma sample_two:
  "\<exists>pool g pool' g'. route_run sample_out sample_input 10 (MuxPool_new, sample_globals, Begin (Socket sample_peer)) =
      (pool, g, Routed (MuxStream sample_tunnel))
    \<and> route_run sample_out sample_input 6 (pool, g, Begin (Socket sample_peer)) = (pool', g', Routed (MuxStream sample_tunnel))"
  by (simp add: eval_nat_numeral sample_out_def sample_input_def sample_mux_session_def outbound_resolve_upstream_def
      pick_under_cap_def creation_lock_def lock_def can_grow_def MuxPool_new_def MAX_TUNNELS_PER_PEER_def STREAMS_PER_TUNNEL_def
      establish_def TlsClient_connect_def finish_handshake_def extract_identity_from_tls_stream_def sample_tunnel_def
      sample_session_def sample_globals_def sample_cert sample_allowed negotiated_alpn_def register_def reserve_def
      unlock_def tunnels_def tunnel_load_def try_tunnel_stream_def Let_def metrics_simps InterlinkMetrics_new_def)

theorem handshakes_shared_witness:
  "\<exists>s. peer_run sample_pki sample_out sample_peer True 2 sample_globals 1 s
     \<and> ob_tasks s 7 = Some (Routed (MuxStream sample_tunnel)) \<and> ob_tasks s 8 = Some (Routed (MuxStream sample_tunnel))"
proof -
  obtain pool g pool' g' where
    one: "route_run sample_out sample_input 10 (MuxPool_new, sample_globals, Begin (Socket sample_peer)) =
      (pool, g, Routed (MuxStream sample_tunnel))" and
    two: "route_run sample_out sample_input 6 (pool, g, Begin (Socket sample_peer)) = (pool', g', Routed (MuxStream sample_tunnel))"
    using sample_two by blast
  let ?r = "Routed (MuxStream sample_tunnel)"
  have mux: "out_mux_enabled sample_out" by (simp add: sample_out_def)
  have "\<exists>m. peer_run sample_pki sample_out sample_peer True 2 sample_globals m
      \<lparr>ob_pool = pool, ob_globals = g, ob_tasks = (ob_tasks (outbound_init sample_globals))(7 \<mapsto> ?r)\<rparr>"
    by (rule peer_run_new_task [OF peer_run.start _ _ sample_input_client sample_peer_up])
       (use one in \<open>simp_all add: outbound_init_def\<close>)
  then obtain m where "peer_run sample_pki sample_out sample_peer True 2 sample_globals m
      \<lparr>ob_pool = pool, ob_globals = g, ob_tasks = [7 \<mapsto> ?r]\<rparr>" by (auto simp: outbound_init_def)
  moreover have "count_tasks unfinished [7 \<mapsto> ?r] < 2"
    using count_tasks_new [of Map.empty 7 unfinished ?r] by (simp split: if_splits)
  ultimately obtain n where run: "peer_run sample_pki sample_out sample_peer True 2 sample_globals n
      \<lparr>ob_pool = pool', ob_globals = g', ob_tasks = [7 \<mapsto> ?r, 8 \<mapsto> ?r]\<rparr>"
    using peer_run_new_task [OF _ _ _ sample_input_client sample_peer_up, of sample_peer 2 sample_globals m
      "\<lparr>ob_pool = pool, ob_globals = g, ob_tasks = [7 \<mapsto> ?r]\<rparr>" 8 6] two by auto
  from handshakes_shared [OF run sample_out_sound sample_coherent(2) mux, of 7 "MuxStream sample_tunnel"]
  have "n = 1" by auto
  with run show ?thesis by (intro exI [of _ "\<lparr>ob_pool = pool', ob_globals = g', ob_tasks = [7 \<mapsto> ?r, 8 \<mapsto> ?r]\<rparr>"]) simp
qed

end
