(* ===== verification/Reload_Steps.thy ===== *)
theory Reload_Steps
  imports Reload
begin

text \<open>
  Concurrent reloads (\<open>TlsCredentialReloader::reload\<close> in \<open>src/proxy/reload.rs\<close>). The admin server
  spawns a task per request, so several reloads may run at once while somebody rewrites the
  credential files. Here the mutex \<open>reload_lock\<close>, each of the three file reads, the swap of the
  generation and the release of the mutex are steps of their own; \<open>Aborted\<close> is a panic, which is
  shown not to happen. The reloads turn out to be the
  atomic ones of \<open>Reload\<close>, one after the other.
\<close>

type_synonym disk = "string \<Rightarrow> (IoError, bytes) result"

datatype reload_pc =
    AwaitReloadLock
  | Reading "disk list"
  | Built "(InterlinkError, TlsGeneration) result"
  | Swapped "(InterlinkError, unit) result"
  | Returned "(InterlinkError, unit) result"
  | Aborted

record reload_state =
  rs_reloader :: TlsCredentialReloader
  rs_disk :: disk
  rs_locked :: bool
  rs_tasks :: "nat \<rightharpoonup> reload_pc"

text \<open>
  The world one reload sees: its \<open>n\<close>-th read finds the files as they were at that read. The PEM
  reader is that of \<open>w\<close>; the time and the fate of the blocking task are its own.
\<close>

definition sampled :: "cred_world \<Rightarrow> nat \<Rightarrow> string option \<Rightarrow> disk list \<Rightarrow> cred_world" where
  "sampled w now join_error ds = w\<lparr>cw_read := (\<lambda>n. ds ! n), cw_now := now, cw_join_error := join_error\<rparr>"

text \<open>What happens next: a request comes in, a file is written, or a task takes its next step.\<close>

datatype reload_event = Request nat | WriteFile string "(IoError, bytes) result" | ReloadTurn nat nat "string option"

definition reload_turn ::
  "pki \<Rightarrow> cred_world \<Rightarrow> nat \<Rightarrow> string option \<Rightarrow> nat \<Rightarrow> reload_pc \<Rightarrow> reload_state \<Rightarrow> reload_state option" where
  "reload_turn p w now join_error t pc s =
     (case pc of
        AwaitReloadLock \<Rightarrow>
          if rs_locked s then None
          else Some (s\<lparr>rs_locked := True, rs_tasks := (rs_tasks s)(t \<mapsto> Reading [])\<rparr>)
      | Reading ds \<Rightarrow>
          if length ds < 3 then Some (s\<lparr>rs_tasks := (rs_tasks s)(t \<mapsto> Reading (ds @ [rs_disk s]))\<rparr>)
          else (let self = rs_reloader s in
            case load_generation p (sampled w now join_error ds) (rl_paths self) (rl_expected_identity self) (rl_mux_enabled self) of
              None \<Rightarrow> Some (s\<lparr>rs_tasks := (rs_tasks s)(t \<mapsto> Aborted)\<rparr>)
            | Some r \<Rightarrow> Some (s\<lparr>rs_tasks := (rs_tasks s)(t \<mapsto> Built r)\<rparr>))
      | Built (Inl e) \<Rightarrow> Some (s\<lparr>rs_tasks := (rs_tasks s)(t \<mapsto> Swapped (Inl e))\<rparr>)
      | Built (Inr generation) \<Rightarrow>
          Some (s\<lparr>rs_reloader := (rs_reloader s)\<lparr>rl_generation := generation\<rparr>,
                 rs_tasks := (rs_tasks s)(t \<mapsto> Swapped (Inr ()))\<rparr>)
      | Swapped r \<Rightarrow> Some (s\<lparr>rs_locked := False, rs_tasks := (rs_tasks s)(t \<mapsto> Returned r)\<rparr>)
      | Returned r \<Rightarrow> None
      | Aborted \<Rightarrow> None)"

fun reload_event_step :: "pki \<Rightarrow> cred_world \<Rightarrow> reload_event \<Rightarrow> reload_state \<Rightarrow> reload_state option" where
  "reload_event_step p w (Request t) s =
     (case rs_tasks s t of None \<Rightarrow> Some (s\<lparr>rs_tasks := (rs_tasks s)(t \<mapsto> AwaitReloadLock)\<rparr>) | Some _ \<Rightarrow> None)"
| "reload_event_step p w (WriteFile path content) s = Some (s\<lparr>rs_disk := (rs_disk s)(path := content)\<rparr>)"
| "reload_event_step p w (ReloadTurn t now join_error) s =
     (case rs_tasks s t of None \<Rightarrow> None | Some pc \<Rightarrow> reload_turn p w now join_error t pc s)"

fun reload_exec :: "pki \<Rightarrow> cred_world \<Rightarrow> reload_event list \<Rightarrow> reload_state \<Rightarrow> reload_state option" where
  "reload_exec p w [] s = Some s"
| "reload_exec p w (e # es) s = do { s' \<leftarrow> reload_event_step p w e s; reload_exec p w es s' }"

definition reload_start :: "TlsCredentialReloader \<Rightarrow> disk \<Rightarrow> reload_state" where
  "reload_start self disk = \<lparr>rs_reloader = self, rs_disk = disk, rs_locked = False, rs_tasks = Map.empty\<rparr>"

text \<open>Atomic reloads in a row.\<close>

fun reload_all :: "pki \<Rightarrow> cred_world list \<Rightarrow> TlsCredentialReloader \<Rightarrow> TlsCredentialReloader option" where
  "reload_all p [] self = Some self"
| "reload_all p (w # ws) self = do { (r, self') \<leftarrow> reload p w self; reload_all p ws self' }"

subsection \<open>Mutual exclusion\<close>

fun reloading :: "reload_pc \<Rightarrow> bool" where
  "reloading (Reading _) = True"
| "reloading (Built _) = True"
| "reloading (Swapped _) = True"
| "reloading Aborted = True"
| "reloading _ = False"

definition lock_ok :: "reload_state \<Rightarrow> bool" where
  "lock_ok s \<longleftrightarrow> (\<forall>t pc. rs_tasks s t = Some pc \<longrightarrow> reloading pc \<longrightarrow> rs_locked s)
     \<and> (\<forall>t u pc pd. rs_tasks s t = Some pc \<longrightarrow> rs_tasks s u = Some pd \<longrightarrow> reloading pc \<longrightarrow> reloading pd \<longrightarrow> t = u)"

lemma reload_turn_cases:
  assumes "reload_turn p w now je t pc s = Some s'"
  obtains (lock) "pc = AwaitReloadLock" "\<not> rs_locked s" "s' = s\<lparr>rs_locked := True, rs_tasks := (rs_tasks s)(t \<mapsto> Reading [])\<rparr>"
  | (read) ds where "pc = Reading ds" "length ds < 3" "s' = s\<lparr>rs_tasks := (rs_tasks s)(t \<mapsto> Reading (ds @ [rs_disk s]))\<rparr>"
  | (abort) ds where "pc = Reading ds" "s' = s\<lparr>rs_tasks := (rs_tasks s)(t \<mapsto> Aborted)\<rparr>"
      "load_generation p (sampled w now je ds) (rl_paths (rs_reloader s)) (rl_expected_identity (rs_reloader s))
         (rl_mux_enabled (rs_reloader s)) = None"
  | (build) ds r where "pc = Reading ds" "3 \<le> length ds" "s' = s\<lparr>rs_tasks := (rs_tasks s)(t \<mapsto> Built r)\<rparr>"
      "load_generation p (sampled w now je ds) (rl_paths (rs_reloader s)) (rl_expected_identity (rs_reloader s))
         (rl_mux_enabled (rs_reloader s)) = Some r"
  | (fail) e where "pc = Built (Inl e)" "s' = s\<lparr>rs_tasks := (rs_tasks s)(t \<mapsto> Swapped (Inl e))\<rparr>"
  | (swap) generation where "pc = Built (Inr generation)"
      "s' = s\<lparr>rs_reloader := (rs_reloader s)\<lparr>rl_generation := generation\<rparr>, rs_tasks := (rs_tasks s)(t \<mapsto> Swapped (Inr ()))\<rparr>"
  | (unlock) r where "pc = Swapped r" "s' = s\<lparr>rs_locked := False, rs_tasks := (rs_tasks s)(t \<mapsto> Returned r)\<rparr>"
  using assms unfolding reload_turn_def
  by (cases pc) (auto simp: Let_def not_less split: if_splits option.splits sum.splits)

lemma lock_ok_keep:
  assumes "lock_ok s" and "rs_tasks s t = Some pc" and "reloading pc"
    and "rs_tasks s' = (rs_tasks s)(t \<mapsto> pc')" and "rs_locked s' = rs_locked s"
  shows "lock_ok s'"
proof -
  have "rs_locked s" using assms(1-3) unfolding lock_ok_def by blast
  moreover have "\<not> reloading pd" if "rs_tasks s u = Some pd" "u \<noteq> t" for u pd
    using assms(1-3) that unfolding lock_ok_def by blast
  ultimately show ?thesis using assms(4,5) by (auto simp: lock_ok_def split: if_splits)
qed

lemma lock_ok_turn:
  assumes "reload_turn p w now je t pc s = Some s'" and t: "rs_tasks s t = Some pc" and ok: "lock_ok s"
  shows "lock_ok s'"
  using assms(1)
proof (cases rule: reload_turn_cases)
  case lock
  then show ?thesis using t ok by (auto simp: lock_ok_def split: if_splits)
next
  case (unlock r)
  have "\<not> reloading pd" if "rs_tasks s u = Some pd" "u \<noteq> t" for u pd
    using t ok that unlock(1) unfolding lock_ok_def by (metis reloading.simps(3))
  then show ?thesis using unlock by (auto simp: lock_ok_def split: if_splits)
qed (auto intro!: lock_ok_keep [OF ok t])

lemma lock_ok_event:
  assumes "reload_event_step p w e s = Some s'" and "lock_ok s"
  shows "lock_ok s'"
proof (cases e)
  case (ReloadTurn t now je)
  with assms show ?thesis using lock_ok_turn by (auto split: option.splits)
qed (use assms in \<open>auto simp: lock_ok_def split: option.splits if_splits\<close>)

lemma lock_ok_start: "lock_ok (reload_start self disk)"
  by (simp add: lock_ok_def reload_start_def)

text \<open>An invariant of the events is one of their sequences.\<close>

lemma reload_exec_inv:
  assumes "reload_exec p w es s = Some s'" and "Q s"
    and "\<And>e s s'. e \<in> set es \<Longrightarrow> reload_event_step p w e s = Some s' \<Longrightarrow> Q s \<Longrightarrow> Q s'"
  shows "Q s'"
  using assms by (induction p w es s rule: reload_exec.induct) (auto simp: bind_eq_Some_conv)

subsection \<open>Serialization\<close>

lemma reload_all_append: "reload_all p (vs @ ws) self = Option.bind (reload_all p vs self) (reload_all p ws)"
  by (induction p vs self rule: reload_all.induct) (auto split: bind_splits)

definition same_service :: "TlsCredentialReloader \<Rightarrow> TlsCredentialReloader \<Rightarrow> bool" where
  "same_service a b \<longleftrightarrow> rl_paths a = rl_paths b \<and> rl_expected_identity a = rl_expected_identity b \<and> rl_mux_enabled a = rl_mux_enabled b"

definition load_for :: "pki \<Rightarrow> TlsCredentialReloader \<Rightarrow> cred_world \<Rightarrow> (InterlinkError, TlsGeneration) result panicky" where
  "load_for p self v = load_generation p v (rl_paths self) (rl_expected_identity self) (rl_mux_enabled self)"

lemma load_for_cong: "same_service a b \<Longrightarrow> load_for p a v = load_for p b v"
  by (simp add: load_for_def same_service_def)

lemma reload_load_for:
  "load_for p self v = Some (Inr generation) \<Longrightarrow> reload p v self = Some (Inr (), self\<lparr>rl_generation := generation\<rparr>)"
  by (simp add: load_for_def reload_def)

text \<open>The reloader after atomic reloads one after the other, each with three samples of the disk.\<close>

definition serialized :: "pki \<Rightarrow> cred_world \<Rightarrow> TlsCredentialReloader \<Rightarrow> TlsCredentialReloader \<Rightarrow> bool" where
  "serialized p w self0 self \<longleftrightarrow> (\<exists>vs. reload_all p vs self0 = Some self
     \<and> (\<forall>v \<in> set vs. \<exists>now je ds. v = sampled w now je ds \<and> 3 \<le> length ds))"

definition serial :: "pki \<Rightarrow> cred_world \<Rightarrow> TlsCredentialReloader \<Rightarrow> reload_state \<Rightarrow> bool" where
  "serial p w self0 s \<longleftrightarrow> same_service (rs_reloader s) self0
     \<and> serialized p w self0 (rs_reloader s) \<and> (\<forall>t. rs_tasks s t \<noteq> Some Aborted)
     \<and> (\<forall>t generation. rs_tasks s t = Some (Built (Inr generation)) \<longrightarrow>
          (\<exists>now je ds. 3 \<le> length ds \<and> load_for p self0 (sampled w now je ds) = Some (Inr generation)))"

lemma load_for_returns: "pki_utf8 p \<Longrightarrow> load_for p self v \<noteq> None"
  using build_generation_returns [of p v "rl_paths self" "rl_expected_identity self" "rl_mux_enabled self"]
  by (cases "cw_join_error v") (auto simp: load_for_def load_generation_def)

lemma serial_swap:
  assumes "serial p w self0 s" and "rs_tasks s t = Some (Built (Inr generation))"
  shows "serial p w self0 (s\<lparr>rs_reloader := (rs_reloader s)\<lparr>rl_generation := generation\<rparr>,
     rs_tasks := (rs_tasks s)(t \<mapsto> Swapped (Inr ()))\<rparr>)"
proof -
  obtain vs where vs: "reload_all p vs self0 = Some (rs_reloader s)"
    "\<forall>v \<in> set vs. \<exists>now je ds. v = sampled w now je ds \<and> 3 \<le> length ds"
    using assms(1) unfolding serial_def serialized_def by blast
  obtain now je ds where load: "3 \<le> length ds" "load_for p self0 (sampled w now je ds) = Some (Inr generation)"
    using assms unfolding serial_def by blast
  have "same_service (rs_reloader s) self0" using assms(1) by (simp add: serial_def)
  from reload_load_for [of p "rs_reloader s"] load(2) load_for_cong [OF this]
  have "reload p (sampled w now je ds) (rs_reloader s) = Some (Inr (), (rs_reloader s)\<lparr>rl_generation := generation\<rparr>)" by simp
  then have "reload_all p (vs @ [sampled w now je ds]) self0 = Some ((rs_reloader s)\<lparr>rl_generation := generation\<rparr>)"
    using vs(1) by (simp add: reload_all_append)
  moreover have "\<forall>v \<in> set (vs @ [sampled w now je ds]). \<exists>now je ds. v = sampled w now je ds \<and> 3 \<le> length ds"
    using vs(2) load(1) by auto
  ultimately have "serialized p w self0 ((rs_reloader s)\<lparr>rl_generation := generation\<rparr>)"
    unfolding serialized_def by blast
  then show ?thesis using assms(1) by (auto simp: serial_def same_service_def split: if_splits)
qed

lemma serial_turn:
  assumes "reload_turn p w now je t pc s = Some s'" and t: "rs_tasks s t = Some pc" and ser: "serial p w self0 s" and "pki_utf8 p"
  shows "serial p w self0 s'"
  using assms(1)
proof (cases rule: reload_turn_cases)
  case (abort ds)
  then show ?thesis using load_for_returns [OF assms(4), of "rs_reloader s" "sampled w now je ds"] by (simp add: load_for_def)
next
  case (build ds r)
  have "same_service (rs_reloader s) self0" using ser by (simp add: serial_def)
  with build(4) have "load_for p self0 (sampled w now je ds) = Some r"
    using load_for_cong by (metis load_for_def)
  with build(2,3) ser show ?thesis by (auto simp: serial_def split: if_splits)
next
  case (swap generation)
  with serial_swap [OF ser] t show ?thesis by simp
qed (use ser in \<open>auto simp: serial_def split: if_splits\<close>)

lemma serial_event:
  assumes "reload_event_step p w e s = Some s'" and "serial p w self0 s" and "pki_utf8 p"
  shows "serial p w self0 s'"
proof (cases e)
  case (ReloadTurn t now je)
  with assms show ?thesis using serial_turn by (auto split: option.splits)
qed (use assms in \<open>auto simp: serial_def split: option.splits if_splits\<close>)

lemma serial_start: "serial p w self (reload_start self disk)"
proof -
  have "serialized p w self self" unfolding serialized_def by (intro exI [of _ "[]"]) simp
  then show ?thesis by (simp add: serial_def reload_start_def same_service_def)
qed

lemma reload_all_reachable:
  assumes "reload_all p vs self0 = Some self" and "reloader_reachable p paths expected mux self0"
  shows "reloader_reachable p paths expected mux self"
  using assms
proof (induction vs arbitrary: self0)
  case (Cons w ws)
  then obtain r self' where "reload p w self0 = Some (r, self')" "reload_all p ws self' = Some self"
    by (auto simp: bind_eq_Some_conv)
  with Cons reloader_reachable.reloaded [OF Cons.prems(2)] show ?case by blast
qed simp

subsection \<open>Settling\<close>

definition writes :: "reload_event \<Rightarrow> bool" where
  "writes e = (case e of WriteFile path content \<Rightarrow> True | _ \<Rightarrow> False)"

text \<open>The reloads that had not taken the mutex in a state.\<close>

definition waiting :: "reload_state \<Rightarrow> nat \<Rightarrow> bool" where
  "waiting s t \<longleftrightarrow> rs_tasks s t = None \<or> rs_tasks s t = Some AwaitReloadLock"

definition from_disk :: "pki \<Rightarrow> cred_world \<Rightarrow> reload_state \<Rightarrow> TlsGeneration \<Rightarrow> bool" where
  "from_disk p w s0 generation \<longleftrightarrow> (\<exists>now je. load_for p (rs_reloader s0) (sampled w now je (replicate 3 (rs_disk s0))) = Some (Inr generation))"

fun fresh_pc :: "pki \<Rightarrow> cred_world \<Rightarrow> reload_state \<Rightarrow> reload_pc \<Rightarrow> bool" where
  "fresh_pc p w s0 (Reading ds) = (length ds \<le> 3 \<and> ds = replicate (length ds) (rs_disk s0))"
| "fresh_pc p w s0 (Built (Inr generation)) = from_disk p w s0 generation"
| "fresh_pc p w s0 _ = True"

fun succeeded :: "reload_pc \<Rightarrow> bool" where
  "succeeded (Swapped (Inr _)) = True"
| "succeeded (Returned (Inr _)) = True"
| "succeeded _ = False"

definition settling :: "pki \<Rightarrow> cred_world \<Rightarrow> reload_state \<Rightarrow> reload_state \<Rightarrow> bool" where
  "settling p w s0 s \<longleftrightarrow> rs_disk s = rs_disk s0 \<and> same_service (rs_reloader s) (rs_reloader s0) \<and> lock_ok s
     \<and> (\<forall>t pc. rs_tasks s t = Some pc \<longrightarrow>
          (if waiting s0 t then fresh_pc p w s0 pc \<and> (succeeded pc \<longrightarrow> from_disk p w s0 (rl_generation (rs_reloader s)))
           else pc \<noteq> AwaitReloadLock))
     \<and> (\<forall>t u pc pd. waiting s0 t \<longrightarrow> \<not> waiting s0 u \<longrightarrow> rs_tasks s t = Some pc \<longrightarrow> rs_tasks s u = Some pd \<longrightarrow>
          reloading pd \<longrightarrow> pc = AwaitReloadLock)
     \<and> (\<forall>u. \<not> waiting s0 u \<longrightarrow> rs_tasks s u \<noteq> None)"

lemma settlingD:
  assumes "settling p w s0 s"
  shows "rs_disk s = rs_disk s0" and "same_service (rs_reloader s) (rs_reloader s0)" and "lock_ok s"
    and "rs_tasks s t = Some pc \<Longrightarrow> waiting s0 t \<Longrightarrow> fresh_pc p w s0 pc"
    and "rs_tasks s t = Some pc \<Longrightarrow> waiting s0 t \<Longrightarrow> succeeded pc \<Longrightarrow> from_disk p w s0 (rl_generation (rs_reloader s))"
    and "rs_tasks s t = Some pc \<Longrightarrow> \<not> waiting s0 t \<Longrightarrow> pc \<noteq> AwaitReloadLock"
    and "waiting s0 t \<Longrightarrow> \<not> waiting s0 u \<Longrightarrow> rs_tasks s t = Some pc \<Longrightarrow> rs_tasks s u = Some pd \<Longrightarrow> reloading pd \<Longrightarrow> pc = AwaitReloadLock"
    and "\<not> waiting s0 u \<Longrightarrow> rs_tasks s u \<noteq> None"
proof -
  note tasks = assms [unfolded settling_def]
  show "rs_disk s = rs_disk s0" "same_service (rs_reloader s) (rs_reloader s0)" "lock_ok s"
    "\<not> waiting s0 u \<Longrightarrow> rs_tasks s u \<noteq> None" using tasks by blast+
  show "rs_tasks s t = Some pc \<Longrightarrow> waiting s0 t \<Longrightarrow> fresh_pc p w s0 pc"
    "rs_tasks s t = Some pc \<Longrightarrow> waiting s0 t \<Longrightarrow> succeeded pc \<Longrightarrow> from_disk p w s0 (rl_generation (rs_reloader s))"
    "rs_tasks s t = Some pc \<Longrightarrow> \<not> waiting s0 t \<Longrightarrow> pc \<noteq> AwaitReloadLock" using tasks by (auto split: if_splits)
  show "waiting s0 t \<Longrightarrow> \<not> waiting s0 u \<Longrightarrow> rs_tasks s t = Some pc \<Longrightarrow> rs_tasks s u = Some pd \<Longrightarrow> reloading pd \<Longrightarrow> pc = AwaitReloadLock"
    using tasks by blast
qed

text \<open>
  One task moves. The generation changes only at the hand of a task that reloads: a fresh one
  brings what is on disk, and an old one still has the mutex, so no fresh one has succeeded.
\<close>

lemma settling_move:
  assumes st: "settling p w s0 s" and t: "rs_tasks s t = Some pc" and ok: "lock_ok s'"
    and s': "rs_tasks s' = (rs_tasks s)(t \<mapsto> pc')" "rs_disk s' = rs_disk s" "same_service (rs_reloader s') (rs_reloader s)"
    and pc': "pc' \<noteq> AwaitReloadLock" "waiting s0 t \<Longrightarrow> fresh_pc p w s0 pc'"
      "waiting s0 t \<Longrightarrow> succeeded pc' \<Longrightarrow> from_disk p w s0 (rl_generation (rs_reloader s'))"
    and enter: "reloading pc \<or> (\<forall>u pd. rs_tasks s u = Some pd \<longrightarrow> \<not> reloading pd) \<and> pc = AwaitReloadLock"
    and gen: "rs_reloader s' = rs_reloader s \<or> reloading pc \<and> (waiting s0 t \<longrightarrow> from_disk p w s0 (rl_generation (rs_reloader s')))"
  shows "settling p w s0 s'"
proof -
  note D = settlingD [OF st]
  have task: "if waiting s0 u then fresh_pc p w s0 pd \<and> (succeeded pd \<longrightarrow> from_disk p w s0 (rl_generation (rs_reloader s')))
      else pd \<noteq> AwaitReloadLock" if u: "rs_tasks s' u = Some pd" for u pd
  proof (cases "u = t")
    case True
    with u s'(1) pc' show ?thesis by simp
  next
    case False
    with u s'(1) have old: "rs_tasks s u = Some pd" by simp
    have "from_disk p w s0 (rl_generation (rs_reloader s'))" if "waiting s0 u" "succeeded pd"
    proof (cases "rs_reloader s' = rs_reloader s \<or> waiting s0 t")
      case True
      then show ?thesis using gen D(5) [OF old that] by auto
    next
      case False
      with gen have "reloading pc" by blast
      with D(7) [OF that(1) _ old t] False that(2) show ?thesis by auto
    qed
    with D(4,6) [OF old] show ?thesis by simp
  qed
  have cross: "pd = AwaitReloadLock" if "waiting s0 u" "\<not> waiting s0 v" "rs_tasks s' u = Some pd" "rs_tasks s' v = Some pe" "reloading pe"
    for u v pd pe
  proof (cases "v = t")
    case True
    with that(1,2) have "u \<noteq> t" by blast
    then have "rs_tasks s u = Some pd" using that(3) s'(1) by simp
    moreover have "reloading pc" using enter D(6) [OF t] True that(2) by auto
    ultimately show ?thesis using D(7) [OF that(1,2), of pd pc] t True by simp
  next
    case False
    then have v: "rs_tasks s v = Some pe" using that s'(1) by auto
    have no: "rs_tasks s u = Some pf \<Longrightarrow> pf = AwaitReloadLock" for pf using D(7) [OF that(1,2) _ v that(5)] by blast
    show ?thesis
    proof (cases "u = t")
      case True
      with no t have "pc = AwaitReloadLock" by simp
      with enter v that(5) show ?thesis by auto
    next
      case False
      with that(3) s'(1) no show ?thesis by simp
    qed
  qed
  have "same_service (rs_reloader s') (rs_reloader s0)" using s'(3) D(2) by (simp add: same_service_def)
  moreover have "rs_tasks s' u \<noteq> None" if "\<not> waiting s0 u" for u using D(8) [OF that] s'(1) by simp
  moreover have "rs_disk s' = rs_disk s0" using s'(2) D(1) by simp
  ultimately show ?thesis unfolding settling_def using ok task cross by blast
qed

lemma settling_turn:
  assumes turn: "reload_turn p w now je t pc s = Some s'" and t: "rs_tasks s t = Some pc" and st: "settling p w s0 s"
  shows "settling p w s0 s'"
proof -
  note D = settlingD [OF st]
  note move = settling_move [OF st t lock_ok_turn [OF turn t D(3)]]
  show ?thesis
    using turn
  proof (cases rule: reload_turn_cases)
    case lock
    have "\<forall>u pd. rs_tasks s u = Some pd \<longrightarrow> \<not> reloading pd" using D(3) lock(2) unfolding lock_ok_def by blast
    with lock show ?thesis by (intro move [of "Reading []"]) (simp_all add: same_service_def)
  next
    case (read ds)
    have "waiting s0 t \<Longrightarrow> ds = replicate (length ds) (rs_disk s0)" using D(4) [OF t] read(1) by simp
    then have "waiting s0 t \<Longrightarrow> ds @ [rs_disk s] = replicate (Suc (length ds)) (rs_disk s0)"
      using D(1) by (metis replicate_append_same replicate_Suc)
    with read show ?thesis by (intro move [of "Reading (ds @ [rs_disk s])"]) (simp_all add: same_service_def)
  next
    case (abort ds)
    then show ?thesis by (intro move [of Aborted]) (simp_all add: same_service_def)
  next
    case (build ds r)
    have "from_disk p w s0 generation" if "waiting s0 t" "r = Inr generation" for generation
    proof -
      have "length ds \<le> 3" "ds = replicate (length ds) (rs_disk s0)" using D(4) [OF t that(1)] build(1) by simp_all
      then have "ds = replicate 3 (rs_disk s0)" using build(2) by (metis le_antisym)
      moreover have "load_for p (rs_reloader s0) (sampled w now je ds) = Some r"
        using build(4) load_for_cong [OF D(2)] by (metis load_for_def)
      ultimately show ?thesis using that(2) unfolding from_disk_def by blast
    qed
    then have "waiting s0 t \<Longrightarrow> fresh_pc p w s0 (Built r)" by (cases r) simp_all
    with build show ?thesis by (intro move [of "Built r"]) (simp_all add: same_service_def)
  next
    case (fail e)
    then show ?thesis by (intro move [of "Swapped (Inl e)"]) (simp_all add: same_service_def)
  next
    case (swap generation)
    have "waiting s0 t \<Longrightarrow> from_disk p w s0 generation" using D(4) [OF t] swap(1) by simp
    with swap show ?thesis by (intro move [of "Swapped (Inr ())"]) (simp_all add: same_service_def)
  next
    case (unlock r)
    have "waiting s0 t \<Longrightarrow> succeeded (Returned r) \<Longrightarrow> from_disk p w s0 (rl_generation (rs_reloader s))"
      using D(5) [OF t] unlock(1) by (cases r) simp_all
    with unlock show ?thesis by (intro move [of "Returned r"]) (simp_all add: same_service_def)
  qed
qed

lemma settling_event:
  assumes "reload_event_step p w e s = Some s'" and "settling p w s0 s" and "\<not> writes e"
  shows "settling p w s0 s'"
proof (cases e)
  case (Request t)
  note D = settlingD [OF assms(2)]
  from Request assms(1) have t: "rs_tasks s t = None" and s': "s' = s\<lparr>rs_tasks := (rs_tasks s)(t \<mapsto> AwaitReloadLock)\<rparr>"
    by (auto split: option.splits)
  have "waiting s0 t" using D(8) t by blast
  moreover have "lock_ok s'" by (rule lock_ok_event [OF assms(1) D(3)])
  ultimately show ?thesis using assms(2) s' unfolding settling_def by auto
next
  case (ReloadTurn t now je)
  with assms show ?thesis using settling_turn by (auto split: option.splits)
next
  case (WriteFile path content)
  with assms(3) show ?thesis by (simp add: writes_def)
qed

lemma settling_start:
  assumes "lock_ok s0"
  shows "settling p w s0 s0"
  using assms by (auto simp: settling_def same_service_def waiting_def)

text \<open>A reload that nobody disturbs takes seven turns: the mutex, three reads, the build, the swap, the release.\<close>

lemma reload_completes:
  assumes "rs_tasks s t = Some AwaitReloadLock" and "\<not> rs_locked s"
    and "load_for p (rs_reloader s) (sampled w now je [rs_disk s, rs_disk s, rs_disk s]) = Some (Inr generation)"
  shows "reload_exec p w (replicate 7 (ReloadTurn t now je)) s =
    Some (s\<lparr>rs_reloader := (rs_reloader s)\<lparr>rl_generation := generation\<rparr>, rs_locked := False,
            rs_tasks := (rs_tasks s)(t \<mapsto> Returned (Inr ()))\<rparr>)"
  using assms by (simp add: eval_nat_numeral reload_turn_def load_for_def Let_def)

subsection \<open>Properties\<close>

text \<open>
  C15. Reloads are serialized: however many run at once and however the credential files change
  between their reads, at most one of them is between taking and releasing the mutex, none panics,
  and the reloader is at any time the outcome of atomic reloads one after the other, each of them
  with three reads of the disk; so whatever holds after every sequence of reloads holds at every
  moment of a concurrent run.
\<close>

theorem reloads_serialize:
  assumes "reload_exec p w es (reload_start self0 disk) = Some s" and "pki_utf8 p"
    and "reloader_reachable p paths expected mux self0"
  shows "(\<exists>vs. reload_all p vs self0 = Some (rs_reloader s) \<and> (\<forall>v \<in> set vs. \<exists>now je ds. v = sampled w now je ds \<and> 3 \<le> length ds))
    \<and> reloader_reachable p paths expected mux (rs_reloader s) \<and> rs_tasks s t \<noteq> Some Aborted
    \<and> (rs_tasks s t = Some pc \<longrightarrow> rs_tasks s u = Some pd \<longrightarrow> reloading pc \<longrightarrow> reloading pd \<longrightarrow> t = u)"
proof -
  have "serial p w self0 s"
    by (rule reload_exec_inv [where Q = "serial p w self0", OF assms(1) serial_start]) (rule serial_event [OF _ _ assms(2)])
  then obtain vs where vs: "reload_all p vs self0 = Some (rs_reloader s)"
      "\<forall>v \<in> set vs. \<exists>now je ds. v = sampled w now je ds \<and> 3 \<le> length ds" and "rs_tasks s t \<noteq> Some Aborted"
    unfolding serial_def serialized_def by blast
  moreover have "lock_ok s"
    by (rule reload_exec_inv [where Q = lock_ok, OF assms(1) lock_ok_start]) (rule lock_ok_event)
  ultimately show ?thesis
    using reload_all_reachable [OF vs(1) assms(3)] unfolding lock_ok_def by blast
qed

text \<open>
  C16. The newest credentials win: once the files are no longer written, every reload that takes the
  mutex from then on and succeeds leaves the reloader serving the generation built from the files
  as they are, and it stays so, whatever other reloads are under way, those that had read older
  files included.
\<close>

theorem reload_settles:
  assumes "reload_exec p w es (reload_start self0 disk) = Some s0" and "reload_exec p w fs s0 = Some s"
    and "\<forall>e \<in> set fs. \<not> writes e" and "waiting s0 t" and "rs_tasks s t = Some (Returned (Inr ()))"
  shows "\<exists>now je. load_generation p (sampled w now je (replicate 3 (rs_disk s))) (rl_paths (rs_reloader s))
    (rl_expected_identity (rs_reloader s)) (rl_mux_enabled (rs_reloader s)) = Some (Inr (rl_generation (rs_reloader s)))"
proof -
  have "lock_ok s0"
    by (rule reload_exec_inv [where Q = lock_ok, OF assms(1) lock_ok_start]) (rule lock_ok_event)
  note start = settling_start [OF this]
  have "settling p w s0 s"
    by (rule reload_exec_inv [where Q = "settling p w s0", OF assms(2) start]) (use assms(3) settling_event in blast)
  note D = settlingD [OF this]
  have "from_disk p w s0 (rl_generation (rs_reloader s))" using D(5) [OF assms(5,4)] by simp
  then show ?thesis
    using load_for_cong [OF D(2)] D(1) unfolding from_disk_def by (auto simp: load_for_def)
qed

abbreviation sample_disk :: disk where
  "sample_disk \<equiv> cw_read sample_creds 0"

lemma sample_sampled:
  "\<exists>self generation. reloader_load sample_pki sample_creds sample_paths sample_id True = Some (Inr self)
     \<and> load_for sample_pki self (sampled sample_creds 0 None [sample_disk, sample_disk, sample_disk]) = Some (Inr generation)"
proof -
  let ?w = "sampled sample_creds 0 None [sample_disk, sample_disk, sample_disk]"
  obtain self where self: "reloader_load sample_pki sample_creds sample_paths sample_id True = Some (Inr self)"
    using sample_load by blast
  then have fields: "rl_paths self = sample_paths" "rl_expected_identity self = sample_id" "rl_mux_enabled self = True"
    by (auto simp: reloader_load_def bind_eq_Some_conv and_then_Inr_iff)
  have read: "read_credentials ?w sample_paths = Inr ([''root''], ''leaf'', [], ''secret'')" by code_simp
  have verify: "verify_server_cert sample_pki (SpiffeServerVerifier_new [''root''] (trust_domain sample_id)) ''leaf'' [] 0 =
      Some (Inr ())" by code_simp
  have lib: "root_add sample_pki ca = Inr ()" "client_auth_cert sample_pki c k = Inr ()"
    "single_cert sample_pki c k = Inr ()" "client_verifier sample_pki cas = Inr ()"
    "cw_server_name ?w n = Inr ()" "cw_now ?w = 0" "cw_join_error ?w = None"
    for ca c k cas n by (simp_all add: sample_pki_def sampled_def sample_creds_def)
  have "\<exists>generation. load_for sample_pki self ?w = Some (Inr generation)"
    by (simp add: load_for_def fields load_generation_def build_generation_def read sample_cert verify lib
        build_endpoints_def TlsServer_new_def TlsServer_new_with_alpn_def with_client_auth_def
        with_client_auth_alpn_def with_ca_bundle_def static_provider_def TrustDomain_new_def)
  with self show ?thesis by blast
qed

lemma sample_reload_run:
  "\<exists>self s0 s. reloader_reachable sample_pki sample_paths sample_id True self
     \<and> reload_exec sample_pki sample_creds [Request 0] (reload_start self sample_disk) = Some s0
     \<and> reload_exec sample_pki sample_creds (replicate 7 (ReloadTurn 0 0 None)) s0 = Some s
     \<and> waiting s0 0 \<and> rs_tasks s 0 = Some (Returned (Inr ()))"
proof -
  obtain self generation where self: "reloader_load sample_pki sample_creds sample_paths sample_id True = Some (Inr self)"
    and load: "load_for sample_pki self (sampled sample_creds 0 None [sample_disk, sample_disk, sample_disk]) = Some (Inr generation)"
    using sample_sampled by blast
  let ?s0 = "(reload_start self sample_disk)\<lparr>rs_tasks := [0 \<mapsto> AwaitReloadLock]\<rparr>"
  have start: "reload_exec sample_pki sample_creds [Request 0] (reload_start self sample_disk) = Some ?s0"
    by (simp add: reload_start_def)
  have "reload_exec sample_pki sample_creds (replicate 7 (ReloadTurn 0 0 None)) ?s0 =
      Some (?s0\<lparr>rs_reloader := (rs_reloader ?s0)\<lparr>rl_generation := generation\<rparr>, rs_locked := False,
            rs_tasks := (rs_tasks ?s0)(0 \<mapsto> Returned (Inr ()))\<rparr>)"
    by (rule reload_completes) (use load in \<open>simp_all add: reload_start_def\<close>)
  moreover have "waiting ?s0 0" by (simp add: waiting_def)
  moreover have "reloader_reachable sample_pki sample_paths sample_id True self"
    by (rule reloader_reachable.loaded [OF self])
  ultimately show ?thesis using start by fastforce
qed

lemma reload_exec_append: "reload_exec p w (es @ fs) s = Option.bind (reload_exec p w es s) (reload_exec p w fs)"
  by (induction p w es s rule: reload_exec.induct) (auto split: bind_splits)

theorem reloads_serialize_witness:
  "\<exists>self s. reload_exec sample_pki sample_creds (Request 0 # replicate 7 (ReloadTurn 0 0 None)) (reload_start self sample_disk) = Some s
     \<and> rs_tasks s 0 = Some (Returned (Inr ())) \<and> reloader_reachable sample_pki sample_paths sample_id True (rs_reloader s)"
proof -
  obtain self s0 s where self: "reloader_reachable sample_pki sample_paths sample_id True self"
    and run: "reload_exec sample_pki sample_creds [Request 0] (reload_start self sample_disk) = Some s0"
      "reload_exec sample_pki sample_creds (replicate 7 (ReloadTurn 0 0 None)) s0 = Some s" "rs_tasks s 0 = Some (Returned (Inr ()))"
    using sample_reload_run by blast
  have all: "reload_exec sample_pki sample_creds (Request 0 # replicate 7 (ReloadTurn 0 0 None)) (reload_start self sample_disk) = Some s"
    using reload_exec_append [of sample_pki sample_creds "[Request 0]" "replicate 7 (ReloadTurn 0 0 None)"] run
    by (simp only: append_Cons append_Nil bind.bind_lunit)
  with reloads_serialize [OF all sample_pki_utf8 self] run(3) show ?thesis by blast
qed

theorem reload_settles_witness:
  "\<exists>(s :: reload_state) now je. rs_tasks s 0 = Some (Returned (Inr ())) \<and>
     load_generation sample_pki (sampled sample_creds now je (replicate 3 (rs_disk s))) (rl_paths (rs_reloader s))
       (rl_expected_identity (rs_reloader s)) (rl_mux_enabled (rs_reloader s)) = Some (Inr (rl_generation (rs_reloader s)))"
proof -
  obtain self s0 s where run: "reload_exec sample_pki sample_creds [Request 0] (reload_start self sample_disk) = Some s0"
      "reload_exec sample_pki sample_creds (replicate 7 (ReloadTurn 0 0 None)) s0 = Some s"
      "waiting s0 0" "rs_tasks s 0 = Some (Returned (Inr ()))"
    using sample_reload_run by blast
  have "\<forall>e \<in> set (replicate 7 (ReloadTurn 0 0 None)). \<not> writes e" by (simp add: writes_def)
  from reload_settles [OF run(1,2) this run(3,4)] run(4) show ?thesis by blast
qed

end
