(* ===== verification/Tests_Integration.thy ===== *)
theory Tests_Integration
  imports Tests_Common
begin

text \<open>
  The integration tests under \<open>tests\<close> that call the library's functions and no sockets: identities,
  policies and protocol detection in \<open>tests/mtls_handshake.rs\<close> and \<open>tests/e2e_proxy_test.rs\<close>. As in
  \<open>Tests_Common\<close> a test is a boolean over the model with the assertions in their order.
\<close>

definition test_id :: "string \<Rightarrow> string \<Rightarrow> string \<Rightarrow> SpiffeId panicky" where
  "test_id td ns sa = unwrap (try_new td ns sa)"

definition decides :: "PolicyEngine \<Rightarrow> SpiffeId \<Rightarrow> SpiffeId \<Rightarrow> Decision \<Rightarrow> bool" where
  "decides engine src dst decision = (evaluate engine src dst = Some decision)"

subsection \<open>Identities\<close>

definition test_spiffe_id_integration :: bool where
  "test_spiffe_id_integration =
     (let original = ''spiffe://cluster.local/ns/default/sa/web-api'' in
      case Option.bind (SpiffeId_from_uri original) unwrap of
        None \<Rightarrow> False
      | Some ident \<Rightarrow> to_uri ident = original \<and> trust_domain ident = ''cluster.local''
          \<and> namespace ident = ''default'' \<and> service_account ident = ''web-api'')"

definition e2e_spiffe_id_roundtrip :: bool where
  "e2e_spiffe_id_roundtrip =
     (case test_id ''cluster.local'' ''default'' ''web-api'' of
        None \<Rightarrow> False
      | Some ident \<Rightarrow> let uri = to_uri ident in
          uri = ''spiffe://cluster.local/ns/default/sa/web-api'' \<and> gives (SpiffeId_from_uri uri) ident)"

definition test_spiffe_id_wildcard :: bool where
  "test_spiffe_id_wildcard =
     (case test_id ''trust'' ''default'' ''web'' of
        None \<Rightarrow> False
      | Some ident \<Rightarrow> matches_pattern ident ''spiffe://trust/ns/default/sa/web'' = Some True
          \<and> matches_pattern ident ''spiffe://trust/ns/*/sa/*'' = Some True
          \<and> matches_pattern ident ''spiffe://other/ns/default/sa/web'' = Some False)"

lemma identity_integration_tests:
  "test_spiffe_id_integration" "e2e_spiffe_id_roundtrip" "test_spiffe_id_wildcard"
  by code_simp+

subsection \<open>Policies\<close>

definition test_policy_engine_multi_namespace :: bool where
  "test_policy_engine_multi_namespace =
     (case do {
        internal \<leftarrow> allow_same_namespace ''cluster.local'' ''billing'';
        to_grafana \<leftarrow> allow ''spiffe://cluster.local/ns/billing/sa/*'' ''spiffe://cluster.local/ns/monitoring/sa/grafana''
                        ''billing can access grafana'';
        billing_svc \<leftarrow> test_id ''cluster.local'' ''billing'' ''invoice-worker'';
        grafana \<leftarrow> test_id ''cluster.local'' ''monitoring'' ''grafana'';
        unknown \<leftarrow> test_id ''cluster.local'' ''default'' ''hacker'';
        Some (add_namespace_rule (add_namespace_rule PolicyEngine_new ''billing'' internal) ''monitoring'' to_grafana,
              billing_svc, grafana, unknown)
      } of
        None \<Rightarrow> False
      | Some (engine, billing_svc, grafana, unknown) \<Rightarrow>
          decides engine billing_svc grafana Allow \<and> decides engine unknown grafana (Deny ''no matching policy''))"

definition test_policy_engine_default_deny :: bool where
  "test_policy_engine_default_deny =
     (case (test_id ''test.local'' ''default'' ''unknown'', test_id ''test.local'' ''billing'' ''api'') of
        (Some src, Some dst) \<Rightarrow> decides PolicyEngine_new src dst (Deny ''no matching policy'')
      | _ \<Rightarrow> False)"

definition test_policy_engine_allow :: bool where
  "test_policy_engine_allow =
     (case do {
        rule \<leftarrow> allow ''spiffe://test.local/ns/default/sa/*'' ''spiffe://test.local/ns/billing/sa/*'' ''allow default to billing'';
        src \<leftarrow> test_id ''test.local'' ''default'' ''web'';
        dst \<leftarrow> test_id ''test.local'' ''billing'' ''api'';
        Some (rule, src, dst)
      } of
        None \<Rightarrow> False
      | Some (rule, src, dst) \<Rightarrow> decides (add_namespace_rule PolicyEngine_new ''billing'' rule) src dst Allow)"

lemma policy_integration_tests:
  "test_policy_engine_multi_namespace" "test_policy_engine_default_deny" "test_policy_engine_allow"
  by code_simp+

subsection \<open>Protocol detection\<close>

definition http2_preface :: bytes where
  "http2_preface = ''PRI * HTTP/2.0'' @ test_crlf @ test_crlf @ ''SM'' @ test_crlf @ test_crlf"

definition test_protocol_detection_all_formats :: bool where
  "test_protocol_detection_all_formats =
     list_all (\<lambda>(buf, expected). detect buf = expected)
       [(''GET / HTTP/1.1'' @ test_crlf, Http11),
        (''POST /api HTTP/1.1'' @ test_crlf, Http11),
        (''PUT /resource HTTP/1.1'' @ test_crlf, Http11),
        (''DELETE /resource HTTP/1.1'' @ test_crlf, Http11),
        (''PATCH /resource HTTP/1.1'' @ test_crlf, Http11),
        (''HEAD /resource HTTP/1.1'' @ test_crlf, Http11),
        (''OPTIONS / HTTP/1.1'' @ test_crlf, Http11),
        (http2_preface, Http2),
        ([CHR 0x00, CHR 0x01, CHR 0x02, CHR 0x03, CHR 0x04, CHR 0x05, CHR 0x06, CHR 0x07], Tcp),
        ([], Tcp)]"

definition test_protocol_detection_all_methods :: bool where
  "test_protocol_detection_all_methods =
     (list_all (\<lambda>m. detect (m @ '' / HTTP/1.1'' @ test_crlf) = Http11)
        [''GET'', ''POST'', ''PUT'', ''DELETE'', ''HEAD'', ''PATCH'', ''OPTIONS'', ''TRACE'', ''CONNECT'']
      \<and> detect http2_preface = Http2 \<and> detect [CHR 0x00, CHR 0x01, CHR 0x02, CHR 0x03] = Tcp)"

definition test_proto_detection_edge_cases :: bool where
  "test_proto_detection_edge_cases = (detect [] = Tcp \<and> detect ''12345678'' = Tcp)"

lemma protocol_integration_tests:
  "test_protocol_detection_all_formats" "test_protocol_detection_all_methods" "test_proto_detection_edge_cases"
  by code_simp+

end
