(* ===== verification/Spec2Isabelle.thy ===== *)
theory Spec2Isabelle
  imports Proxy_Run Mux_Driver Gate_Steps Demo_Run Tests_Mesh
    Handshake_Count Reload_Steps Tests_Integration
begin

text \<open>
  A verification library for interlink, a SPIFFE-native mutual-TLS sidecar proxy written in Rust.

  \<^bold>\<open>The program.\<close> \<open>interlinkd\<close> (\<open>src/main.rs\<close>) runs beside a workload. Its inbound proxy
  (\<open>src/proxy/tcp.rs\<close>) accepts mutual TLS from other sidecars, reads the peer's SPIFFE identity out
  of its certificate, asks the policy engine whether that identity may talk to this workload and
  relays to the upstream. Its outbound proxy (\<open>src/proxy/outbound.rs\<close>) takes the workload's own
  connections, finds the peer sidecar, checks the policy for the identity the peer proves and
  relays over a stream of a multiplexed tunnel (\<open>src/proxy/mux.rs\<close>) or a TLS connection of its
  own. Both draw their TLS endpoints from a reloadable credential set (\<open>src/proxy/reload.rs\<close>), which
  the admin server (\<open>src/admin/mod.rs\<close>) replaces on request.

  \<^bold>\<open>How code becomes definitions.\<close> A Rust string is the list of its UTF-8 bytes (\<open>string\<close>); a
  \<open>Result\<close> is a sum with \<open>Inl\<close> for the error; code that may panic returns an \<open>option\<close> whose \<open>None\<close>
  is the panic; machine integers are words. Process-wide state (metrics and the identity cache)
  is the record \<open>globals\<close>, passed and returned. Code that runs in many tasks is a step function over
  a datatype of program points, with one step between any two accesses to shared state, and an
  inductive relation interleaves the tasks. What the program calls but does not contain (rustls,
  webpki, x509-parser, rcgen, hickory, yamux, serde, the file system, sockets, clocks) is an
  argument: the records \<open>pki\<close>, \<open>config_world\<close>, \<open>k8s_world\<close>, \<open>cred_world\<close>, \<open>rcgen\<close>, \<open>inbound_env\<close>,
  \<open>outbound_input\<close>, \<open>driver_poll\<close> and \<open>daemon_world\<close>, the semaphore constructor \<open>semaphore_new\<close> (tokio's
  panics above \<open>MAX_PERMITS\<close>) and the TLS connection between two endpoints \<open>tls_link\<close>. Hypotheses on them state that what Rust types
  as \<open>str\<close> is valid UTF-8 (\<open>pki_utf8\<close>, \<open>world_utf8\<close>), that the identity cache is coherent at the start
  (part of \<open>tls_ok\<close>), that a certificate library encodes what it was given (\<open>encodes_sans\<close>), that the
  random generator fills the array it is given (\<open>fills_array\<close>), or that a TLS connection comes up
  exactly when both ends accept each other (\<open>mutual_tls\<close>), at the time of the full handshake it goes
  back to: its own or, for a resumed session, the one that made the ticket.

  \<^bold>\<open>The theories, with the code they model.\<close>
  \<^item> \<open>Prelude\<close>, \<open>Rust_Str\<close>, \<open>Net_Addr\<close>: results and panics, counting of tasks; the parts of Rust's
    standard library the source uses (string slicing with its panics, splitting, lossy UTF-8
    decoding, integer parsing, IP and socket addresses with their parser and printer).
  \<^item> \<open>Segment_Glob\<close>, \<open>Spiffe_Id\<close>, \<open>Common_Error\<close>: \<open>src/common/identity.rs\<close>, \<open>error.rs\<close>,
    \<open>constants.rs\<close>. The compiled glob matcher against a reference semantics of wildcards; the URI
    parser against the documented form, the exact condition under which it reads back what the
    printer wrote, pattern matching.
  \<^item> \<open>Policy\<close>: \<open>src/policy/mod.rs\<close>. Evaluation against the specification \<open>policy_spec\<close> (first rule of
    the destination's namespace, then first global rule, then the default), through the locale
    \<open>first_match\<close>.
  \<^item> \<open>Proto_Detect\<close>: \<open>src/protocol/mod.rs\<close>.
  \<^item> \<open>Runtime_Config\<close>: \<open>src/common/config.rs\<close>, \<open>src/proxy/config.rs\<close>. Precedence of environment,
    file and defaults with every error path.
  \<^item> \<open>Metrics\<close>: \<open>src/metrics/mod.rs\<close>. \<open>Proxy_Common\<close>: \<open>src/proxy/mod.rs\<close>, \<open>original_dst.rs\<close>, and what
    the two proxies have alike: the connection gate, the shutdown wait and the drain loop.
    \<open>Gate_Steps\<close>: the gate again with every operation on the semaphore and on the counter as a step
    of its own, which refines the atomic gate the other theories use.
  \<^item> \<open>Handshake\<close>: \<open>src/proxy/handshake.rs\<close>, \<open>verify.rs\<close>. The verifier, identity extraction and its
    cache, both endpoints. The locale \<open>tls_endpoint\<close> is what a proxy relies on: a handshake returns,
    keeps the metrics it does not own and yields a valid identity; it is interpreted for all four
    handshakes here and for the reloadable pair in \<open>Reload\<close>.
  \<^item> \<open>Discovery\<close>: \<open>src/discovery/dns.rs\<close>. The single-flight resolver under interleaving.
  \<^item> \<open>Mux_Pool\<close>, \<open>Mux_Driver\<close>: \<open>src/proxy/mux.rs\<close>. The pool (locale \<open>tunnel_pool\<close>) and the task that
    drives one session.
  \<^item> \<open>Inbound\<close>: \<open>src/proxy/tcp.rs\<close> with \<open>serve_tunnel\<close>. \<open>Outbound\<close>: \<open>src/proxy/outbound.rs\<close>, its
    handlers interleaved over the shared pool, with one inductive invariant for authorization,
    locks, stream counters, metrics and the sessions the tunnels run over, whose certificates carry
    the identity the policy was asked about. \<open>Proxy_Run\<close>: \<open>run\<close> of both, acceptors and handlers under
    the connection limit and the shutdown channel (locale \<open>accepting\<close>), and the drain of each.
    \<open>Handshake_Count\<close>: runs of the outbound handlers against one peer that is up, with the TLS
    handshakes they cost counted.
  \<^item> \<open>Id_Provider\<close>, \<open>Reload\<close>, \<open>Cert_Authority\<close>: \<open>src/identity/provider/mod.rs\<close>,
    \<open>src/proxy/reload.rs\<close>, \<open>src/identity/ca/mod.rs\<close>. \<open>Reload_Steps\<close>: many reloads at once, with the
    mutex, each read of a file and the swap as steps of their own, while the files are rewritten.
  \<^item> \<open>Admin\<close>: \<open>src/admin/mod.rs\<close>, generic in what it reloads (locale \<open>reload_contract\<close>, interpreted
    on \<open>reload\<close>). \<open>Daemon\<close>: \<open>src/main.rs\<close>, which puts everything together.
  \<^item> \<open>Mesh\<close>: two daemons and one connection between them, both handshakes drawn from one \<open>tls_link\<close>.
  \<^item> \<open>Bench_Server\<close>, \<open>Demo\<close>, \<open>Demo_Run\<close>: the programs under \<open>examples\<close>. The request parser of the
    benchmark server with its arithmetic in 64 bits; that the daemon loads what the bootstrap
    writes; the services from their arguments to the last connection of their accept loops, and the
    two joined by one connection.
  \<^item> \<open>Tests_Common\<close>, \<open>Tests_Mesh\<close>: the unit tests of the sources and the counters of
    \<open>metrics::test_helpers\<close>. A test is a boolean over the definitions above; that it holds shows
    that the model meets the expectations the code is tested against. Two observations come with
    them: the test of single-flight lookups passes because it runs on one thread
    (\<open>dedup_needs_one_thread\<close>), and the tests of the counters interfere (\<open>counter_tests_interfere\<close>).
    \<open>Tests_Integration\<close>: the tests under \<open>tests\<close> that call the library without sockets.

  \<^bold>\<open>What is shown.\<close> Data reaches or leaves the workload only after the policy allowed the identity
  the peer's certificate carries, in every interleaving; for the daemon as \<open>main\<close> builds it this
  means, without the benchmark escape hatch and for identities free of wildcards (the one rule reads
  the identity as a pattern), that only replicas of the workload talk to each other, before and
  after any reload, and that two replicas whose certificates the other side validates do, with both
  ends agreeing. The
  tunnel pool keeps its bounds, its counters equal the streams in use, handlers never deadlock,
  and connections to one peer share few handshakes.
  Caches (identities, DNS answers) never change an answer. A reload is all or nothing and serves
  only credentials that passed the checks; concurrent reloads are the atomic ones in a row, and once
  the files rest the newest credentials win. Parsers accept exactly the documented languages.
  Starting ends with a daemon or an error and panics exactly when it gets as far as a connection
  limit the semaphore does not take; shutting down ends.

  \<^bold>\<open>Bounds and fuel.\<close> An outbound handler takes at most 33 steps (\<open>route_rank\<close> falls with each
  one), so \<open>route_run\<close> with fuel 33 finishes. The drain loop gets 301 turns: 30 s of grace in turns
  of at least 100 ms. Every other loop is a structural recursion or has a termination proof.

  \<^bold>\<open>Atomicity and time.\<close> One step of a task is the code between two points where another task can
  run or observe; the loads that a tunnel pick compares are read at once. Permit and count of an
  active connection are taken and returned at once too, which \<open>Gate_Steps\<close> justifies. Timeouts are outcomes the environment
  may choose. Clocks are inputs.

  \<^bold>\<open>Not modelled.\<close> Logging and what the bootstrap prints; the copying of bytes inside
  \<open>copy_bidirectional\<close>, the delegating reads and writes of \<open>MuxStream\<close>, the signature checks the
  verifier hands on, and the TLS and yamux protocols: all of it is done by libraries, whose results
  are arguments here. Fields of a certificate other than its names are not parsed by the program,
  only by six of its tests, which are left out; the two tests of \<open>src/proxy/tcp.rs\<close> run no code of the
  program. Of the files under \<open>tests\<close> those tests are left out that run real sockets, TLS sessions and
  timers, one that measures time and one that walks the fields of a certificate; what they watch for is shown of the model by other means: shared handshakes
  (\<open>Handshake_Count\<close>), concurrent reloads (\<open>Reload_Steps\<close>), the shutdown of a running proxy
  (\<open>Proxy_Run\<close>), the verifier (\<open>Handshake\<close>). Half-closed streams are a matter of the copying
  library, and whether a session is resumed one of the TLS library. \<open>benches\<close> measures time and memory.
\<close>

end
